(* ===== verification/Prelude.thy ===== *)
theory Prelude
  imports Main "HOL-Library.Word" "HOL-Library.Monad_Syntax"
begin

unbundle bit_operations_syntax

text \<open>
  Shared vocabulary of the development: machine integers at the widths of
  \<^verbatim>\<open>stdint.h\<close>, the sizes and codes of \<^verbatim>\<open>agent/include/tracefox.h\<close>, bounds-checked
  arrays, and the generic lemmas on words, lists and options that the component
  theories use.

  Conventions. A pointer that may be NULL is an \<open>option\<close>. A computation whose C text can
  have undefined behaviour (an access outside an array, a NULL dereference, a
  floating-point value that does not fit the integer it is converted to) returns an
  \<open>option\<close> as well, where \<open>None\<close> is the undefined behaviour; \<open>Some\<close> of a result is
  a run that is defined by the C standard. A \<^verbatim>\<open>size_t\<close> that counts bytes or array elements is
  a \<open>nat\<close>; \<^verbatim>\<open>unsigned long\<close> and \<^verbatim>\<open>long\<close> have 64 bits (LP64).
\<close>

section \<open>Machine integers\<close>

type_synonym u8 = "8 word"
type_synonym u16 = "16 word"
type_synonym u32 = "32 word"
type_synonym u64 = "64 word"

named_theorems width_simps "values of words under casts, shifts and arithmetic"
named_theorems len_simps "lengths of encodings and buffers"
named_theorems safe_simps "operations that are defined under their invariant"

abbreviation (input) UINT16_MAX :: nat where "UINT16_MAX \<equiv> 65535"
abbreviation (input) UINT32_MAX :: nat where "UINT32_MAX \<equiv> 4294967295"
abbreviation (input) ULLONG_MAX :: nat where "ULLONG_MAX \<equiv> 18446744073709551615"
abbreviation (input) LONG_MAX :: int where "LONG_MAX \<equiv> 9223372036854775807"
abbreviation (input) LONG_MIN :: int where "LONG_MIN \<equiv> - 9223372036854775808"

section \<open>Constants of tracefox.h\<close>

abbreviation (input) TF_MAGIC :: u16 where "TF_MAGIC \<equiv> 0x5446"
abbreviation (input) TF_VERSION :: u8 where "TF_VERSION \<equiv> 2"
abbreviation (input) TF_MAX_INTERFACES :: nat where "TF_MAX_INTERFACES \<equiv> 4"
abbreviation (input) TF_MAX_DISKS :: nat where "TF_MAX_DISKS \<equiv> 16"
abbreviation (input) TF_MAX_FS :: nat where "TF_MAX_FS \<equiv> 16"
abbreviation (input) TF_PROC_TRACK :: nat where "TF_PROC_TRACK \<equiv> 64"
abbreviation (input) TF_MAX_PROC_GROUPS :: nat where "TF_MAX_PROC_GROUPS \<equiv> 8"
abbreviation (input) TF_THREAD_TRACK :: nat where "TF_THREAD_TRACK \<equiv> 1024"
abbreviation (input) TF_THREAD_SCAN_LIMIT_PER_PID :: nat where "TF_THREAD_SCAN_LIMIT_PER_PID \<equiv> 512"
abbreviation (input) TF_THREAD_CANDIDATES :: nat where "TF_THREAD_CANDIDATES \<equiv> 512"
abbreviation (input) TF_MAX_THREAD_TOP_N :: nat where "TF_MAX_THREAD_TOP_N \<equiv> 7"
abbreviation (input) TF_THREAD_STATE_COUNT :: nat where "TF_THREAD_STATE_COUNT \<equiv> 7"
abbreviation (input) TF_NET_NAME_SIZE :: nat where "TF_NET_NAME_SIZE \<equiv> 8"
abbreviation (input) TF_DISK_NAME_SIZE :: nat where "TF_DISK_NAME_SIZE \<equiv> 8"
abbreviation (input) TF_FS_MOUNT_SIZE :: nat where "TF_FS_MOUNT_SIZE \<equiv> 16"
abbreviation (input) TF_PROC_NAME_SIZE :: nat where "TF_PROC_NAME_SIZE \<equiv> 16"
abbreviation (input) TF_HOST_LABEL_SIZE :: nat where "TF_HOST_LABEL_SIZE \<equiv> 64"
abbreviation (input) TF_FRAME_BUF_SIZE :: nat where "TF_FRAME_BUF_SIZE \<equiv> 1400"
abbreviation (input) TF_THREAD_GROUP_HEADER_PAYLOAD_LEN :: nat
  where "TF_THREAD_GROUP_HEADER_PAYLOAD_LEN \<equiv> 34"
abbreviation (input) TF_THREAD_ENTRY_PAYLOAD_LEN :: nat where "TF_THREAD_ENTRY_PAYLOAD_LEN \<equiv> 28"
abbreviation (input) TF_DISK_CACHE_NAME_LEN :: nat where "TF_DISK_CACHE_NAME_LEN \<equiv> 16"
abbreviation (input) TF_MAX_COMM_PREFIX :: nat where "TF_MAX_COMM_PREFIX \<equiv> 32"
abbreviation (input) TF_COMM_PREFIX_LEN :: nat where "TF_COMM_PREFIX_LEN \<equiv> 32"
abbreviation (input) TF_LINE_BUF_SMALL :: nat where "TF_LINE_BUF_SMALL \<equiv> 256"
abbreviation (input) TF_LINE_BUF_NET :: nat where "TF_LINE_BUF_NET \<equiv> 512"
abbreviation (input) TF_TRACKER_INTERVAL_SEC :: int where "TF_TRACKER_INTERVAL_SEC \<equiv> 5"

abbreviation (input) TF_TYPE_CPU :: u8 where "TF_TYPE_CPU \<equiv> 0x01"
abbreviation (input) TF_TYPE_MEM :: u8 where "TF_TYPE_MEM \<equiv> 0x02"
abbreviation (input) TF_TYPE_HOST_LABEL :: u8 where "TF_TYPE_HOST_LABEL \<equiv> 0x03"
abbreviation (input) TF_TYPE_NET :: u8 where "TF_TYPE_NET \<equiv> 0x04"
abbreviation (input) TF_TYPE_DISK :: u8 where "TF_TYPE_DISK \<equiv> 0x05"
abbreviation (input) TF_TYPE_FS :: u8 where "TF_TYPE_FS \<equiv> 0x06"
abbreviation (input) TF_TYPE_PROC :: u8 where "TF_TYPE_PROC \<equiv> 0x07"
abbreviation (input) TF_TYPE_THREAD :: u8 where "TF_TYPE_THREAD \<equiv> 0x08"

section \<open>Bounds-checked arrays\<close>

text \<open>An array of the source is a list of its fixed length; an access outside it is
  undefined behaviour.\<close>

definition arr_get :: "'a list \<Rightarrow> nat \<Rightarrow> 'a option" where
  "arr_get xs i = (if i < length xs then Some (xs ! i) else None)"

definition arr_set :: "'a list \<Rightarrow> nat \<Rightarrow> 'a \<Rightarrow> 'a list option" where
  "arr_set xs i v = (if i < length xs then Some (xs[i := v]) else None)"

text \<open>\<^verbatim>\<open>memcpy(dst + off, src, n)\<close>: both ranges must lie inside their arrays.\<close>

definition mem_copy :: "'a list \<Rightarrow> nat \<Rightarrow> 'a list \<Rightarrow> nat \<Rightarrow> 'a list option" where
  "mem_copy dst off src n =
     (if off + n \<le> length dst \<and> n \<le> length src
      then Some (take off dst @ take n src @ drop (off + n) dst) else None)"

lemma arr_get_in [simp, safe_simps]: "i < length xs \<Longrightarrow> arr_get xs i = Some (xs ! i)"
  by (simp add: arr_get_def)

lemma arr_set_in [simp, safe_simps]: "i < length xs \<Longrightarrow> arr_set xs i v = Some (xs[i := v])"
  by (simp add: arr_set_def)

lemma arr_get_out: "length xs \<le> i \<Longrightarrow> arr_get xs i = None"
  by (simp add: arr_get_def)

lemma arr_get_Some_iff: "arr_get xs i = Some v \<longleftrightarrow> i < length xs \<and> v = xs ! i"
  by (auto simp: arr_get_def)

lemma arr_set_Some_iff: "arr_set xs i v = Some ys \<longleftrightarrow> i < length xs \<and> ys = xs[i := v]"
  by (auto simp: arr_set_def)

lemma mem_copy_in [simp, safe_simps]:
  "off + n \<le> length dst \<Longrightarrow> n \<le> length src \<Longrightarrow>
     mem_copy dst off src n = Some (take off dst @ take n src @ drop (off + n) dst)"
  by (simp add: mem_copy_def)

lemma mem_copy_Some_iff:
  "mem_copy dst off src n = Some r \<longleftrightarrow>
     off + n \<le> length dst \<and> n \<le> length src \<and>
     r = take off dst @ take n src @ drop (off + n) dst"
  by (auto simp: mem_copy_def)

section \<open>Checked arithmetic\<close>

text \<open>Signed 64-bit arithmetic overflows into undefined behaviour, and so does a division by
  zero.\<close>

definition s64 :: "int \<Rightarrow> int option" where
  "s64 x = (if LONG_MIN \<le> x \<and> x \<le> LONG_MAX then Some x else None)"

definition u64_div :: "u64 \<Rightarrow> u64 \<Rightarrow> u64 option" where
  "u64_div a b = (if b = 0 then None else Some (a div b))"

lemma s64_in [simp, safe_simps]: "LONG_MIN \<le> x \<Longrightarrow> x \<le> LONG_MAX \<Longrightarrow> s64 x = Some x"
  by (simp add: s64_def)

lemma u64_div_in [simp, safe_simps]: "b \<noteq> 0 \<Longrightarrow> u64_div a b = Some (a div b)"
  by (simp add: u64_div_def)

section \<open>Searching an array\<close>

text \<open>\<^verbatim>\<open>for (i = 0; i < n; ++i) if (P(xs[i])) return i;\<close>\<close>

fun find_idx :: "('a \<Rightarrow> bool) \<Rightarrow> 'a list \<Rightarrow> nat option" where
  "find_idx P [] = None"
| "find_idx P (x # xs) = (if P x then Some 0 else map_option Suc (find_idx P xs))"

lemma all_less_Suc_conv_split: "(\<forall>j < Suc n. P j) \<longleftrightarrow> P 0 \<and> (\<forall>j < n. P (Suc j))"
  by (metis Suc_less_eq less_Suc_eq_0_disj)

lemma find_idx_Some:
  "find_idx P xs = Some i \<longleftrightarrow> i < length xs \<and> P (xs ! i) \<and> (\<forall>j < i. \<not> P (xs ! j))"
proof (induction xs arbitrary: i)
  case Nil
  then show ?case by simp
next
  case (Cons x xs)
  then show ?case by (cases i) (auto simp: all_less_Suc_conv_split)
qed

lemma find_idx_None: "find_idx P xs = None \<longleftrightarrow> (\<forall>x \<in> set xs. \<not> P x)"
  by (induction xs) auto

lemma find_idx_cong: "(\<And>x. x \<in> set xs \<Longrightarrow> P x = Q x) \<Longrightarrow> find_idx P xs = find_idx Q xs"
  by (induction xs) auto

lemma find_idx_update_other:
  "\<not> P (xs ! i) \<Longrightarrow> \<not> P y \<Longrightarrow> find_idx P (xs[i := y]) = find_idx P xs"
proof (induction xs arbitrary: i)
  case Nil
  then show ?case by simp
next
  case (Cons x xs)
  then show ?case by (cases i) auto
qed

text \<open>Overwriting the first hit, or any place of an array without a hit, with a hit.\<close>

lemma find_idx_update_hit:
  "i < length xs \<Longrightarrow> P y \<Longrightarrow> find_idx P xs = Some i \<or> find_idx P xs = None \<Longrightarrow>
     find_idx P (xs[i := y]) = Some i"
  by (auto simp: find_idx_Some find_idx_None nth_list_update)

section \<open>Words\<close>

lemma unat_byte_cast [width_simps]: "unat (ucast w :: u8) = unat w mod 256"
  for w :: "'a::len word"
  by (simp add: unsigned_ucast_eq take_bit_eq_mod)

lemma unat_shift_right [width_simps]: "unat (drop_bit n w) = unat w div 2 ^ n"
  for w :: "'a::len word"
  by (simp only: unat_drop_bit_eq) (simp only: drop_bit_eq_div)

lemma byte_mask_cast [width_simps]: "(ucast (w AND 0xFF) :: u8) = ucast w"
  for w :: "'a::len word"
proof -
  have m: "(0xFF :: 'a word) = mask 8"
    by (simp add: mask_eq_exp_minus_1)
  show ?thesis
    unfolding m by (rule bit_word_eqI)
      (auto simp: bit_ucast_iff bit_and_iff bit_mask_iff simp del: mask_numeral dest: bit_imp_le_length)
qed

lemma unat_u8_lt [simp]: "unat (b :: u8) < 256"
  using unsigned_less [of b] by simp

lemma unat_u16_lt [simp]: "unat (w :: u16) < 65536"
  using unsigned_less [of w] by simp

lemma unat_u32_lt [simp]: "unat (w :: u32) < 4294967296"
  using unsigned_less [of w] by simp

lemma unat_u64_lt [simp]: "unat (w :: u64) < 18446744073709551616"
  using unsigned_less [of w] by simp

lemma unat_of_nat_u8 [width_simps]: "unat (of_nat n :: u8) = n mod 256"
  by (simp add: unat_of_nat)

lemma unat_of_nat_u16 [width_simps]: "unat (of_nat n :: u16) = n mod 65536"
  by (simp add: unat_of_nat)

lemma unat_of_nat_u32 [width_simps]: "unat (of_nat n :: u32) = n mod 4294967296"
  by (simp add: unat_of_nat)

lemma unat_of_nat_u64 [width_simps]: "unat (of_nat n :: u64) = n mod 18446744073709551616"
  by (simp add: unat_of_nat)

lemma u8_of_nat_inj: "n < 256 \<Longrightarrow> m < 256 \<Longrightarrow> (of_nat n :: u8) = of_nat m \<longleftrightarrow> n = m"
  by (metis mod_less unat_of_nat_u8)

lemma of_nat_u64_nonzero:
  assumes "0 < n" "n \<le> ULLONG_MAX"
  shows "(of_nat n :: u64) \<noteq> 0"
proof
  assume "(of_nat n :: u64) = 0"
  then have "unat (of_nat n :: u64) = 0" by simp
  with assms show False by (simp add: unat_of_nat_u64)
qed

lemma ucast_of_nat_u64_u32: "(ucast (of_nat n :: u64) :: u32) = of_nat n"
  by (simp add: word_unat_eq_iff unsigned_ucast_eq unat_of_nat take_bit_eq_mod mod_mod_cancel)

text \<open>A 64-bit difference of counters that did not run backwards.\<close>

lemma unat_sub_u64: "b \<le> a \<Longrightarrow> unat (a - b) = unat a - unat b" for a b :: u64
  by (rule unat_sub)

section \<open>Lists\<close>

lemma take_list_update_append:
  "i < length xs \<Longrightarrow> take (Suc i) (xs[i := v]) = take i xs @ [v]"
  by (simp add: take_Suc_conv_app_nth)

lemma list_all_update: "list_all P xs \<Longrightarrow> P y \<Longrightarrow> list_all P (xs[i := y])"
  by (auto simp: list_all_iff dest: set_update_subset_insert [THEN subsetD])

lemma length_concat_const [len_simps]:
  "(\<And>x. x \<in> set xs \<Longrightarrow> length (f x) = k) \<Longrightarrow> length (concat (map f xs)) = k * length xs"
  by (induction xs) auto

lemma take_take_append: "take k (take k xs @ ys) = take k (xs @ ys)"
  by (cases "k \<le> length xs") simp_all

lemma takeWhile_append_stop: "\<forall>x \<in> set xs. P x \<Longrightarrow> \<not> P y \<Longrightarrow> takeWhile P (xs @ y # ys) = xs"
  by (induction xs) auto

lemma takeWhile_idem [simp]: "takeWhile P (takeWhile P xs) = takeWhile P xs"
  by (rule takeWhile_eq_all_conv [THEN iffD2]) (auto dest: set_takeWhileD)

lemma takeWhile_take: "takeWhile P (take n xs) = take n (takeWhile P xs)"
  by (induction xs arbitrary: n) (auto simp: take_Cons split: nat.splits)

lemma takeWhile_all_replicate [simp]:
  "\<forall>x \<in> set xs. P x \<Longrightarrow> \<not> P y \<Longrightarrow> takeWhile P (xs @ replicate n y) = xs"
  by (cases n) (auto simp: takeWhile_append_stop)

lemma dropWhile_length_le: "length (dropWhile P xs) \<le> length xs"
  by (induction xs) auto

end
