(* ===== verification/Tlv.thy ===== *)
theory Tlv
  imports Prelude
begin

text \<open>
  \<^verbatim>\<open>agent/src/tlv.c\<close> and the serialization helpers of \<^verbatim>\<open>agent/include/tracefox.h\<close>: big-endian
  encoders that append to a payload buffer through a cursor, and the frame writer that owns
  the 1400-byte frame buffer. A cursor is the list of bytes written so far (its length is
  \<^verbatim>\<open>cursor - payload\<close>); the frame writer keeps the whole buffer and every store into it is
  bounds-checked.

  The abstract view of a frame is a list of TLVs; the locale \<open>tlv_sink\<close> is the contract the
  collectors rely on when they push, and the writer of \<^verbatim>\<open>tlv.c\<close> is an instance of it.
\<close>

section \<open>Payload cursors\<close>

definition buf_put_be_u16 :: "u8 list \<Rightarrow> u16 \<Rightarrow> u8 list" where
  "buf_put_be_u16 cursor val = cursor @ [ucast (drop_bit 8 val), ucast val]"

definition buf_put_be_u32 :: "u8 list \<Rightarrow> u32 \<Rightarrow> u8 list" where
  "buf_put_be_u32 cursor val =
     cursor @ [ucast (drop_bit 24 val), ucast (drop_bit 16 val), ucast (drop_bit 8 val), ucast val]"

definition buf_put_be_u64 :: "u8 list \<Rightarrow> u64 \<Rightarrow> u8 list" where
  "buf_put_be_u64 cursor val =
     cursor @ [ucast (drop_bit 56 val), ucast (drop_bit 48 val), ucast (drop_bit 40 val),
       ucast (drop_bit 32 val), ucast (drop_bit 24 val), ucast (drop_bit 16 val),
       ucast (drop_bit 8 val), ucast val]"

section \<open>The frame writer\<close>

record tlv_writer =
  buffer :: "u8 list"
  wlen :: nat
  cap :: nat

definition tlv_put_u8 :: "tlv_writer \<Rightarrow> u8 \<Rightarrow> tlv_writer option" where
  "tlv_put_u8 wrt byte =
     do { b \<leftarrow> arr_set (buffer wrt) (wlen wrt) byte;
          Some (wrt\<lparr>buffer := b, wlen := wlen wrt + 1\<rparr>) }"

definition tlv_put_be_u16 :: "tlv_writer \<Rightarrow> u16 \<Rightarrow> tlv_writer option" where
  "tlv_put_be_u16 wrt val =
     do { b \<leftarrow> arr_set (buffer wrt) (wlen wrt) (ucast (drop_bit 8 val AND 0xFF));
          let wrt = wrt\<lparr>buffer := b, wlen := wlen wrt + 1\<rparr>;
          b \<leftarrow> arr_set (buffer wrt) (wlen wrt) (ucast (val AND 0xFF));
          Some (wrt\<lparr>buffer := b, wlen := wlen wrt + 1\<rparr>) }"

definition tlv_put_be_u32 :: "tlv_writer \<Rightarrow> u32 \<Rightarrow> tlv_writer option" where
  "tlv_put_be_u32 wrt val =
     do { b \<leftarrow> arr_set (buffer wrt) (wlen wrt) (ucast (drop_bit 24 val AND 0xFF));
          let wrt = wrt\<lparr>buffer := b, wlen := wlen wrt + 1\<rparr>;
          b \<leftarrow> arr_set (buffer wrt) (wlen wrt) (ucast (drop_bit 16 val AND 0xFF));
          let wrt = wrt\<lparr>buffer := b, wlen := wlen wrt + 1\<rparr>;
          b \<leftarrow> arr_set (buffer wrt) (wlen wrt) (ucast (drop_bit 8 val AND 0xFF));
          let wrt = wrt\<lparr>buffer := b, wlen := wlen wrt + 1\<rparr>;
          b \<leftarrow> arr_set (buffer wrt) (wlen wrt) (ucast (val AND 0xFF));
          Some (wrt\<lparr>buffer := b, wlen := wlen wrt + 1\<rparr>) }"

abbreviation (input) TLV_HEADER_MIN_SIZE :: nat where "TLV_HEADER_MIN_SIZE \<equiv> 12"

text \<open>The result pairs the C return value with the writer the pointer refers to afterwards.\<close>

definition tlv_init ::
  "tlv_writer option \<Rightarrow> u8 list option \<Rightarrow> nat \<Rightarrow> u32 \<Rightarrow> u32 \<Rightarrow> (int \<times> tlv_writer option) option" where
  "tlv_init writer buf capacity timestamp seq =
     (case (writer, buf) of
        (Some w, Some b) \<Rightarrow>
          if capacity < TLV_HEADER_MIN_SIZE then Some (-1, writer)
          else do {
            let w = w\<lparr>buffer := b, cap := capacity, wlen := 0\<rparr>;
            w \<leftarrow> tlv_put_be_u16 w TF_MAGIC;
            w \<leftarrow> tlv_put_u8 w TF_VERSION;
            w \<leftarrow> tlv_put_u8 w 0;
            w \<leftarrow> tlv_put_be_u32 w timestamp;
            w \<leftarrow> tlv_put_be_u32 w seq;
            Some (0, Some w) }
      | _ \<Rightarrow> Some (-1, writer))"

definition tlv_put ::
  "tlv_writer option \<Rightarrow> u8 \<Rightarrow> u8 list option \<Rightarrow> u8 \<Rightarrow> (int \<times> tlv_writer option) option" where
  "tlv_put writer type value len =
     (case (writer, value) of
        (Some w, Some v) \<Rightarrow>
          if wlen w + 2 + unat len > cap w then Some (-1, writer)
          else do {
            w \<leftarrow> tlv_put_u8 w type;
            w \<leftarrow> tlv_put_u8 w len;
            b \<leftarrow> mem_copy (buffer w) (wlen w) v (unat len);
            Some (0, Some (w\<lparr>buffer := b, wlen := wlen w + unat len\<rparr>)) }
      | _ \<Rightarrow> Some (-1, writer))"

section \<open>Abstract frames\<close>

type_synonym tlv = "u8 \<times> u8 list"

definition valid_tlv :: "tlv \<Rightarrow> bool" where
  "valid_tlv t \<longleftrightarrow> length (snd t) < 256"

definition encode_tlv :: "tlv \<Rightarrow> u8 list" where
  "encode_tlv t = fst t # of_nat (length (snd t)) # snd t"

definition encode_tlvs :: "tlv list \<Rightarrow> u8 list" where
  "encode_tlvs ts = concat (map encode_tlv ts)"

definition encode_header :: "u32 \<Rightarrow> u32 \<Rightarrow> u8 list" where
  "encode_header timestamp seq =
     buf_put_be_u32 (buf_put_be_u32 (buf_put_be_u16 [] TF_MAGIC @ [TF_VERSION, 0]) timestamp) seq"

definition frame :: "tlv_writer \<Rightarrow> u8 list" where
  "frame w = take (wlen w) (buffer w)"

definition wf_writer :: "tlv_writer \<Rightarrow> bool" where
  "wf_writer w \<longleftrightarrow> length (buffer w) = cap w \<and> wlen w \<le> cap w"

text \<open>The writer after the bytes \<open>bs\<close> were stored at its position.\<close>

definition extend :: "tlv_writer \<Rightarrow> u8 list \<Rightarrow> tlv_writer" where
  "extend w bs = w\<lparr>buffer := take (wlen w) (buffer w) @ bs @ drop (wlen w + length bs) (buffer w),
     wlen := wlen w + length bs\<rparr>"

section \<open>The contract of a TLV sink\<close>

locale tlv_sink =
  fixes put :: "'w \<Rightarrow> u8 \<Rightarrow> u8 list \<Rightarrow> u8 \<Rightarrow> (int \<times> 'w) option"
    and bytes :: "'w \<Rightarrow> u8 list"
    and limit :: "'w \<Rightarrow> nat"
    and ok :: "'w \<Rightarrow> bool"
  assumes bytes_limit: "ok w \<Longrightarrow> length (bytes w) \<le> limit w"
    and put_fits: "ok w \<Longrightarrow> unat n \<le> length v \<Longrightarrow> length (bytes w) + 2 + unat n \<le> limit w \<Longrightarrow>
      \<exists>w'. put w t v n = Some (0, w') \<and> ok w' \<and> limit w' = limit w \<and>
        bytes w' = bytes w @ encode_tlv (t, take (unat n) v)"
    and put_full: "ok w \<Longrightarrow> unat n \<le> length v \<Longrightarrow> limit w < length (bytes w) + 2 + unat n \<Longrightarrow>
      put w t v n = Some (- 1, w)"
begin

text \<open>A put is all or nothing: it is defined, keeps the limit and leaves whole TLVs behind.\<close>

lemma put_whole:
  assumes "ok w" "unat n \<le> length v"
  obtains rc w' ts where "put w t v n = Some (rc, w')" "ok w'" "limit w' = limit w"
    "bytes w' = bytes w @ encode_tlvs ts" "list_all valid_tlv ts"
    "rc = 0 \<and> ts = [(t, take (unat n) v)] \<or> rc = - 1 \<and> ts = []"
proof (cases "length (bytes w) + 2 + unat n \<le> limit w")
  case True
  then obtain w' where "put w t v n = Some (0, w')" "ok w'" "limit w' = limit w"
    "bytes w' = bytes w @ encode_tlv (t, take (unat n) v)"
    using put_fits [OF assms True] by blast
  then show thesis
    using assms(2) unsigned_less [of n]
    by (intro that [of 0 w' "[(t, take (unat n) v)]"])
      (auto simp: encode_tlvs_def valid_tlv_def min_def)
next
  case False
  then show thesis
    using put_full [OF assms] assms(1)
    by (intro that [of "- 1" w "[]"]) (auto simp: encode_tlvs_def)
qed

end

section \<open>Lemmas\<close>

lemma length_buf_put [simp, len_simps]:
  "length (buf_put_be_u16 c v) = length c + 2"
  "length (buf_put_be_u32 c w) = length c + 4"
  "length (buf_put_be_u64 c d) = length c + 8"
  by (simp_all add: buf_put_be_u16_def buf_put_be_u32_def buf_put_be_u64_def)

lemma buf_put_append:
  "buf_put_be_u16 (a @ c) v = a @ buf_put_be_u16 c v"
  "buf_put_be_u32 (a @ c) w = a @ buf_put_be_u32 c w"
  "buf_put_be_u64 (a @ c) d = a @ buf_put_be_u64 c d"
  by (simp_all add: buf_put_be_u16_def buf_put_be_u32_def buf_put_be_u64_def)

lemma buf_put_nil:
  "c \<noteq> [] \<Longrightarrow> buf_put_be_u16 c v = c @ buf_put_be_u16 [] v"
  "c \<noteq> [] \<Longrightarrow> buf_put_be_u32 c w = c @ buf_put_be_u32 [] w"
  "c \<noteq> [] \<Longrightarrow> buf_put_be_u64 c d = c @ buf_put_be_u64 [] d"
  by (simp_all add: buf_put_be_u16_def buf_put_be_u32_def buf_put_be_u64_def)

lemma encode_tlvs_simps [simp]:
  "encode_tlvs [] = []"
  "encode_tlvs (t # ts) = encode_tlv t @ encode_tlvs ts"
  "encode_tlvs (ts @ us) = encode_tlvs ts @ encode_tlvs us"
  by (simp_all add: encode_tlvs_def)

lemma length_encode_tlv [simp, len_simps]: "length (encode_tlv t) = 2 + length (snd t)"
  by (simp add: encode_tlv_def)

lemma length_encode_header [simp, len_simps]: "length (encode_header ts seq) = 12"
  by (simp add: encode_header_def)

lemma extend_cap [simp]: "cap (extend w bs) = cap w"
  by (simp add: extend_def)

lemma extend_wlen [simp]: "wlen (extend w bs) = wlen w + length bs"
  by (simp add: extend_def)

lemma extend_buffer_length [simp]:
  "wlen w + length bs \<le> length (buffer w) \<Longrightarrow> length (buffer (extend w bs)) = length (buffer w)"
  by (simp add: extend_def)

lemma extend_extend:
  "wlen w + length as + length bs \<le> length (buffer w) \<Longrightarrow>
     extend (extend w as) bs = extend w (as @ bs)"
  by (simp add: extend_def ac_simps)

lemma frame_extend: "wlen w \<le> length (buffer w) \<Longrightarrow> frame (extend w bs) = frame w @ bs"
  by (simp add: extend_def frame_def)

lemma length_frame: "wf_writer w \<Longrightarrow> length (frame w) = wlen w"
  by (simp add: frame_def wf_writer_def)

lemma wf_writer_extend: "wf_writer w \<Longrightarrow> wlen w + length bs \<le> cap w \<Longrightarrow> wf_writer (extend w bs)"
  by (simp add: wf_writer_def)

lemma tlv_put_u8_eq [safe_simps]:
  "wlen w < length (buffer w) \<Longrightarrow> tlv_put_u8 w b = Some (extend w [b])"
  by (simp add: tlv_put_u8_def extend_def upd_conv_take_nth_drop)

lemma tlv_put_be_u16_steps:
  "tlv_put_be_u16 w v =
     do { w \<leftarrow> tlv_put_u8 w (ucast (drop_bit 8 v)); tlv_put_u8 w (ucast v) }"
  by (simp add: tlv_put_be_u16_def tlv_put_u8_def byte_mask_cast)

lemma tlv_put_be_u32_steps:
  "tlv_put_be_u32 w v =
     do { w \<leftarrow> tlv_put_u8 w (ucast (drop_bit 24 v)); w \<leftarrow> tlv_put_u8 w (ucast (drop_bit 16 v));
          w \<leftarrow> tlv_put_u8 w (ucast (drop_bit 8 v)); tlv_put_u8 w (ucast v) }"
  by (simp add: tlv_put_be_u32_def tlv_put_u8_def byte_mask_cast)

lemma tlv_put_be_u16_eq [safe_simps]:
  "wlen w + 2 \<le> length (buffer w) \<Longrightarrow> tlv_put_be_u16 w v = Some (extend w (buf_put_be_u16 [] v))"
  by (simp add: tlv_put_be_u16_steps tlv_put_u8_eq extend_extend buf_put_be_u16_def)

lemma tlv_put_be_u32_eq [safe_simps]:
  "wlen w + 4 \<le> length (buffer w) \<Longrightarrow> tlv_put_be_u32 w v = Some (extend w (buf_put_be_u32 [] v))"
  by (simp add: tlv_put_be_u32_steps tlv_put_u8_eq extend_extend buf_put_be_u32_def)

lemma tlv_init_eq:
  assumes "12 \<le> capacity" "capacity = length b"
  shows "tlv_init (Some w) (Some b) capacity ts seq =
    Some (0, Some (extend (w\<lparr>buffer := b, cap := capacity, wlen := 0\<rparr>) (encode_header ts seq)))"
  using assms
  by (simp add: tlv_init_def safe_simps extend_extend encode_header_def buf_put_nil
      buf_put_append)

lemma tlv_put_eq:
  assumes "wf_writer w" "unat n \<le> length v"
  shows "tlv_put (Some w) t (Some v) n =
    (if cap w < wlen w + 2 + unat n then Some (- 1, Some w)
     else Some (0, Some (extend w (encode_tlv (t, take (unat n) v)))))"
proof (cases "cap w < wlen w + 2 + unat n")
  case True
  then show ?thesis by (simp add: tlv_put_def)
next
  case False
  then have "wlen w + (2 + unat n) \<le> length (buffer w)"
    using assms(1) by (simp add: wf_writer_def)
  with False assms show ?thesis
    by (simp add: tlv_put_def tlv_put_u8_eq extend_extend encode_tlv_def wf_writer_def min_def)
      (simp add: extend_def min_def ac_simps)
qed

section \<open>The writer of tlv.c is a sink\<close>

definition writer_put :: "tlv_writer \<Rightarrow> u8 \<Rightarrow> u8 list \<Rightarrow> u8 \<Rightarrow> (int \<times> tlv_writer) option" where
  "writer_put w t v n = do { (rc, p) \<leftarrow> tlv_put (Some w) t (Some v) n; w \<leftarrow> p; Some (rc, w) }"

interpretation wr: tlv_sink writer_put frame cap wf_writer
proof unfold_locales
  show "length (frame w) \<le> cap w" if "wf_writer w" for w
    using that by (simp add: length_frame) (simp add: wf_writer_def)
next
  show "\<exists>w'. writer_put w t v n = Some (0, w') \<and> wf_writer w' \<and> cap w' = cap w \<and>
      frame w' = frame w @ encode_tlv (t, take (unat n) v)"
    if "wf_writer w" "unat n \<le> length v" "length (frame w) + 2 + unat n \<le> cap w" for w n v t
    using that
    by (intro exI [of _ "extend w (encode_tlv (t, take (unat n) v))"])
      (auto simp: writer_put_def tlv_put_eq length_frame frame_extend wf_writer_extend
        wf_writer_def min_def)
next
  show "writer_put w t v n = Some (- 1, w)"
    if "wf_writer w" "unat n \<le> length v" "cap w < length (frame w) + 2 + unat n" for w n v t
    using that by (simp add: writer_put_def tlv_put_eq length_frame)
qed

lemma tlv_put_writer: "tlv_put (Some w) t (Some v) n = map_option (map_prod id Some) (writer_put w t v n)"
  by (auto simp: writer_put_def tlv_put_def bind_eq_Some_conv split: option.splits bind_splits)

end
