(* ===== verification/Clib.thy ===== *)
theory Clib
  imports Prelude "HOL-Library.Sublist"
begin

text \<open>
  The part of the C library the agent uses, as executable functions on texts: C strings in
  fixed character arrays, character classes, \<^verbatim>\<open>strtol\<close> and \<^verbatim>\<open>strtoull\<close>, the
  line reader \<^verbatim>\<open>fgets\<close>, the \<^verbatim>\<open>scanf\<close> family as an interpreter over the
  directives of the formats in \<^verbatim>\<open>tracefox.h\<close>, and \<^verbatim>\<open>printf\<close> of unsigned numbers.
  The lemmas say that every reader consumes input (so the loops that call them end) and what
  they leave in the fixed arrays.
\<close>

section \<open>C strings in character arrays\<close>

abbreviation (input) NUL :: char where "NUL \<equiv> CHR 0x00"
abbreviation (input) NEWLINE :: char where "NEWLINE \<equiv> CHR 0x0A"

definition cstr :: "char list \<Rightarrow> string" where
  "cstr buf = takeWhile (\<lambda>c. c \<noteq> NUL) buf"

definition strncpy :: "char list \<Rightarrow> string \<Rightarrow> nat \<Rightarrow> char list" where
  "strncpy dst src n = take n (cstr src @ replicate n NUL) @ drop n dst"

definition byte_of_char :: "char \<Rightarrow> u8" where
  "byte_of_char c = of_nat (of_char c)"

definition char_of_byte :: "u8 \<Rightarrow> char" where
  "char_of_byte b = char_of (unat b)"

fun strcmp :: "string \<Rightarrow> string \<Rightarrow> int" where
  "strcmp [] [] = 0"
| "strcmp [] (y # ys) = - 1"
| "strcmp (x # xs) [] = 1"
| "strcmp (x # xs) (y # ys) =
     (if of_char x < (of_char y :: nat) then - 1
      else if of_char y < (of_char x :: nat) then 1 else strcmp xs ys)"

text \<open>\<^verbatim>\<open>strncmp(s, prefix, strlen(prefix)) == 0\<close>\<close>

definition has_prefix :: "string \<Rightarrow> string \<Rightarrow> bool" where
  "has_prefix s p \<longleftrightarrow> take (length p) s = p"

definition isspace :: "char \<Rightarrow> bool" where
  "isspace c \<longleftrightarrow> (let n = (of_char c :: nat) in n = 32 \<or> 9 \<le> n \<and> n \<le> 13)"

definition isdigit :: "char \<Rightarrow> bool" where
  "isdigit c \<longleftrightarrow> (let n = (of_char c :: nat) in 48 \<le> n \<and> n \<le> 57)"

definition tolower :: "char \<Rightarrow> char" where
  "tolower c = (let n = (of_char c :: nat) in if 65 \<le> n \<and> n \<le> 90 then char_of (n + 32) else c)"

text \<open>\<^verbatim>\<open>strcasecmp(a, b) == 0\<close>\<close>

definition strcaseeq :: "string \<Rightarrow> string \<Rightarrow> bool" where
  "strcaseeq a b \<longleftrightarrow> map tolower a = map tolower b"

section \<open>Numbers in text\<close>

definition digits_value :: "string \<Rightarrow> nat" where
  "digits_value ds = foldl (\<lambda>n c. 10 * n + (of_char c - 48)) 0 ds"

definition scan_sign :: "string \<Rightarrow> bool \<times> string" where
  "scan_sign s = (case s of
       c # r \<Rightarrow> if c = CHR ''-'' then (True, r) else if c = CHR ''+'' then (False, r) else (False, s)
     | [] \<Rightarrow> (False, []))"

text \<open>White space, an optional sign and at least one decimal digit; the sign, the digits and
  the rest of the input.\<close>

definition scan_integer :: "string \<Rightarrow> (bool \<times> string \<times> string) option" where
  "scan_integer s =
     (let (neg, u) = scan_sign (dropWhile isspace s); ds = takeWhile isdigit u
      in if ds = [] then None else Some (neg, ds, dropWhile isdigit u))"

text \<open>\<^verbatim>\<open>strtoull\<close>: the value, whether \<^verbatim>\<open>errno\<close> became \<^verbatim>\<open>ERANGE\<close>.\<close>

definition to_ull :: "bool \<Rightarrow> string \<Rightarrow> u64 \<times> bool" where
  "to_ull neg ds =
     (let n = digits_value ds
      in if n > ULLONG_MAX then (of_nat ULLONG_MAX, True)
         else (if neg then - of_nat n else of_nat n, False))"

definition to_long :: "bool \<Rightarrow> string \<Rightarrow> int \<times> bool" where
  "to_long neg ds =
     (let v = (if neg then - int (digits_value ds) else int (digits_value ds))
      in if v > LONG_MAX then (LONG_MAX, True)
         else if v < LONG_MIN then (LONG_MIN, True) else (v, False))"

text \<open>\<^verbatim>\<open>strtoull(s, &end, 10)\<close> and \<^verbatim>\<open>strtol(s, &end, 10)\<close>: value, \<^verbatim>\<open>errno != 0\<close>, and the
  text at \<^verbatim>\<open>end\<close>, which is all of \<open>s\<close> when there is no number.\<close>

definition strtoull :: "string \<Rightarrow> u64 \<times> bool \<times> string" where
  "strtoull s = (case scan_integer s of
       None \<Rightarrow> (0, False, s)
     | Some (neg, ds, r) \<Rightarrow> (let (v, e) = to_ull neg ds in (v, e, r)))"

definition strtol :: "string \<Rightarrow> int \<times> bool \<times> string" where
  "strtol s = (case scan_integer s of
       None \<Rightarrow> (0, False, s)
     | Some (neg, ds, r) \<Rightarrow> (let (v, e) = to_long neg ds in (v, e, r)))"

section \<open>fgets\<close>

definition fgets :: "nat \<Rightarrow> string \<Rightarrow> (string \<times> string) option" where
  "fgets n s =
     (if s = [] \<or> n < 2 then None
      else let t = take (n - 1) s;
               l = takeWhile (\<lambda>c. c \<noteq> NEWLINE) t;
               line = (if length l < length t then l @ [NEWLINE] else l)
           in Some (line, drop (length line) s))"

lemma fgets_shrinks [termination_simp]: "fgets n s = Some (l, r) \<Longrightarrow> length r < length s"
  by (cases s) (auto simp: fgets_def Let_def take_Cons' split: if_splits)

text \<open>All results of successive \<^verbatim>\<open>fgets(buf, n, fp)\<close> calls on a stream. A loop that reads
  its stream with one buffer size only walks along this list; what is left of the list is
  the position of the stream.\<close>

function file_lines :: "nat \<Rightarrow> string \<Rightarrow> string list" where
  "file_lines n s = (case fgets n s of None \<Rightarrow> [] | Some (l, r) \<Rightarrow> l # file_lines n r)"
  by pat_completeness auto
termination
  by (relation "measure (\<lambda>(n, s). length s)") (auto simp: fgets_shrinks)

declare file_lines.simps [simp del]

section \<open>scanf\<close>

text \<open>The directives of the agent's formats. \<open>C_s n\<close> is \<^verbatim>\<open>%ns\<close>, \<open>C_notin n c\<close> is
  \<^verbatim>\<open>%n[^c]\<close>, \<open>C_llu\<close> is \<^verbatim>\<open>%llu\<close> and \<^verbatim>\<open>%lu\<close>, \<open>C_skip_u\<close> is \<^verbatim>\<open>%*u\<close>, \<open>C_lf\<close> is
  \<^verbatim>\<open>%lf\<close> on decimal notation (which is what the kernel prints). The result of \<open>scanf\<close> is the
  list of assigned arguments, whose length is the return value where that is not negative,
  and the rest of the input.\<close>

datatype conv = C_ws | C_lit char | C_s nat | C_notin nat char
  | C_llu | C_skip_u | C_u | C_d | C_ld | C_lf

datatype arg = A_str string | A_u64 u64 | A_u32 u32 | A_int int
  | A_dec bool nat int \<comment> \<open>sign, digits \<open>n\<close>, exponent \<open>k\<close>: the number \<open>n * 10 ^ k\<close>\<close>

definition arg_str :: "arg \<Rightarrow> string" where
  "arg_str a = (case a of A_str s \<Rightarrow> s | _ \<Rightarrow> [])"

definition arg_u64 :: "arg \<Rightarrow> u64" where
  "arg_u64 a = (case a of A_u64 v \<Rightarrow> v | _ \<Rightarrow> 0)"

definition scan_exponent :: "string \<Rightarrow> (int \<times> string) option" where
  "scan_exponent s = (case s of
       c # r \<Rightarrow> if c = CHR ''e'' \<or> c = CHR ''E''
                then (case r of
                    d # _ \<Rightarrow> if isspace d then None
                             else map_option
                               (\<lambda>(neg, ds, r'). (if neg then - int (digits_value ds)
                                                 else int (digits_value ds), r'))
                               (scan_integer r)
                  | [] \<Rightarrow> None)
                else Some (0, s)
     | [] \<Rightarrow> Some (0, s))"

definition scan_fraction :: "string \<Rightarrow> string \<times> string" where
  "scan_fraction s = (case s of
       c # r \<Rightarrow> if c = CHR ''.'' then (takeWhile isdigit r, dropWhile isdigit r) else ([], s)
     | [] \<Rightarrow> ([], []))"

definition scan_decimal :: "string \<Rightarrow> (arg \<times> string) option" where
  "scan_decimal s =
     (let (neg, u) = scan_sign (dropWhile isspace s);
          ip = takeWhile isdigit u;
          (fp, w) = scan_fraction (dropWhile isdigit u)
      in if ip = [] \<and> fp = [] then None
         else case scan_exponent w of
             None \<Rightarrow> None
           | Some (e, r) \<Rightarrow> Some (A_dec neg (digits_value (ip @ fp)) (e - int (length fp)), r))"

fun scan1 :: "conv \<Rightarrow> string \<Rightarrow> (arg list \<times> string) option" where
  "scan1 C_ws s = Some ([], dropWhile isspace s)"
| "scan1 (C_lit c) s = (case s of x # r \<Rightarrow> if x = c then Some ([], r) else None | [] \<Rightarrow> None)"
| "scan1 (C_s n) s =
     (let t = dropWhile isspace s; w = take n (takeWhile (\<lambda>c. \<not> isspace c) t)
      in if w = [] then None else Some ([A_str w], drop (length w) t))"
| "scan1 (C_notin n c) s =
     (let w = take n (takeWhile (\<lambda>x. x \<noteq> c) s)
      in if w = [] then None else Some ([A_str w], drop (length w) s))"
| "scan1 C_llu s =
     map_option (\<lambda>(neg, ds, r). ([A_u64 (fst (to_ull neg ds))], r)) (scan_integer s)"
| "scan1 C_skip_u s = map_option (\<lambda>(neg, ds, r). ([], r)) (scan_integer s)"
| "scan1 C_u s =
     map_option (\<lambda>(neg, ds, r). ([A_u32 (ucast (fst (to_ull neg ds)))], r)) (scan_integer s)"
| "scan1 C_d s =
     map_option (\<lambda>(neg, ds, r). ([A_int (sint (word_of_int (fst (to_long neg ds)) :: u32))], r))
       (scan_integer s)"
| "scan1 C_ld s =
     map_option (\<lambda>(neg, ds, r). ([A_int (fst (to_long neg ds))], r)) (scan_integer s)"
| "scan1 C_lf s = map_option (\<lambda>(a, r). ([a], r)) (scan_decimal s)"

fun scanf :: "conv list \<Rightarrow> string \<Rightarrow> arg list \<times> string" where
  "scanf [] s = ([], s)"
| "scanf (f # fs) s =
     (case scan1 f s of
        None \<Rightarrow> ([], s)
      | Some (as, r) \<Rightarrow> (let (bs, r') = scanf fs r in (as @ bs, r')))"

text \<open>\<^verbatim>\<open>while ((ch = fgetc(fp)) != '\n' && ch != EOF) {}\<close>\<close>

definition skip_line :: "string \<Rightarrow> string" where
  "skip_line s = drop 1 (dropWhile (\<lambda>c. c \<noteq> NEWLINE) s)"

section \<open>printf of unsigned numbers\<close>

fun show_u :: "nat \<Rightarrow> string" where
  "show_u n = (if n < 10 then [char_of (48 + n)] else show_u (n div 10) @ [char_of (48 + n mod 10)])"

declare show_u.simps [simp del]

text \<open>\<^verbatim>\<open>%wu\<close> and \<^verbatim>\<open>%0wu\<close>\<close>

definition pad_left :: "char \<Rightarrow> nat \<Rightarrow> string \<Rightarrow> string" where
  "pad_left c w s = replicate (w - length s) c @ s"

text \<open>\<^verbatim>\<open>%ld\<close>\<close>

definition show_ld :: "int \<Rightarrow> string" where
  "show_ld n = (if n < 0 then CHR ''-'' # show_u (nat (- n)) else show_u (nat n))"

section \<open>Searching characters\<close>

definition strchr :: "string \<Rightarrow> char \<Rightarrow> nat option" where
  "strchr s c = find_idx (\<lambda>x. x = c) s"

definition strrchr :: "string \<Rightarrow> char \<Rightarrow> nat option" where
  "strrchr s c = map_option (\<lambda>i. length s - 1 - i) (find_idx (\<lambda>x. x = c) (rev s))"

section \<open>Lemmas\<close>

lemma strchr_first: "c \<notin> set a \<Longrightarrow> strchr (a @ c # b) c = Some (length a)"
  by (auto simp: strchr_def find_idx_Some nth_append in_set_conv_nth)

lemma strrchr_last: "c \<notin> set b \<Longrightarrow> strrchr (a @ c # b) c = Some (length a)"
  using strchr_first [of c "rev b" "rev a"] by (simp add: strrchr_def strchr_def)

subsection \<open>Character arrays\<close>

lemma cstr_cstr [simp]: "cstr (cstr s) = cstr s"
  by (simp add: cstr_def)

lemma cstr_no_nul [simp]: "NUL \<notin> set (cstr s)"
  by (auto simp: cstr_def dest: set_takeWhileD)

lemma cstr_id: "NUL \<notin> set s \<Longrightarrow> cstr s = s"
  by (auto simp: cstr_def takeWhile_eq_all_conv)

lemma cstr_take: "cstr (take n s) = take n (cstr s)"
  by (simp add: cstr_def takeWhile_take)

lemma cstr_append_nul [simp]: "cstr (cstr s @ NUL # r) = cstr s"
  unfolding cstr_def by (rule takeWhile_append_stop) (auto dest: set_takeWhileD)

lemma length_strncpy [simp, len_simps]: "n \<le> length dst \<Longrightarrow> length (strncpy dst src n) = length dst"
  by (simp add: strncpy_def min_def)

lemma strncpy_nth_last: "n < length dst \<Longrightarrow> strncpy dst src n ! n = dst ! n"
  by (simp add: strncpy_def nth_append min_def)

text \<open>After \<^verbatim>\<open>strncpy(dst, src, n)\<close> into an array whose byte \<open>n\<close> is NUL the array holds the
  first \<open>n\<close> characters of the source.\<close>

lemma cstr_strncpy:
  assumes "n < length dst" "dst ! n = NUL"
  shows "cstr (strncpy dst src n) = take n (cstr src)"
proof -
  have "drop n dst = NUL # drop (Suc n) dst"
    using assms by (metis Cons_nth_drop_Suc)
  moreover have "take n (cstr src @ replicate n NUL) =
      take n (cstr src) @ replicate (n - length (cstr src)) NUL"
    by simp
  moreover have "cstr (take n (cstr src) @ replicate k NUL @ NUL # r) = take n (cstr src)" for k r
  proof -
    have "replicate k NUL @ NUL # r = NUL # (replicate k NUL @ r)"
      by (induction k) auto
    moreover have "\<forall>c \<in> set (take n (cstr src)). c \<noteq> NUL"
      using cstr_no_nul by (metis in_set_takeD)
    ultimately show ?thesis
      unfolding cstr_def by (simp only: takeWhile_append_stop simp_thms)
  qed
  ultimately show ?thesis
    by (simp add: strncpy_def)
qed

lemma char_of_byte_of_char [simp]: "char_of_byte (byte_of_char c) = c"
  by (simp add: char_of_byte_def byte_of_char_def unat_of_nat)

lemma byte_of_char_inj: "byte_of_char c = byte_of_char d \<longleftrightarrow> c = d"
  by (metis char_of_byte_of_char)

lemma byte_of_char_NUL [simp]: "byte_of_char NUL = 0"
  by (simp add: byte_of_char_def)

lemma byte_of_char_0_iff [simp]: "byte_of_char c = 0 \<longleftrightarrow> c = NUL"
  using byte_of_char_inj [of c NUL] by simp

lemma strcmp_0_iff: "strcmp a b = 0 \<longleftrightarrow> a = b"
  by (induction a b rule: strcmp.induct) auto

subsection \<open>Where the words come from\<close>

lemma scan_sign_suffix: "suffix (snd (scan_sign s)) s"
  by (auto simp: scan_sign_def suffix_ConsI split: list.splits)

lemma scan_fraction_suffix: "suffix (snd (scan_fraction s)) s"
  by (auto simp: scan_fraction_def intro: suffix_ConsI suffix_dropWhile split: list.splits)

lemma scan_integer_suffix:
  assumes "scan_integer s = Some (neg, ds, r)"
  shows "suffix r s"
proof -
  let ?t = "dropWhile isspace s"
  from assms have "r = dropWhile isdigit (snd (scan_sign ?t))"
    by (auto simp: scan_integer_def Let_def split: if_splits prod.splits)
  then show ?thesis
    using suffix_dropWhile [of isdigit] scan_sign_suffix [of ?t] suffix_dropWhile [of isspace s]
    by (metis suffix_order.trans)
qed

lemma scan_exponent_suffix: "scan_exponent s = Some (e, r) \<Longrightarrow> suffix r s"
  by (auto simp: scan_exponent_def intro: suffix_ConsI split: list.splits if_splits
      dest!: scan_integer_suffix)

lemma scan_decimal_suffix:
  assumes "scan_decimal s = Some (a, r)"
  shows "suffix r s"
proof -
  let ?t = "dropWhile isspace s"
  let ?v = "dropWhile isdigit (snd (scan_sign ?t))"
  from assms obtain e where "scan_exponent (snd (scan_fraction ?v)) = Some (e, r)"
    by (auto simp: scan_decimal_def Let_def split: if_splits option.splits prod.splits)
  then have "suffix r ?v"
    using scan_exponent_suffix scan_fraction_suffix [of ?v] by (metis suffix_order.trans)
  then show ?thesis
    using suffix_dropWhile [of isdigit] scan_sign_suffix [of ?t] suffix_dropWhile [of isspace s]
    by (metis suffix_order.trans)
qed

lemma scan1_suffix: "scan1 f s = Some (as, r) \<Longrightarrow> suffix r s"
  by (cases f)
    (auto simp: Let_def suffix_dropWhile suffix_drop intro: suffix_ConsI
      intro: suffix_order.trans [OF suffix_drop suffix_dropWhile]
      split: list.splits if_splits dest!: scan_integer_suffix scan_decimal_suffix)

lemma scanf_strings: "A_str w \<in> set (fst (scanf fs s)) \<Longrightarrow> w \<noteq> [] \<and> set w \<subseteq> set s"
proof (induction fs arbitrary: s)
  case Nil
  then show ?case by simp
next
  case (Cons f fs)
  then obtain as r where 1: "scan1 f s = Some (as, r)" "A_str w \<in> set as \<or> A_str w \<in> set (fst (scanf fs r))"
    by (auto simp: case_prod_beta Let_def split: option.splits)
  moreover have "set (take n (takeWhile P t)) \<subseteq> set t" for n P and t :: string
    by (auto dest!: in_set_takeD set_takeWhileD)
  then have "w \<noteq> [] \<and> set w \<subseteq> set s" if "A_str w \<in> set as"
    using 1(1) that set_mono_suffix [OF suffix_dropWhile [of isspace s]]
    by (cases f) (fastforce simp: Let_def scan_decimal_def split: list.splits if_splits option.splits prod.splits)+
  ultimately show ?case
    using Cons.IH [of r] set_mono_suffix [OF scan1_suffix [OF 1(1)]] by auto
qed

subsection \<open>Readers consume input\<close>

lemma dropWhile_shrinks: "takeWhile P s \<noteq> [] \<Longrightarrow> length (dropWhile P s) < length s"
  by (cases s) (auto simp: le_imp_less_Suc dropWhile_length_le split: if_splits)

lemma scan_integer_shrinks:
  assumes "scan_integer s = Some (neg, ds, r)"
  shows "length r < length s"
proof -
  let ?u = "snd (scan_sign (dropWhile isspace s))"
  from assms have "takeWhile isdigit ?u \<noteq> []" and r: "r = dropWhile isdigit ?u"
    by (auto simp: scan_integer_def Let_def split: if_splits prod.splits)
  then have "length r < length ?u"
    by (simp add: dropWhile_shrinks)
  also have "length ?u \<le> length (dropWhile isspace s)"
    by (rule suffix_length_le) (rule scan_sign_suffix)
  also have "\<dots> \<le> length s"
    by (rule dropWhile_length_le)
  finally show ?thesis .
qed

lemma scanf_le: "length (snd (scanf fs s)) \<le> length s"
proof (induction fs arbitrary: s)
  case Nil
  then show ?case by simp
next
  case (Cons f fs)
  show ?case
  proof (cases "scan1 f s")
    case None
    then show ?thesis by simp
  next
    case (Some p)
    obtain as r where p: "p = (as, r)" by (cases p)
    have "length (snd (scanf fs r)) \<le> length r" by (rule Cons.IH)
    also have "length r \<le> length s" using Some p by (simp add: scan1_suffix suffix_length_le)
    finally show ?thesis using Some p by (simp add: case_prod_beta)
  qed
qed

text \<open>A scan that starts with \<^verbatim>\<open>%ns\<close> and assigns something has consumed a character.\<close>

lemma scanf_word_shrinks:
  assumes "scanf (C_s n # fs) s = (a # as, r)"
  shows "length r < length s"
proof -
  let ?t = "dropWhile isspace s"
  let ?w = "take n (takeWhile (\<lambda>c. \<not> isspace c) ?t)"
  from assms have w: "?w \<noteq> []" and r: "r = snd (scanf fs (drop (length ?w) ?t))"
    by (auto simp: Let_def case_prod_beta split: if_splits)
  have "length r \<le> length (drop (length ?w) ?t)"
    unfolding r by (rule scanf_le)
  also have "\<dots> < length ?t"
    using w by (cases ?t) (auto simp: min_def)
  also have "\<dots> \<le> length s"
    by (rule dropWhile_length_le)
  finally show ?thesis .
qed

lemma skip_line_le: "length (skip_line s) \<le> length s"
  using dropWhile_length_le [of "\<lambda>c. c \<noteq> NEWLINE" s] by (simp add: skip_line_def)

lemma scanf_word_skip: "scanf (C_s n # fs) s = (a # as, r) \<Longrightarrow> length (skip_line r) < length s"
  using scanf_word_shrinks skip_line_le le_less_trans by blast

subsection \<open>Printed numbers are read back\<close>

lemma of_char_digit: "n < 10 \<Longrightarrow> (of_char (char_of (48 + n) :: char) :: nat) = 48 + n"
  by simp

lemma isdigit_char_of [simp]: "n < 10 \<Longrightarrow> isdigit (char_of (48 + n))" for n :: nat
  by (simp add: isdigit_def Let_def)

lemma show_u_digits: "list_all isdigit (show_u n)"
proof (induction n rule: show_u.induct)
  case (1 n)
  then show ?case
    by (subst show_u.simps) auto
qed

lemma show_u_nonempty [simp]: "show_u n \<noteq> []"
  by (subst show_u.simps) simp

lemma digits_value_append: "digits_value (ds @ [c]) = 10 * digits_value ds + (of_char c - 48)"
  by (simp add: digits_value_def)

lemma digits_value_show_u [simp]: "digits_value (show_u n) = n"
proof (induction n rule: show_u.induct)
  case (1 n)
  show ?case
  proof (cases "n < 10")
    case True
    then show ?thesis
      by (subst show_u.simps) (simp add: digits_value_def)
  next
    case False
    then have "digits_value (show_u n) = 10 * digits_value (show_u (n div 10)) + n mod 10"
      by (subst show_u.simps) (simp add: digits_value_append)
    with False "1.IH" show ?thesis by simp
  qed
qed

lemma isdigit_not_special:
  "isdigit c \<Longrightarrow> \<not> isspace c" "isdigit c \<Longrightarrow> c \<noteq> CHR ''-''" "isdigit c \<Longrightarrow> c \<noteq> CHR ''+''"
  by (auto simp: isdigit_def isspace_def Let_def)

text \<open>A number in decimal notation, after any white space and before anything that is not a
  digit, is what \<^verbatim>\<open>%llu\<close>, \<^verbatim>\<open>%ld\<close> and \<^verbatim>\<open>strtol\<close> see.\<close>

lemma scan_integer_digits:
  assumes ws: "list_all isspace ws" and ds: "list_all isdigit ds" "ds \<noteq> []"
    and rest: "rest = [] \<or> \<not> isdigit (hd rest)"
  shows "scan_integer (ws @ ds @ rest) = Some (False, ds, rest)"
proof -
  obtain d ds' where d: "ds = d # ds'" "isdigit d" "list_all isdigit ds'"
    using ds by (cases ds) auto
  have "dropWhile isspace (ws @ ds @ rest) = ds @ rest"
    using ws d by (simp add: dropWhile_append list_all_iff isdigit_not_special)
  moreover have "scan_sign (ds @ rest) = (False, ds @ rest)"
    using d by (auto simp: scan_sign_def dest: isdigit_not_special)
  moreover have "takeWhile isdigit (ds @ rest) = ds" "dropWhile isdigit (ds @ rest) = rest"
    using ds(1) rest by (cases rest; auto simp: list_all_iff)+
  ultimately show ?thesis
    using ds(2) by (simp add: scan_integer_def)
qed

lemma scan_integer_show_u:
  "list_all isspace ws \<Longrightarrow> rest = [] \<or> \<not> isdigit (hd rest) \<Longrightarrow>
     scan_integer (ws @ show_u n @ rest) = Some (False, show_u n, rest)"
  by (simp add: scan_integer_digits show_u_digits)

lemma scan_word:
  assumes "list_all isspace ws" "w \<noteq> []" "list_all (\<lambda>c. \<not> isspace c) w" "length w \<le> n"
    "rest = [] \<or> isspace (hd rest)"
  shows "scan1 (C_s n) (ws @ w @ rest) = Some ([A_str w], rest)"
proof -
  have "dropWhile isspace (ws @ w @ rest) = w @ rest"
    using assms(1-3) by (cases w) (auto simp: dropWhile_append list_all_iff)
  moreover have "takeWhile (\<lambda>c. \<not> isspace c) (w @ rest) = w"
    using assms(3,5) by (cases rest) (auto simp: list_all_iff takeWhile_append)
  ultimately show ?thesis
    using assms(2,4) by (cases n) (simp_all add: Let_def)
qed

lemma isspace_blank [simp]: "isspace CHR '' ''" "isspace NEWLINE" "\<not> isdigit NEWLINE" "\<not> isdigit CHR '' ''"
  by (simp_all add: isspace_def isdigit_def Let_def)

text \<open>Numbers separated by blanks, as the kernel prints its tables.\<close>

definition num_fields :: "(nat \<times> nat) list \<Rightarrow> string" where
  "num_fields fs = concat (map (\<lambda>(pad, v). replicate (Suc pad) CHR '' '' @ show_u v) fs)"

lemma num_fields_Cons:
  "num_fields [] = []"
  "num_fields ((pad, v) # fs) = CHR '' '' # replicate pad CHR '' '' @ show_u v @ num_fields fs"
  by (simp_all add: num_fields_def)

lemma num_fields_end: "rest = [] \<or> \<not> isdigit (hd rest) \<Longrightarrow>
    num_fields fs @ rest = [] \<or> \<not> isdigit (hd (num_fields fs @ rest))"
  by (cases fs) (auto simp: num_fields_Cons)

lemma dropWhile_blanks_number:
  "dropWhile isspace (replicate p CHR '' '' @ show_u v @ rest) = show_u v @ rest"
  using show_u_digits [of v]
  by (cases "show_u v") (auto simp: dropWhile_append isdigit_not_special)

lemma scanf_number:
  assumes "rest = [] \<or> \<not> isdigit (hd rest)" "v \<le> ULLONG_MAX"
  shows "scanf (C_ws # C_llu # fs) (replicate p CHR '' '' @ show_u v @ rest) =
      (A_u64 (of_nat v) # fst (scanf fs rest), snd (scanf fs rest))"
    and "scanf (C_ws # C_skip_u # fs) (replicate p CHR '' '' @ show_u v @ rest) = scanf fs rest"
    and "scanf (C_ws # C_u # fs) (replicate p CHR '' '' @ show_u v @ rest) =
      (A_u32 (of_nat v) # fst (scanf fs rest), snd (scanf fs rest))"
  using assms scan_integer_show_u [of "[]" rest v]
  by (simp_all add: dropWhile_blanks_number to_ull_def Let_def case_prod_beta ucast_of_nat_u64_u32)

lemma isdigit_not_nul: "isdigit c \<Longrightarrow> c \<noteq> NUL"
  by (auto simp: isdigit_def)

lemma num_fields_no_nul: "NUL \<notin> set (num_fields fs)"
proof -
  have "NUL \<notin> set (show_u v)" for v
    using show_u_digits [of v] isdigit_not_nul by (auto simp: list_all_iff)
  then show ?thesis
    by (induction fs) (auto simp: num_fields_def)
qed

lemma scanf_number_d:
  assumes "rest = [] \<or> \<not> isdigit (hd rest)"
  shows "\<exists>x. scanf (C_ws # C_d # fs) (CHR '' '' # show_u v @ rest) =
    (A_int x # fst (scanf fs rest), snd (scanf fs rest))"
  using scan_integer_show_u [OF _ assms, of "[]" v] dropWhile_blanks_number [of 1 v rest]
  by (simp add: case_prod_beta)

text \<open>One column of a table, before further columns or the end of the line.\<close>

lemma scanf_field_simps:
  assumes "rest = [] \<or> \<not> isdigit (hd rest)"
  shows "v \<le> ULLONG_MAX \<Longrightarrow> scanf (C_ws # C_llu # fs) (num_fields ((p, v) # ns) @ rest) =
      (A_u64 (of_nat v) # fst (scanf fs (num_fields ns @ rest)), snd (scanf fs (num_fields ns @ rest)))"
    and "v \<le> ULLONG_MAX \<Longrightarrow> scanf (C_ws # C_skip_u # fs) (num_fields ((p, v) # ns) @ rest) =
      scanf fs (num_fields ns @ rest)"
    and "v \<le> ULLONG_MAX \<Longrightarrow> scanf (C_ws # C_u # fs) (num_fields ((p, v) # ns) @ rest) =
      (A_u32 (of_nat v) # fst (scanf fs (num_fields ns @ rest)), snd (scanf fs (num_fields ns @ rest)))"
  using scanf_number [OF num_fields_end [OF assms], where p = "Suc p"]
  by (simp_all add: num_fields_Cons del: scanf.simps)

lemma arg_simps [simp]: "arg_str (A_str s) = s" "arg_u64 (A_u64 v) = v"
  by (simp_all add: arg_str_def arg_u64_def)

text \<open>\<open>n\<close> columns of numbers, and a word between blanks.\<close>

lemma scanf_columns:
  assumes "n \<le> length ns" "list_all (\<lambda>(p, v). v \<le> ULLONG_MAX) ns" "rest = [] \<or> \<not> isdigit (hd rest)"
  shows "fst (scanf (concat (replicate n [C_ws, C_llu])) (num_fields ns @ rest)) =
    map (\<lambda>(p, v). A_u64 (of_nat v)) (take n ns)"
  using assms(1,2)
proof (induction n arbitrary: ns)
  case 0
  then show ?case by simp
next
  case (Suc n)
  then obtain p v ns' where ns: "ns = (p, v) # ns'"
    by (cases ns) auto
  then show ?case
    using Suc scanf_field_simps(1) [OF assms(3), of v _ p ns'] by simp
qed

lemma scanf_blank_word:
  assumes "w \<noteq> []" "list_all (\<lambda>c. \<not> isspace c) w" "length w \<le> n" "rest = [] \<or> isspace (hd rest)"
  shows "scanf (C_ws # C_s n # fs) (CHR '' '' # w @ rest) =
    (A_str w # fst (scanf fs rest), snd (scanf fs rest))"
proof -
  have "dropWhile isspace (CHR '' '' # w @ rest) = w @ rest"
    using assms(1,2) by (cases w) auto
  then show ?thesis
    using scan_word [of "[]" w n rest] assms by (simp add: case_prod_beta)
qed

text \<open>The numeric conversions skip white space by themselves.\<close>

lemma scanf_skips_blank: "fst (scanf (C_ws # C_u # fs) s) = fst (scanf (C_u # fs) s)"
  by (simp add: scan_integer_def split: option.split)

lemma num_fields_blank: "fs \<noteq> [] \<Longrightarrow> isspace (hd (num_fields fs @ rest))"
  by (cases fs) (auto simp: num_fields_Cons)

text \<open>Lines that end in a newline and fit the buffer are read one by one.\<close>

definition full_line :: "nat \<Rightarrow> string \<Rightarrow> bool" where
  "full_line n l \<longleftrightarrow> l \<noteq> [] \<and> length l < n \<and> last l = NEWLINE \<and> NEWLINE \<notin> set (butlast l)"

lemma fgets_full_line: "full_line n l \<Longrightarrow> fgets n (l @ rest) = Some (l, rest)"
proof -
  assume l: "full_line n l"
  then obtain b where b: "l = b @ [NEWLINE]" "NEWLINE \<notin> set b"
    by (metis full_line_def append_butlast_last_id)
  have n: "Suc (length b) < n"
    using l b by (simp add: full_line_def)
  then have t: "take (n - 1) (l @ rest) = b @ NEWLINE # take (n - 2 - length b) rest"
    unfolding b(1) by (simp add: take_Cons' Suc_diff_Suc numeral_2_eq_2)
  have "takeWhile (\<lambda>c. c \<noteq> NEWLINE) (b @ NEWLINE # r) = b" for r
    using b(2) by (intro takeWhile_append_stop) auto
  then show ?thesis
    using n b(1) unfolding fgets_def t Let_def by simp
qed

lemma file_lines_concat: "list_all (full_line n) ls \<Longrightarrow> file_lines n (concat ls) = ls"
proof (induction ls)
  case Nil
  then show ?case by (subst file_lines.simps) (simp add: fgets_def)
next
  case (Cons l ls)
  then show ?case by (subst file_lines.simps) (simp add: fgets_full_line)
qed

subsection \<open>strcmp is a total order\<close>

lemma strcmp_swap: "strcmp b a = - strcmp a b"
  by (induction a b rule: strcmp.induct) auto

lemma strcmp_trans: "strcmp a b \<le> 0 \<Longrightarrow> strcmp b c \<le> 0 \<Longrightarrow> strcmp a c \<le> 0"
proof (induction a b arbitrary: c rule: strcmp.induct)
  case (4 x xs y ys)
  show ?case
  proof (cases c)
    case Nil
    with 4 show ?thesis by simp
  next
    case (Cons z zs)
    consider "x = y" "y = z" | "of_char x < (of_char y :: nat)" | "of_char y < (of_char z :: nat)"
      using 4(2,3) Cons by (auto split: if_splits)
    then show ?thesis
      using 4 Cons by cases (auto split: if_splits)
  qed
next
  case (1)
  then show ?case by simp
next
  case (2 y ys)
  then show ?case by (cases c) auto
next
  case (3 x xs)
  then show ?case by simp
qed

text \<open>Evaluation of the readers on concrete texts.\<close>

lemmas clib_eval = scanf.simps scan1.simps scan_integer_def scan_sign_def isspace_def isdigit_def
  to_ull_def to_long_def digits_value_def cstr_def fgets_def Let_def case_prod_beta

end
