(* ===== verification/Collector.thy ===== *)
theory Collector
  imports Tlv Clib
begin

text \<open>
  The interface between the main loop and the collectors (\<^verbatim>\<open>struct tf_collector\<close> in
  \<^verbatim>\<open>agent/include/tracefox.h\<close>), the data it passes around (\<^verbatim>\<open>struct agent_config\<close>,
  \<^verbatim>\<open>struct sample_context\<close>) and the operating system as the collectors see it.

  The operating system is a parameter: a record of what each call would return during one
  collection pass. The files under \<^verbatim>\<open>/proc\<close> are texts by path (no text: \<^verbatim>\<open>fopen\<close> fails),
  a directory is the list of names \<^verbatim>\<open>readdir\<close> yields.

  A collector object is the contents of its \<^verbatim>\<open>ctx\<close> pointer (\<open>None\<close> for NULL) together
  with the static variables of its file. The locale \<open>collector\<close> states what the main loop
  relies on; every collector of \<^verbatim>\<open>collector_list.def\<close> is an instance.
\<close>

section \<open>Configuration and sample context\<close>

record agent_config =
  server_host :: "char list"
  server_port :: u16
  interval_sec :: u16
  host_label :: "char list"
  proc_prefixes :: "char list list"
  proc_prefix_count :: nat
  thread_mode :: u8
  thread_top_n :: u8
  thread_include_tid :: u8

abbreviation (input) TF_THREAD_MODE_OFF :: u8 where "TF_THREAD_MODE_OFF \<equiv> 0"
abbreviation (input) TF_THREAD_MODE_SUMMARY :: u8 where "TF_THREAD_MODE_SUMMARY \<equiv> 1"
abbreviation (input) TF_THREAD_MODE_TOP :: u8 where "TF_THREAD_MODE_TOP \<equiv> 2"

text \<open>A character array of size \<open>n\<close> that holds a terminated C string.\<close>

definition terminated :: "nat \<Rightarrow> char list \<Rightarrow> bool" where
  "terminated n buf \<longleftrightarrow> length buf = n \<and> 0 < n \<and> buf ! (n - 1) = NUL"

definition wf_config :: "agent_config \<Rightarrow> bool" where
  "wf_config cfg \<longleftrightarrow>
     terminated 64 (server_host cfg) \<and> terminated TF_HOST_LABEL_SIZE (host_label cfg) \<and>
     length (proc_prefixes cfg) = TF_MAX_COMM_PREFIX \<and>
     list_all (terminated TF_COMM_PREFIX_LEN) (proc_prefixes cfg) \<and>
     proc_prefix_count cfg \<le> TF_MAX_COMM_PREFIX"

record sample_context =
  cpu_total_diff :: u64

section \<open>The operating system\<close>

record timespec =
  tv_sec :: int
  tv_nsec :: int

record statvfs =
  f_blocks :: u64
  f_bavail :: u64
  f_frsize :: u64

record os =
  os_file :: "string \<Rightarrow> string option"
  os_dir :: "string \<Rightarrow> string list option"
  os_statvfs :: "string \<Rightarrow> statvfs option"
  os_monotonic :: "timespec option"
  os_time :: int
  os_time_after_scan :: int
  os_nprocessors :: int
  os_pagesize :: int

text \<open>What POSIX and Linux document of \<^verbatim>\<open>CLOCK_MONOTONIC\<close>: it counts from boot, its
  nanoseconds are below one second (and a machine is not up for a century).\<close>

definition monotonic_ok :: "timespec \<Rightarrow> bool" where
  "monotonic_ok t \<longleftrightarrow> 0 \<le> tv_sec t \<and> tv_sec t < 4000000000 \<and> 0 \<le> tv_nsec t \<and> tv_nsec t < 1000000000"

definition clock_ok :: "os \<Rightarrow> bool" where
  "clock_ok os \<longleftrightarrow> (case os_monotonic os of None \<Rightarrow> True | Some t \<Rightarrow> monotonic_ok t)"

text \<open>A machine with the given files and nothing else, for examples.\<close>

definition os_of_files :: "(string \<times> string) list \<Rightarrow> os" where
  "os_of_files fs = \<lparr>os_file = map_of fs, os_dir = (\<lambda>_. None), os_statvfs = (\<lambda>_. None),
     os_monotonic = None, os_time = 0, os_time_after_scan = 0, os_nprocessors = 1, os_pagesize = 4096\<rparr>"

definition writer_of_size :: "nat \<Rightarrow> tlv_writer" where
  "writer_of_size n = \<lparr>buffer = replicate n 0, wlen = 0, cap = n\<rparr>"

lemma writer_of_size [simp]:
  "wf_writer (writer_of_size n)" "wlen (writer_of_size n) = 0" "cap (writer_of_size n) = n"
  by (simp_all add: writer_of_size_def wf_writer_def)

section \<open>Frames under construction\<close>

definition framed :: "u32 \<Rightarrow> u32 \<Rightarrow> tlv_writer \<Rightarrow> bool" where
  "framed ts seq w \<longleftrightarrow> wf_writer w \<and>
     (\<exists>tlvs. frame w = encode_header ts seq @ encode_tlvs tlvs \<and> list_all valid_tlv tlvs)"

text \<open>What a push does to the frame: it is defined, and the frame grows by whole TLVs inside
  the same capacity.\<close>

definition appends_tlvs :: "tlv_writer \<Rightarrow> tlv_writer \<Rightarrow> tlv list \<Rightarrow> bool" where
  "appends_tlvs w w' ts \<longleftrightarrow> wf_writer w' \<and> cap w' = cap w \<and>
     frame w' = frame w @ encode_tlvs ts \<and> list_all valid_tlv ts"

lemma terminated_strncpy:
  "terminated (Suc n) dst \<Longrightarrow> terminated (Suc n) (strncpy dst src n)"
  by (simp add: terminated_def strncpy_nth_last)

lemma terminated_replicate [simp]: "terminated n (replicate n NUL) \<longleftrightarrow> 0 < n"
  by (auto simp: terminated_def)

lemma cstr_terminated: "terminated n buf \<Longrightarrow> length (cstr buf) < n"
  unfolding terminated_def cstr_def
  by (metis (mono_tags, lifting) diff_less less_numeral_extra(1) nth_length_takeWhile
      le_neq_implies_less length_takeWhile_le nth_mem set_takeWhileD takeWhile_eq_take take_all_iff
      order_refl)

lemma appends_nothing: "wf_writer w \<Longrightarrow> appends_tlvs w w []"
  by (simp add: appends_tlvs_def)

lemma appends_trans:
  "appends_tlvs w w' ts \<Longrightarrow> appends_tlvs w' w'' us \<Longrightarrow> appends_tlvs w w'' (ts @ us)"
  by (simp add: appends_tlvs_def)

lemma appends_wlen: "wf_writer w \<Longrightarrow> appends_tlvs w w' ts \<Longrightarrow> wlen w' = wlen w + length (encode_tlvs ts) \<and> cap w' = cap w \<and> wf_writer w'"
  using length_frame [of w] length_frame [of w'] by (auto simp: appends_tlvs_def)

lemma appends_framed: "framed ts seq w \<Longrightarrow> appends_tlvs w w' tlvs \<Longrightarrow> framed ts seq w'"
  by (auto simp: framed_def appends_tlvs_def)
    (metis append.assoc encode_tlvs_simps(3) list_all_append)

text \<open>One \<^verbatim>\<open>tlv_put\<close> of a payload: either the TLV is appended or the writer is unchanged.\<close>

lemma tlv_put_appends:
  assumes "wf_writer w" "unat n \<le> length v"
  obtains rc w' ts where "tlv_put (Some w) t (Some v) n = Some (rc, Some w')"
    "appends_tlvs w w' ts" "rc = 0 \<and> ts = [(t, take (unat n) v)] \<or> rc = - 1 \<and> ts = [] \<and> w' = w"
proof (cases "cap w < wlen w + 2 + unat n")
  case True
  then show thesis
    using assms appends_nothing that by (auto simp: tlv_put_eq)
next
  case False
  obtain rc w' ts where put: "writer_put w t v n = Some (rc, w')" and "wf_writer w'" "cap w' = cap w"
    "frame w' = frame w @ encode_tlvs ts" "list_all valid_tlv ts"
    "rc = 0 \<and> ts = [(t, take (unat n) v)] \<or> rc = - 1 \<and> ts = []"
    using assms by (rule wr.put_whole)
  then have "appends_tlvs w w' ts"
    by (simp add: appends_tlvs_def)
  moreover have "rc = 0"
    using put False assms by (simp add: tlv_put_eq writer_put_def)
  ultimately show thesis
    using put \<open>rc = 0 \<and> _ \<or> _\<close> that by (auto simp: tlv_put_writer)
qed

lemma tlv_put_room:
  assumes "wf_writer w" "unat n \<le> length v" "wlen w + 2 + unat n \<le> cap w"
  shows "\<exists>w'. tlv_put (Some w) t (Some v) n = Some (0, Some w') \<and> appends_tlvs w w' [(t, take (unat n) v)]"
proof -
  have "tlv_put (Some w) t (Some v) n = Some (0, Some (Tlv.extend w (encode_tlv (t, take (unat n) v))))"
    using assms by (simp add: tlv_put_eq)
  moreover have "appends_tlvs w (Tlv.extend w (encode_tlv (t, take (unat n) v))) [(t, take (unat n) v)]"
    using assms unat_u8_lt [of n]
    by (simp add: appends_tlvs_def wf_writer_extend frame_extend valid_tlv_def min_def wf_writer_def del: unat_u8_lt)
  ultimately show ?thesis by blast
qed

lemma tlv_put_payload_room:
  assumes "wf_writer w" "wlen w + 257 \<le> cap w"
  shows "\<exists>w'. tlv_put (Some w) t (Some v) (of_nat (length v)) = Some (0, Some w') \<and>
    appends_tlvs w w' [(t, take (length v mod 256) v)]"
proof -
  have n: "unat (of_nat (length v) :: u8) = length v mod 256"
    by (rule unat_of_nat_u8)
  have "unat (of_nat (length v) :: u8) \<le> length v" "wlen w + 2 + unat (of_nat (length v) :: u8) \<le> cap w"
    using assms(2) unat_u8_lt [of "of_nat (length v)"] unfolding n by simp_all
  from tlv_put_room [OF assms(1) this] show ?thesis
    unfolding n .
qed

text \<open>The call every collector makes at the end of its push, with the payload length converted to
  \<^verbatim>\<open>uint8_t\<close>. It is defined for every payload, also for one that is longer than a TLV can say.\<close>

lemma tlv_put_payload:
  assumes "wf_writer w"
  obtains rc w' ts where "tlv_put (Some w) t (Some v) (of_nat (length v)) = Some (rc, Some w')"
    "appends_tlvs w w' ts"
proof -
  have "unat (of_nat (length v) :: u8) \<le> length v"
    by (simp add: width_simps)
  from tlv_put_appends [OF assms this] that show thesis
    by metis
qed

section \<open>The collector interface\<close>

text \<open>\<open>init\<close> takes whether \<^verbatim>\<open>calloc\<close> succeeds. \<open>live\<close> says that \<^verbatim>\<open>ctx\<close> is not NULL.
  \<open>os_ok\<close> is what a collector needs of the operating system for its arithmetic to be
  defined.\<close>

locale collector =
  fixes init :: "bool \<Rightarrow> agent_config \<Rightarrow> 's \<Rightarrow> (int \<times> 's) option"
    and destroy :: "'s \<Rightarrow> 's"
    and collect :: "os \<Rightarrow> agent_config \<Rightarrow> sample_context option \<Rightarrow> 's
      \<Rightarrow> (int \<times> sample_context option \<times> 's) option"
    and push :: "'s \<Rightarrow> tlv_writer option \<Rightarrow> (int \<times> tlv_writer option \<times> 's) option"
    and inv :: "'s \<Rightarrow> bool"
    and live :: "'s \<Rightarrow> bool"
    and os_ok :: "os \<Rightarrow> bool"
  assumes init_ok: "inv s \<Longrightarrow> wf_config cfg \<Longrightarrow>
      \<exists>rc s'. init alloc cfg s = Some (rc, s') \<and> inv s' \<and>
        (if alloc then rc = 0 \<and> live s' else rc = - 1 \<and> s' = s)"
    and destroy_ok: "inv s \<Longrightarrow> inv (destroy s) \<and> \<not> live (destroy s)"
    and collect_ok: "inv s \<Longrightarrow> wf_config cfg \<Longrightarrow> os_ok os \<Longrightarrow>
      \<exists>rc sctx' s'. collect os cfg sctx s = Some (rc, sctx', s') \<and> inv s' \<and>
        (sctx' = None \<longleftrightarrow> sctx = None) \<and> (live s' \<longleftrightarrow> live s)"
    and push_ok: "inv s \<Longrightarrow> wf_writer w \<Longrightarrow>
      \<exists>rc w' s' ts. push s (Some w) = Some (rc, Some w', s') \<and> inv s' \<and>
        (live s' \<longleftrightarrow> live s) \<and> appends_tlvs w w' ts"
    and push_dead: "\<not> live s \<Longrightarrow> push s wrt = Some (- 1, wrt, s)"
begin

lemma push_framed:
  assumes "inv s" "framed ts seq w"
  obtains rc w' s' where "push s (Some w) = Some (rc, Some w', s')" "inv s'" "framed ts seq w'"
    "cap w' = cap w" "live s' \<longleftrightarrow> live s"
proof -
  from assms(2) have "wf_writer w"
    by (simp add: framed_def)
  with assms(1) obtain rc w' s' tlvs where "push s (Some w) = Some (rc, Some w', s')" "inv s'"
    "live s' \<longleftrightarrow> live s" "appends_tlvs w w' tlvs"
    using push_ok by blast
  then show thesis
    using assms(2) appends_framed that by (auto simp: appends_tlvs_def)
qed

text \<open>A whole pass over one collector: what the two loops of \<^verbatim>\<open>main\<close> do with it.\<close>

lemma collect_then_push:
  assumes "inv s" "wf_config cfg" "os_ok os" "framed ts seq w"
  obtains rc sctx' s' where "collect os cfg sctx s = Some (rc, sctx', s')" "inv s'"
    "\<exists>rc' w' s''. push s' (Some w) = Some (rc', Some w', s'') \<and> inv s'' \<and> framed ts seq w'"
proof -
  obtain rc sctx' s' where c: "collect os cfg sctx s = Some (rc, sctx', s')" "inv s'"
    using collect_ok [OF assms(1-3)] by blast
  obtain rc' w' s'' where "push s' (Some w) = Some (rc', Some w', s'')" "inv s''" "framed ts seq w'"
    using push_framed [OF c(2) assms(4)] by blast
  with c show thesis
    using that by blast
qed

text \<open>Reinitialisation after a configuration reload.\<close>

lemma reinit:
  assumes "inv s" "wf_config cfg"
  shows "\<exists>s'. init True cfg (destroy s) = Some (0, s') \<and> inv s' \<and> live s'"
  using init_ok [OF conjunct1 [OF destroy_ok [OF assms(1)]] assms(2), of True] by auto

end

end
