(* ===== verification/Config.thy ===== *)
theory Config
  imports Collector
begin

text \<open>
  The configuration of \<^verbatim>\<open>agent/src/main.c\<close>: defaults, the configuration file, the search for it, and
  the command line. \<^verbatim>\<open>getopt\<close> is modelled as POSIX specifies it (it stops at the first operand). The
  strings of \<^verbatim>\<open>argv\<close> are part of the state, because \<^verbatim>\<open>strtok_r\<close> and \<^verbatim>\<open>trim_inplace\<close> write into the
  argument of \<^verbatim>\<open>-P\<close> and a reload reads \<^verbatim>\<open>argv\<close> again.
\<close>

section \<open>Values\<close>

abbreviation (input) TF_DEFAULT_THREAD_TOP_N :: u8 where "TF_DEFAULT_THREAD_TOP_N \<equiv> 5"

definition config_defaults :: agent_config where
  "config_defaults =
     \<lparr>server_host = strncpy (replicate 64 NUL) ''127.0.0.1'' 63, server_port = 9000, interval_sec = 5,
      host_label = replicate TF_HOST_LABEL_SIZE NUL,
      proc_prefixes = replicate TF_MAX_COMM_PREFIX (replicate TF_COMM_PREFIX_LEN NUL), proc_prefix_count = 0,
      thread_mode = TF_THREAD_MODE_TOP, thread_top_n = TF_DEFAULT_THREAD_TOP_N, thread_include_tid = 0\<rparr>"

definition thread_mode_name :: "u8 \<Rightarrow> string" where
  "thread_mode_name mode =
     (if mode = TF_THREAD_MODE_OFF then ''off'' else if mode = TF_THREAD_MODE_SUMMARY then ''summary''
      else if mode = TF_THREAD_MODE_TOP then ''top'' else ''invalid'')"

text \<open>The return code and what the result pointer refers to afterwards.\<close>

definition parse_bool_value :: "string option \<Rightarrow> u8 option \<Rightarrow> int \<times> u8 option" where
  "parse_bool_value value result =
     (case (value, result) of
        (Some v, Some r) \<Rightarrow>
          if v = ''1'' \<or> strcaseeq v ''true'' \<or> strcaseeq v ''yes'' \<or> strcaseeq v ''on'' then (0, Some 1)
          else if v = ''0'' \<or> strcaseeq v ''false'' \<or> strcaseeq v ''no'' \<or> strcaseeq v ''off'' then (0, Some 0)
          else (- 1, result)
      | _ \<Rightarrow> (- 1, result))"

definition is_ascii_safe :: "string option \<Rightarrow> bool" where
  "is_ascii_safe value =
     (case value of
        None \<Rightarrow> False
      | Some v \<Rightarrow> list_all (\<lambda>c. \<not> (of_char c < (0x20 :: nat) \<or> of_char c > (0x7E :: nat))) v)"

text \<open>The string \<^verbatim>\<open>trim_inplace\<close> returns, and the string its argument points to afterwards.\<close>

definition trim_inplace :: "string \<Rightarrow> string" where
  "trim_inplace s =
     (let s = dropWhile isspace s in if s = [] then s else rev (dropWhile isspace (rev s)))"

definition trim_residue :: "string \<Rightarrow> string" where
  "trim_residue s = (if list_all isspace s then s else takeWhile isspace s @ trim_inplace s)"

text \<open>\<^verbatim>\<open>strtok_r\<close> on a string with one delimiter: the token and where the next call goes on.\<close>

definition strtok_r :: "char \<Rightarrow> string \<Rightarrow> (string \<times> string) option" where
  "strtok_r c s =
     (let s = dropWhile (\<lambda>x. x = c) s
      in if s = [] then None else Some (takeWhile (\<lambda>x. x \<noteq> c) s, drop 1 (dropWhile (\<lambda>x. x \<noteq> c) s)))"

lemma strtok_r_shrinks [termination_simp]: "strtok_r c s = Some (tok, rest) \<Longrightarrow> length rest < length s"
proof -
  assume *: "strtok_r c s = Some (tok, rest)"
  let ?t = "dropWhile (\<lambda>x. x = c) s"
  have "?t \<noteq> []" "rest = drop 1 (dropWhile (\<lambda>x. x \<noteq> c) ?t)"
    using * by (auto simp: strtok_r_def Let_def split: if_splits)
  moreover have "length (dropWhile (\<lambda>x. x \<noteq> c) ?t) \<le> length ?t" "length ?t \<le> length s"
    by (simp_all add: length_dropWhile_le)
  ultimately show ?thesis
    by (cases ?t) auto
qed

definition config_add_proc_prefix :: "agent_config \<Rightarrow> string \<Rightarrow> agent_config option" where
  "config_add_proc_prefix cfg name =
     (if proc_prefix_count cfg \<ge> TF_MAX_COMM_PREFIX then Some cfg
      else do {
        p \<leftarrow> arr_get (proc_prefixes cfg) (proc_prefix_count cfg);
        p \<leftarrow> arr_set (strncpy p name (TF_COMM_PREFIX_LEN - 1)) (TF_COMM_PREFIX_LEN - 1) NUL;
        ps \<leftarrow> arr_set (proc_prefixes cfg) (proc_prefix_count cfg) p;
        Some (cfg\<lparr>proc_prefixes := ps, proc_prefix_count := proc_prefix_count cfg + 1\<rparr>) })"

text \<open>The loop over the tokens of a prefix list, and the C string the list's pointer refers to
  afterwards.\<close>

function add_prefixes :: "string \<Rightarrow> agent_config \<Rightarrow> agent_config option" where
  "add_prefixes s cfg =
     (case strtok_r CHR '','' s of
        None \<Rightarrow> Some cfg
      | Some (tok, rest) \<Rightarrow>
          do { let name = trim_inplace tok;
               cfg \<leftarrow> (if name \<noteq> [] then config_add_proc_prefix cfg name else Some cfg);
               add_prefixes rest cfg })"
  by pat_completeness auto
termination
  by (relation "measure (\<lambda>(s, cfg). length s)") (auto simp: strtok_r_shrinks)

declare add_prefixes.simps [simp del]

definition prefixes_residue :: "string \<Rightarrow> string" where
  "prefixes_residue s =
     takeWhile (\<lambda>x. x = CHR '','') s @ trim_residue (takeWhile (\<lambda>x. x \<noteq> CHR '','') (dropWhile (\<lambda>x. x = CHR '','') s))"

section \<open>The configuration file\<close>

definition config_number :: "string \<Rightarrow> int \<Rightarrow> int option" where
  "config_number val limit =
     (let (parsed, err, _) = strtol val
      in if \<not> err \<and> parsed > 0 \<and> parsed \<le> limit then Some parsed else None)"

definition config_set :: "string \<Rightarrow> string \<Rightarrow> agent_config \<Rightarrow> agent_config option" where
  "config_set key val cfg =
     (if key = ''server_host'' then
        Some (if val \<noteq> [] then cfg\<lparr>server_host := strncpy (server_host cfg) val 63\<rparr> else cfg)
      else if key = ''server_port'' then
        Some (case config_number val 65535 of Some n \<Rightarrow> cfg\<lparr>server_port := of_int n\<rparr> | None \<Rightarrow> cfg)
      else if key = ''interval'' then
        Some (case config_number val 65535 of Some n \<Rightarrow> cfg\<lparr>interval_sec := of_int n\<rparr> | None \<Rightarrow> cfg)
      else if key = ''host_label'' then
        (if val = [] then do { h \<leftarrow> arr_set (host_label cfg) 0 NUL; Some (cfg\<lparr>host_label := h\<rparr>) }
         else if \<not> is_ascii_safe (Some val) then Some cfg
         else do { h \<leftarrow> arr_set (strncpy (host_label cfg) val (TF_HOST_LABEL_SIZE - 1)) (TF_HOST_LABEL_SIZE - 1) NUL;
                   Some (cfg\<lparr>host_label := h\<rparr>) })
      else if key = ''proc_prefix'' then add_prefixes val cfg
      else if key = ''thread_mode'' then
        Some (if strcaseeq val ''off'' then cfg\<lparr>thread_mode := TF_THREAD_MODE_OFF\<rparr>
              else if strcaseeq val ''summary'' then cfg\<lparr>thread_mode := TF_THREAD_MODE_SUMMARY\<rparr>
              else if strcaseeq val ''top'' then cfg\<lparr>thread_mode := TF_THREAD_MODE_TOP\<rparr> else cfg)
      else if key = ''thread_top_n'' then
        Some (case config_number val (int TF_MAX_THREAD_TOP_N) of Some n \<Rightarrow> cfg\<lparr>thread_top_n := of_int n\<rparr> | None \<Rightarrow> cfg)
      else if key = ''thread_include_tid'' then
        Some (case parse_bool_value (Some val) (Some 0) of
            (rc, enabled) \<Rightarrow> if rc = 0 then cfg\<lparr>thread_include_tid := the enabled\<rparr> else cfg)
      else Some cfg)"

text \<open>The body of the loop: blank lines, comments and lines without \<^verbatim>\<open>=\<close> are skipped.\<close>

definition config_line :: "string \<Rightarrow> agent_config \<Rightarrow> agent_config option" where
  "config_line line cfg =
     (let key = trim_inplace (cstr line)
      in if key = [] \<or> hd key = CHR ''#'' then Some cfg
         else (case strchr key CHR ''='' of
             None \<Rightarrow> Some cfg
           | Some eqs \<Rightarrow> config_set (trim_inplace (take eqs key)) (trim_inplace (drop (eqs + 1) key)) cfg))"

fun config_lines :: "string list \<Rightarrow> agent_config \<Rightarrow> agent_config option" where
  "config_lines [] cfg = Some cfg"
| "config_lines (l # ls) cfg = do { cfg \<leftarrow> config_line l cfg; config_lines ls cfg }"

definition load_config_file :: "(string \<Rightarrow> string option) \<Rightarrow> string \<Rightarrow> agent_config \<Rightarrow> (int \<times> agent_config) option" where
  "load_config_file fs path cfg =
     (case fs path of
        None \<Rightarrow> Some (- 1, cfg)
      | Some text \<Rightarrow> do { cfg \<leftarrow> config_lines (file_lines TF_LINE_BUF_SMALL text) cfg; Some (0, cfg) })"

definition config_search_paths :: "string list" where
  "config_search_paths = [''config/agent.conf'', ''agent/config/agent.conf'', ''/etc/tracefox/agent.conf'']"

text \<open>\<open>access path\<close> says that \<^verbatim>\<open>access(path, R_OK) == 0\<close>.\<close>

definition find_config_file :: "(string \<Rightarrow> bool) \<Rightarrow> string option" where
  "find_config_file access = find access config_search_paths"

definition print_effective_config :: "agent_config \<Rightarrow> string" where
  "print_effective_config cfg =
     ''[DBG]  [config] effective: server_host='' @ cstr (server_host cfg) @ '' server_port='' @ show_u (unat (server_port cfg)) @
     '' interval='' @ show_u (unat (interval_sec cfg)) @ '' host_label='' @
     (if cstr (host_label cfg) \<noteq> [] then cstr (host_label cfg) else ''<unset>'') @
     '' thread_mode='' @ thread_mode_name (thread_mode cfg) @ '' thread_top_n='' @ show_u (unat (thread_top_n cfg)) @
     '' thread_include_tid='' @ (if thread_include_tid cfg \<noteq> 0 then ''true'' else ''false'') @ [NEWLINE]"

text \<open>The search for \<^verbatim>\<open>-c path\<close> in \<^verbatim>\<open>argv[1 .. argc - 1]\<close>. \<open>Inl\<close> is a call of \<^verbatim>\<open>exit\<close>.\<close>

fun explicit_path :: "string list \<Rightarrow> string option" where
  "explicit_path (a # b # r) = (if a = ''-c'' \<and> b \<noteq> [] then Some b else explicit_path (b # r))"
| "explicit_path r = None"

definition config_init_from_sources ::
  "(string \<Rightarrow> string option) \<Rightarrow> (string \<Rightarrow> bool) \<Rightarrow> string list \<Rightarrow> (int + agent_config) option" where
  "config_init_from_sources fs access argv =
     (case explicit_path (tl argv) of
        Some path \<Rightarrow>
          do { (rc, cfg) \<leftarrow> load_config_file fs path config_defaults;
               Some (if rc \<noteq> 0 then Inl 1 else Inr cfg) }
      | None \<Rightarrow>
          (case find_config_file access of
             Some found \<Rightarrow> do { (rc, cfg) \<leftarrow> load_config_file fs found config_defaults; Some (Inr cfg) }
           | None \<Rightarrow> Some (Inr config_defaults)))"

section \<open>The command line\<close>

text \<open>What \<^verbatim>\<open>getopt(argc, argv, "c:h:p:i:f:P:v")\<close> returns one after the other: an option without
  argument, an option whose argument is in \<^verbatim>\<open>argv[i]\<close> from a position on, or \<^verbatim>\<open>'?'\<close>.\<close>

datatype opt_event = Opt char | Opt_arg char nat nat | Opt_error

definition takes_arg :: "char \<Rightarrow> bool" where
  "takes_arg c \<longleftrightarrow> c \<in> set ''chpifP''"

fun getopt_elem :: "nat \<Rightarrow> nat \<Rightarrow> string \<Rightarrow> opt_event list \<times> char option" where
  "getopt_elem i off [] = ([], None)"
| "getopt_elem i off (c # r) =
     (if takes_arg c then (if r = [] then ([], Some c) else ([Opt_arg c i (off + 1)], None))
      else if c = CHR ''v'' then (let (es, p) = getopt_elem i (off + 1) r in (Opt c # es, p))
      else ([Opt_error], None))"

fun getopt :: "nat \<Rightarrow> string list \<Rightarrow> opt_event list" where
  "getopt i [] = []"
| "getopt i (a # args) =
     (if take 1 a \<noteq> ''-'' \<or> a = ''-'' \<or> a = ''--'' then []
      else let (es, pending) = getopt_elem i 1 (tl a)
      in (case pending of
            None \<Rightarrow> es @ getopt (i + 1) args
          | Some c \<Rightarrow> (case args of [] \<Rightarrow> es @ [Opt_error] | b # bs \<Rightarrow> es @ Opt_arg c (i + 1) 0 # getopt (i + 2) bs)))"

record options =
  opt_argv :: "string list"
  opt_cfg :: agent_config
  opt_file_mode :: bool
  opt_output_file :: "string option"
  opt_debug :: bool

definition option_arg :: "char \<Rightarrow> nat \<Rightarrow> nat \<Rightarrow> options \<Rightarrow> options option" where
  "option_arg c i off st =
     do { a \<leftarrow> arr_get (opt_argv st) i;
          let cfg = opt_cfg st;
          let optarg = drop off a;
          if c = CHR ''h'' then Some (st\<lparr>opt_cfg := cfg\<lparr>server_host := strncpy (server_host cfg) optarg 63\<rparr>\<rparr>)
          else if c = CHR ''p'' then Some (st\<lparr>opt_cfg := cfg\<lparr>server_port := of_int (fst (strtol optarg))\<rparr>\<rparr>)
          else if c = CHR ''i'' then
            (let n = (of_int (fst (strtol optarg)) :: u16)
             in Some (st\<lparr>opt_cfg := cfg\<lparr>interval_sec := (if n = 0 then 1 else n)\<rparr>\<rparr>))
          else if c = CHR ''f'' then Some (st\<lparr>opt_file_mode := True, opt_output_file := Some optarg\<rparr>)
          else if c = CHR ''P'' then
            do { cfg \<leftarrow> add_prefixes optarg cfg;
                 Some (st\<lparr>opt_cfg := cfg, opt_argv := (opt_argv st)[i := take off a @ prefixes_residue optarg]\<rparr>) }
          else Some st }"

text \<open>The \<^verbatim>\<open>getopt\<close> loop of \<^verbatim>\<open>init_agent_state\<close>; the boolean is false when it returned 1.\<close>

fun option_loop :: "opt_event list \<Rightarrow> options \<Rightarrow> (bool \<times> options) option" where
  "option_loop [] st = Some (True, st)"
| "option_loop (Opt c # es) st = option_loop es (st\<lparr>opt_debug := True\<rparr>)"
| "option_loop (Opt_arg c i off # es) st = do { st \<leftarrow> option_arg c i off st; option_loop es st }"
| "option_loop (Opt_error # es) st = Some (False, st)"

section \<open>What a configuration always satisfies\<close>

definition printable :: "string \<Rightarrow> bool" where
  "printable s \<longleftrightarrow> list_all (\<lambda>c. (0x20 :: nat) \<le> of_char c \<and> of_char c \<le> (0x7E :: nat)) s"

definition config_ok :: "agent_config \<Rightarrow> bool" where
  "config_ok cfg \<longleftrightarrow> wf_config cfg \<and> interval_sec cfg \<noteq> 0 \<and> thread_mode cfg \<in> {TF_THREAD_MODE_OFF, TF_THREAD_MODE_SUMMARY, TF_THREAD_MODE_TOP} \<and>
     1 \<le> unat (thread_top_n cfg) \<and> unat (thread_top_n cfg) \<le> TF_MAX_THREAD_TOP_N \<and> thread_include_tid cfg \<in> {0, 1} \<and>
     printable (cstr (host_label cfg))"

lemma bind_ok:
  assumes "\<exists>x. m = Some x \<and> P x" "\<And>x. P x \<Longrightarrow> \<exists>y. f x = Some y \<and> Q y"
  shows "\<exists>y. m \<bind> f = Some y \<and> Q y"
  using assms by (elim exE conjE) simp

lemma terminated_update: "terminated n buf \<Longrightarrow> i < n \<Longrightarrow> terminated n (buf[i := NUL])"
  by (auto simp: terminated_def nth_list_update)

lemma config_defaults_ok: "config_ok config_defaults"
  by (auto simp: config_ok_def wf_config_def config_defaults_def terminated_strncpy printable_def list_all_iff
      terminated_def strncpy_nth_last cstr_def)

lemma config_add_proc_prefix_eq:
  assumes "wf_config cfg" "proc_prefix_count cfg < TF_MAX_COMM_PREFIX"
  shows "config_add_proc_prefix cfg name = Some (cfg\<lparr>proc_prefixes := (proc_prefixes cfg)[proc_prefix_count cfg :=
      strncpy (proc_prefixes cfg ! proc_prefix_count cfg) name 31], proc_prefix_count := proc_prefix_count cfg + 1\<rparr>)"
proof -
  let ?p = "proc_prefixes cfg ! proc_prefix_count cfg"
  have "terminated 32 ?p"
    using assms by (simp add: wf_config_def list_all_length)
  then have "terminated 32 (strncpy ?p name 31)"
    using terminated_strncpy [of 31 ?p name] by simp
  then have "length (strncpy ?p name 31) = 32" "(strncpy ?p name 31)[31 := NUL] = strncpy ?p name 31"
    by (auto simp: terminated_def list_update_same_conv)
  then show ?thesis
    using assms by (simp add: config_add_proc_prefix_def wf_config_def)
qed

lemma config_add_proc_prefix_full:
  "TF_MAX_COMM_PREFIX \<le> proc_prefix_count cfg \<Longrightarrow> config_add_proc_prefix cfg name = Some cfg"
  by (simp add: config_add_proc_prefix_def)

lemma config_add_proc_prefix_ok:
  assumes "config_ok cfg"
  shows "\<exists>cfg'. config_add_proc_prefix cfg name = Some cfg' \<and> config_ok cfg'"
proof (cases "proc_prefix_count cfg < TF_MAX_COMM_PREFIX")
  case True
  moreover have "wf_config cfg" using assms by (simp add: config_ok_def)
  moreover have "terminated 32 (strncpy (proc_prefixes cfg ! proc_prefix_count cfg) name 31)"
    using calculation terminated_strncpy [of 31] by (simp add: wf_config_def list_all_length)
  ultimately show ?thesis
    using assms by (simp add: config_add_proc_prefix_eq config_ok_def wf_config_def list_all_update)
qed (use assms in \<open>simp add: config_add_proc_prefix_full\<close>)

lemma add_prefixes_ok:
  "config_ok cfg \<Longrightarrow> \<exists>cfg'. add_prefixes s cfg = Some cfg' \<and> config_ok cfg'"
proof (induction s cfg rule: add_prefixes.induct)
  case (1 s cfg)
  show ?case
  proof (cases "strtok_r CHR '','' s")
    case None
    then show ?thesis using 1 by (subst add_prefixes.simps) simp
  next
    case (Some p)
    obtain tok rest where p: "p = (tok, rest)" by force
    let ?step = "if trim_inplace tok \<noteq> [] then config_add_proc_prefix cfg (trim_inplace tok) else Some cfg"
    have "\<exists>cfg'. ?step = Some cfg' \<and> config_ok cfg'"
      using config_add_proc_prefix_ok [OF 1(2)] 1(2) by simp
    then obtain cfg' where step: "?step = Some cfg'" "config_ok cfg'"
      by blast
    have "add_prefixes s cfg = ?step \<bind> add_prefixes rest"
      using Some p by (subst add_prefixes.simps) simp
    then show ?thesis
      using 1(1) [OF Some p [symmetric] refl step] step(1) by simp
  qed
qed

lemma config_number_bounds: "config_number val limit = Some n \<Longrightarrow> 0 < n \<and> n \<le> limit"
  by (auto simp: config_number_def Let_def split: prod.splits if_splits)

lemma config_ok_update:
  assumes "config_ok cfg"
  shows "config_ok (cfg\<lparr>server_host := strncpy (server_host cfg) v 63\<rparr>)"
    "config_ok (cfg\<lparr>server_port := p\<rparr>)"
    "n \<noteq> 0 \<Longrightarrow> config_ok (cfg\<lparr>interval_sec := n\<rparr>)"
    "m \<in> {TF_THREAD_MODE_OFF, TF_THREAD_MODE_SUMMARY, TF_THREAD_MODE_TOP} \<Longrightarrow> config_ok (cfg\<lparr>thread_mode := m\<rparr>)"
    "1 \<le> unat k \<Longrightarrow> unat k \<le> TF_MAX_THREAD_TOP_N \<Longrightarrow> config_ok (cfg\<lparr>thread_top_n := k\<rparr>)"
    "b \<in> {0, 1} \<Longrightarrow> config_ok (cfg\<lparr>thread_include_tid := b\<rparr>)"
    "terminated TF_HOST_LABEL_SIZE h \<Longrightarrow> printable (cstr h) \<Longrightarrow> config_ok (cfg\<lparr>host_label := h\<rparr>)"
  using assms terminated_strncpy [of 63 "server_host cfg" v] by (auto simp: config_ok_def wf_config_def)

lemma of_int_bounds:
  assumes "0 < n" "n \<le> 65535"
  shows "(of_int n :: u16) \<noteq> 0" "n \<le> 7 \<Longrightarrow> 1 \<le> unat (of_int n :: u8) \<and> unat (of_int n :: u8) \<le> 7"
proof -
  obtain k where k: "n = int k" "0 < k" "k \<le> 65535"
    using assms by (cases n) auto
  have "unat (of_nat k :: u16) = k"
    using k by (simp add: unat_of_nat_u16)
  then show "(of_int n :: u16) \<noteq> 0"
    using k by auto
  show "1 \<le> unat (of_int n :: u8) \<and> unat (of_int n :: u8) \<le> 7" if "n \<le> 7"
    using that k by (simp add: unat_of_nat_u8)
qed

lemma printable_host_label:
  assumes "is_ascii_safe (Some v)" "terminated 64 h"
  shows "printable (cstr (strncpy h v 63))"
proof -
  have "cstr (strncpy h v 63) = take 63 (cstr v)"
    using assms(2) by (intro cstr_strncpy) (auto simp: terminated_def)
  then have "set (cstr (strncpy h v 63)) \<subseteq> set v"
    using set_takeWhileD set_take_subset by (fastforce simp: cstr_def)
  then show ?thesis
    using assms(1) by (fastforce simp: printable_def is_ascii_safe_def list_all_iff not_less)
qed

lemma config_set_ok:
  assumes "config_ok cfg"
  shows "\<exists>cfg'. config_set key val cfg = Some cfg' \<and> config_ok cfg'"
proof -
  have label: "terminated 64 (host_label cfg)" using assms by (simp add: config_ok_def wf_config_def)
  then have keep: "(strncpy (host_label cfg) val 63)[63 := NUL] = strncpy (host_label cfg) val 63" "63 < length (strncpy (host_label cfg) val 63)"
    "terminated 64 (strncpy (host_label cfg) val 63)"
    using terminated_strncpy [of 63 "host_label cfg" val] by (auto simp: terminated_def list_update_same_conv)
  have clear: "cstr ((host_label cfg)[0 := NUL]) = []"
    using label by (cases "host_label cfg") (auto simp: terminated_def cstr_def)
  note upd = config_ok_update [OF assms]
  consider "key = ''server_host''" | "key = ''server_port''" | "key = ''interval''" | "key = ''host_label''"
    | "key = ''proc_prefix''" | "key = ''thread_mode''" | "key = ''thread_top_n''" | "key = ''thread_include_tid''"
    | "key \<notin> {''server_host'', ''server_port'', ''interval'', ''host_label'', ''proc_prefix'', ''thread_mode'',
        ''thread_top_n'', ''thread_include_tid''}"
    unfolding insert_iff empty_iff by argo
  then show ?thesis
  proof cases
    case 3
    then show ?thesis
      using assms upd(3) config_number_bounds [of val 65535] of_int_bounds(1)
      by (auto simp: config_set_def split: option.split)
  next
    case 4
    then show ?thesis
      using assms upd(7) [OF keep(3)] upd(7) [OF terminated_update [OF label, of 0]] keep(1,2) clear label
        printable_host_label [OF _ label, of val]
      by (simp add: config_set_def printable_def terminated_def)
  next
    case 7
    then show ?thesis
      using assms upd(5) config_number_bounds [of val 7] of_int_bounds(2)
      by (auto simp: config_set_def split: option.split)
  qed (use assms upd(1,2,4,6) add_prefixes_ok [OF assms] in
      \<open>auto simp: config_set_def parse_bool_value_def split: option.split\<close>)
qed

lemma config_lines_ok: "config_ok cfg \<Longrightarrow> \<exists>cfg'. config_lines ls cfg = Some cfg' \<and> config_ok cfg'"
proof (induction ls arbitrary: cfg)
  case (Cons l ls)
  have "\<exists>cfg'. config_line l cfg = Some cfg' \<and> config_ok cfg'"
    using Cons.prems config_set_ok by (simp add: config_line_def Let_def split: option.split)
  then show ?case
    using Cons.IH by fastforce
qed simp

lemma load_config_file_ok:
  assumes "config_ok cfg"
  shows "\<exists>rc cfg'. load_config_file fs path cfg = Some (rc, cfg') \<and> config_ok cfg'"
proof (cases "fs path")
  case (Some content)
  obtain cfg' where "config_lines (file_lines 256 content) cfg = Some cfg'" "config_ok cfg'"
    using config_lines_ok [OF assms] by blast
  then show ?thesis using Some by (simp add: load_config_file_def)
qed (use assms in \<open>simp add: load_config_file_def\<close>)

lemma config_init_from_sources_ok:
  "\<exists>r. config_init_from_sources fs access argv = Some r \<and> (\<forall>cfg. r = Inr cfg \<longrightarrow> config_ok cfg)"
proof -
  have load: "\<exists>rc cfg. load_config_file fs path config_defaults = Some (rc, cfg) \<and> config_ok cfg" for path
    by (rule load_config_file_ok) (rule config_defaults_ok)
  show ?thesis
  proof (cases "explicit_path (tl argv)")
    case None
    show ?thesis
    proof (cases "find_config_file access")
      case (Some path)
      then show ?thesis
        using None load [of path] by (force simp: config_init_from_sources_def)
    qed (use None config_defaults_ok in \<open>simp add: config_init_from_sources_def\<close>)
  next
    case (Some path)
    then show ?thesis
      using load [of path] by (force simp: config_init_from_sources_def)
  qed
qed

subsection \<open>The command line\<close>

definition events_in :: "nat \<Rightarrow> opt_event list \<Rightarrow> bool" where
  "events_in n es \<longleftrightarrow> list_all (\<lambda>e. case e of Opt_arg c i off \<Rightarrow> i < n | _ \<Rightarrow> True) es"

lemma events_in_simps [simp]:
  "events_in n []" "events_in n (Opt c # es) \<longleftrightarrow> events_in n es" "events_in n (Opt_error # es) \<longleftrightarrow> events_in n es"
  "events_in n (Opt_arg c i off # es) \<longleftrightarrow> i < n \<and> events_in n es" "events_in n (es @ fs) \<longleftrightarrow> events_in n es \<and> events_in n fs"
  by (auto simp: events_in_def)

lemma getopt_elem_in: "i < n \<Longrightarrow> events_in n (fst (getopt_elem i off s))"
proof (induction s arbitrary: off)
  case (Cons c s)
  show ?case using Cons.IH [of "off + 1"] Cons.prems by (cases "getopt_elem i (off + 1) s") auto
qed simp

lemma getopt_in: "i + length args \<le> n \<Longrightarrow> events_in n (getopt i args)"
proof (induction i args rule: getopt.induct)
  case (2 i a args)
  obtain es pending where elem: "getopt_elem i 1 (tl a) = (es, pending)" by force
  then have "events_in n es" using getopt_elem_in [of i n 1 "tl a"] 2(3) by simp
  then show ?case
    using 2 elem by (auto simp: Let_def split: option.split list.split)
qed simp

definition options_ok :: "nat \<Rightarrow> options \<Rightarrow> bool" where
  "options_ok argc st \<longleftrightarrow> config_ok (opt_cfg st) \<and> length (opt_argv st) = argc"

lemma option_arg_ok:
  assumes "options_ok argc st" "i < argc"
  shows "\<exists>st'. option_arg c i off st = Some st' \<and> options_ok argc st'"
proof -
  have cfg: "config_ok (opt_cfg st)" and len: "length (opt_argv st) = argc"
    using assms(1) by (simp_all add: options_ok_def)
  obtain cfg' where "add_prefixes (drop off (opt_argv st ! i)) (opt_cfg st) = Some cfg'" "config_ok cfg'"
    using add_prefixes_ok [OF cfg] by blast
  then show ?thesis
    using cfg len assms(2) config_ok_update [OF cfg] by (simp add: option_arg_def options_ok_def Let_def)
qed

lemma option_loop_ok:
  "options_ok argc st \<Longrightarrow> events_in argc es \<Longrightarrow> \<exists>b st'. option_loop es st = Some (b, st') \<and> options_ok argc st'"
proof (induction es st rule: option_loop.induct)
  case (2 c es st)
  then show ?case by (simp add: options_ok_def)
next
  case (3 c i off es st)
  then obtain st' where "option_arg c i off st = Some st'" "options_ok argc st'"
    using option_arg_ok by (metis events_in_simps(4))
  then show ?case using 3 by simp
qed auto

section \<open>Prefix lists\<close>

text \<open>The reference: the fields of a list separated by one character.\<close>

fun split_on :: "char \<Rightarrow> string \<Rightarrow> string list" where
  "split_on c [] = [[]]"
| "split_on c (x # xs) = (if x = c then [] # split_on c xs
     else (case split_on c xs of [] \<Rightarrow> [[x]] | t # ts \<Rightarrow> (x # t) # ts))"

definition prefix_names :: "agent_config \<Rightarrow> string list" where
  "prefix_names cfg = map cstr (take (proc_prefix_count cfg) (proc_prefixes cfg))"

text \<open>Only the prefixes differ.\<close>

definition prefix_frame :: "agent_config \<Rightarrow> agent_config \<Rightarrow> bool" where
  "prefix_frame cfg cfg' \<longleftrightarrow> cfg\<lparr>proc_prefixes := [], proc_prefix_count := 0\<rparr> = cfg'\<lparr>proc_prefixes := [], proc_prefix_count := 0\<rparr>"

lemma prefix_frame_fields:
  assumes "prefix_frame cfg cfg'"
  shows "server_host cfg' = server_host cfg" "server_port cfg' = server_port cfg" "interval_sec cfg' = interval_sec cfg"
    "host_label cfg' = host_label cfg"
  using assms by (cases cfg; cases cfg'; simp add: prefix_frame_def)+

lemma split_on_first:
  "split_on c s = takeWhile (\<lambda>x. x \<noteq> c) s # (case dropWhile (\<lambda>x. x \<noteq> c) s of [] \<Rightarrow> [] | _ # r \<Rightarrow> split_on c r)"
  by (induction s) auto

lemma strtok_r_split:
  "filter (\<lambda>t. t \<noteq> []) (split_on c s) = (case strtok_r c s of None \<Rightarrow> [] | Some (tok, rest) \<Rightarrow> tok # filter (\<lambda>t. t \<noteq> []) (split_on c rest))"
proof (induction s)
  case (Cons x s)
  show ?case
  proof (cases "x = c")
    case True
    then show ?thesis using Cons by (simp add: strtok_r_def)
  next
    case False
    let ?rest = "dropWhile (\<lambda>x. x \<noteq> c) (x # s)"
    have "strtok_r c (x # s) = Some (takeWhile (\<lambda>x. x \<noteq> c) (x # s), drop 1 ?rest)"
      using False by (simp add: strtok_r_def)
    moreover have "split_on c (x # s) = takeWhile (\<lambda>x. x \<noteq> c) (x # s) # (case ?rest of [] \<Rightarrow> [] | _ # r \<Rightarrow> split_on c r)"
      by (rule split_on_first)
    ultimately show ?thesis
      using False by (cases ?rest) (simp_all del: split_on.simps(2) dropWhile.simps)
  qed
qed (simp add: strtok_r_def)

lemma config_add_proc_prefix_names:
  assumes "wf_config cfg" "config_add_proc_prefix cfg name = Some cfg'"
  shows "wf_config cfg' \<and> prefix_names cfg' = take 32 (prefix_names cfg @ [take 31 (cstr name)]) \<and>
    prefix_frame cfg cfg'"
proof (cases "proc_prefix_count cfg < TF_MAX_COMM_PREFIX")
  case True
  let ?p = "proc_prefixes cfg ! proc_prefix_count cfg"
  have p: "terminated 32 ?p" and len: "length (proc_prefixes cfg) = 32"
    using assms(1) True by (simp_all add: wf_config_def list_all_length)
  have "cstr (strncpy ?p name 31) = take 31 (cstr name)"
    using p by (intro cstr_strncpy) (auto simp: terminated_def)
  moreover have "terminated 32 (strncpy ?p name 31)"
    using p terminated_strncpy [of 31] by simp
  moreover have "cfg' = cfg\<lparr>proc_prefixes := (proc_prefixes cfg)[proc_prefix_count cfg := strncpy ?p name 31],
      proc_prefix_count := proc_prefix_count cfg + 1\<rparr>"
    using assms(2) config_add_proc_prefix_eq [OF assms(1) True] by simp
  ultimately show ?thesis
    using True len assms(1)
    by (simp add: prefix_names_def wf_config_def list_all_update take_Suc_conv_app_nth prefix_frame_def)
next
  case False
  then have "proc_prefix_count cfg = 32" "cfg' = cfg"
    using assms config_add_proc_prefix_full [of cfg name] by (auto simp: wf_config_def)
  then show ?thesis
    using assms(1) by (simp add: prefix_names_def wf_config_def prefix_frame_def)
qed

lemma length_prefix_names: "wf_config cfg \<Longrightarrow> length (prefix_names cfg) \<le> 32"
  by (simp add: prefix_names_def wf_config_def)

lemma add_prefixes_names:
  assumes "wf_config cfg" "add_prefixes s cfg = Some cfg'"
  shows "wf_config cfg' \<and> prefix_frame cfg cfg' \<and>
    prefix_names cfg' = take 32 (prefix_names cfg @
      map (\<lambda>t. take 31 (cstr t)) (filter (\<lambda>t. t \<noteq> []) (map trim_inplace (filter (\<lambda>t. t \<noteq> []) (split_on CHR '','' s)))))"
  using assms
proof (induction s cfg arbitrary: cfg' rule: add_prefixes.induct)
  case (1 s cfg)
  let ?names = "\<lambda>s. map (\<lambda>t. take 31 (cstr t)) (filter (\<lambda>t. t \<noteq> []) (map trim_inplace (filter (\<lambda>t. t \<noteq> []) (split_on CHR '','' s))))"
  show ?case
  proof (cases "strtok_r CHR '','' s")
    case None
    then have "?names s = []" "cfg' = cfg"
      using strtok_r_split [of "CHR '',''" s] 1(3) by (simp_all add: add_prefixes.simps [of s])
    then show ?thesis using 1(2) length_prefix_names [of cfg] by (simp add: prefix_frame_def)
  next
    case (Some p)
    obtain tok rest where p: "p = (tok, rest)" by force
    let ?t = "trim_inplace tok"
    let ?step = "if ?t \<noteq> [] then config_add_proc_prefix cfg ?t else Some cfg"
    have split: "?names s = (if ?t = [] then [] else [take 31 (cstr ?t)]) @ ?names rest"
      using strtok_r_split [of "CHR '',''" s] Some p by simp
    have "?step \<bind> add_prefixes rest = Some cfg'"
      using Some p 1(3) by (subst (asm) add_prefixes.simps) (simp add: Let_def split: if_splits)
    then obtain cfg1 where step: "?step = Some cfg1" and rest: "add_prefixes rest cfg1 = Some cfg'"
      unfolding bind_eq_Some_conv by blast
    have one: "wf_config cfg1 \<and> prefix_names cfg1 = take 32 (prefix_names cfg @ (if ?t = [] then [] else [take 31 (cstr ?t)])) \<and>
        prefix_frame cfg cfg1"
    proof (cases "?t = []")
      case True
      then show ?thesis using step 1(2) length_prefix_names [of cfg] by (simp add: prefix_frame_def)
    next
      case False
      then show ?thesis using step config_add_proc_prefix_names [OF 1(2)] by simp
    qed
    have "wf_config cfg' \<and> prefix_frame cfg1 cfg' \<and>
        prefix_names cfg' = take 32 (prefix_names cfg1 @ ?names rest)"
      using 1(1) [OF Some p [symmetric] refl step] one rest by blast
    then show ?thesis
      using one by (simp add: split take_take_append prefix_frame_def del: take_append)
  qed
qed

subsection \<open>Trimming\<close>

definition trimmed :: "string \<Rightarrow> bool" where
  "trimmed s \<longleftrightarrow> s \<noteq> [] \<longrightarrow> \<not> isspace (hd s) \<and> \<not> isspace (last s)"

lemma trim_blanks:
  assumes "trimmed s" "list_all isspace u" "list_all isspace v"
  shows "trim_inplace (u @ s @ v) = s"
proof (cases "s = []")
  case True
  have "dropWhile isspace (u @ v) = []"
    using assms(2,3) by (auto simp: list_all_iff)
  with True show ?thesis by (simp add: trim_inplace_def)
next
  case False
  have front: "dropWhile isspace (u @ t) = dropWhile isspace t" if "list_all isspace u" for u t
    using that by (induction u) auto
  have "dropWhile isspace (u @ s @ v) = s @ v"
    using assms False by (cases s) (auto simp: front trimmed_def)
  moreover have "dropWhile isspace (rev v @ rev s) = rev s"
    using assms False front [of "rev v"] by (cases s rule: rev_cases) (auto simp: trimmed_def)
  ultimately show ?thesis
    using False by (simp add: trim_inplace_def)
qed

lemma trim_id: "trimmed s \<Longrightarrow> trim_inplace s = s"
  using trim_blanks [of s "[]" "[]"] by simp

lemma trim_split:
  obtains u v where "s = u @ trim_inplace s @ v" "list_all isspace u" "list_all isspace v"
proof -
  let ?t = "dropWhile isspace s"
  have s: "s = takeWhile isspace s @ ?t" "list_all isspace (takeWhile isspace s)"
    by (auto simp: list_all_iff dest: set_takeWhileD)
  have t: "?t = rev (dropWhile isspace (rev ?t)) @ rev (takeWhile isspace (rev ?t))"
    by (metis rev_append rev_rev_ident takeWhile_dropWhile_id)
  have "list_all isspace (rev (takeWhile isspace (rev ?t)))"
    by (auto simp: list_all_iff dest: set_takeWhileD)
  moreover have "trim_inplace s = rev (dropWhile isspace (rev ?t))"
    by (simp add: trim_inplace_def Let_def del: dropWhile_eq_Nil_conv)
  ultimately show thesis
    using that s t by metis
qed

lemma trimmed_trim: "trimmed (trim_inplace s)"
proof (cases "dropWhile isspace s")
  case Nil
  then show ?thesis by (simp add: trim_inplace_def trimmed_def)
next
  case (Cons x r)
  then have x: "\<not> isspace x" by (simp add: dropWhile_eq_Cons_conv)
  have "dropWhile isspace (rev (x # r)) \<noteq> []"
    using x by (auto simp: dropWhile_eq_Nil_conv)
  then have "\<not> isspace (hd (dropWhile isspace (rev (x # r))))"
    by (rule hd_dropWhile)
  moreover have "last (dropWhile isspace (rev (x # r))) = x"
    using x by (simp add: dropWhile_append)
  ultimately show ?thesis
    using Cons x by (simp add: trim_inplace_def trimmed_def last_rev hd_rev)
qed

lemma trim_residue_trim: "trim_inplace (trim_residue s) = trim_inplace s"
proof (cases "list_all isspace s")
  case False
  have "list_all isspace (takeWhile isspace s)"
    by (auto simp: list_all_iff dest: set_takeWhileD)
  then show ?thesis
    using False trim_blanks [OF trimmed_trim, of "takeWhile isspace s" "[]" s] by (simp add: trim_residue_def)
qed (simp add: trim_residue_def)

lemma set_trim_residue: "set (trim_residue s) \<subseteq> set s"
proof -
  obtain u v where "s = u @ trim_inplace s @ v" by (rule trim_split)
  then have "set (trim_inplace s) \<subseteq> set s" by (metis Un_upper1 Un_upper2 set_append subset_trans)
  then show ?thesis by (auto simp: trim_residue_def dest: set_takeWhileD)
qed

lemma split_on_single: "c \<notin> set s \<Longrightarrow> split_on c s = [s]"
  by (induction s) auto

text \<open>C19: a prefix list adds its fields, trimmed, without the empty ones and cut to 31 characters, behind
  the prefixes already there; the first 32 are kept.\<close>

theorem add_prefixes_fields:
  assumes "config_ok cfg"
  shows "\<exists>cfg'. add_prefixes s cfg = Some cfg' \<and> prefix_names cfg' = take TF_MAX_COMM_PREFIX (prefix_names cfg @
    map (\<lambda>t. take 31 (cstr t)) (filter (\<lambda>t. t \<noteq> []) (map trim_inplace (split_on CHR '','' s))))"
proof -
  have "filter (\<lambda>t. t \<noteq> []) (map trim_inplace (filter (\<lambda>t. t \<noteq> []) ts)) = filter (\<lambda>t. t \<noteq> []) (map trim_inplace ts)" for ts
    by (induction ts) (auto simp: trim_inplace_def)
  then show ?thesis
    using add_prefixes_ok [OF assms, of s] add_prefixes_names [of cfg s] assms by (auto simp: config_ok_def)
qed

theorem add_prefixes_fields_witness:
  "\<exists>cfg'. add_prefixes '' a ,,b'' config_defaults = Some cfg' \<and> prefix_names cfg' = [''a'', ''b'']"
  using add_prefixes_fields [OF config_defaults_ok, of "'' a ,,b''"]
  by (simp add: prefix_names_def config_defaults_def trim_inplace_def isspace_def cstr_def)

text \<open>C36: a reload keeps only the first prefix of \<^verbatim>\<open>-P a,b\<close>: the first pass over \<^verbatim>\<open>argv\<close> cuts the argument at
  its first comma, so the second pass over the same argument finds one prefix.\<close>

theorem reload_keeps_first_prefix:
  assumes "options_ok argc st" "i < argc" "drop off (opt_argv st ! i) = a @ '','' @ b"
    "CHR '','' \<notin> set a" "trim_inplace a \<noteq> []" "config_ok cfg"
  shows "\<exists>st' st''. option_arg CHR ''P'' i off st = Some st' \<and>
    option_arg CHR ''P'' i off (st'\<lparr>opt_cfg := cfg\<rparr>) = Some st'' \<and>
    prefix_names (opt_cfg st'') = take TF_MAX_COMM_PREFIX (prefix_names cfg @ [take 31 (cstr (trim_inplace a))])"
proof -
  let ?arg = "opt_argv st ! i" and ?s = "a @ '','' @ b"
  have a: "a \<noteq> []" using assms(5) by (auto simp: trim_inplace_def)
  then have "dropWhile (\<lambda>x. x = CHR '','') ?s = ?s" "takeWhile (\<lambda>x. x = CHR '','') ?s = []"
    using assms(4) by (cases a; auto)+
  moreover have "takeWhile (\<lambda>x. x \<noteq> CHR '','') ?s = a"
    using assms(4) by (simp, intro takeWhile_append_stop) auto
  ultimately have res: "prefixes_residue ?s = trim_residue a"
    by (simp add: prefixes_residue_def)
  have off: "off \<le> length ?arg" using assms(3) by (cases "off \<le> length ?arg") auto
  obtain cfg1 where cfg1: "add_prefixes ?s (opt_cfg st) = Some cfg1"
    using add_prefixes_ok assms(1) by (metis options_ok_def)
  have len: "length (opt_argv st) = argc" using assms(1) by (simp add: options_ok_def)
  let ?st' = "st\<lparr>opt_cfg := cfg1, opt_argv := (opt_argv st)[i := take off ?arg @ trim_residue a]\<rparr>"
  have first: "option_arg CHR ''P'' i off st = Some ?st'"
    using assms(2,3) len cfg1 res by (simp add: option_arg_def)
  obtain cfg2 where cfg2: "add_prefixes (trim_residue a) cfg = Some cfg2"
    using add_prefixes_ok [OF assms(6)] by blast
  have "option_arg CHR ''P'' i off (?st'\<lparr>opt_cfg := cfg\<rparr>) =
      Some (?st'\<lparr>opt_cfg := cfg2, opt_argv := (opt_argv ?st')[i := take off ?arg @ prefixes_residue (trim_residue a)]\<rparr>)"
    using assms(2) len off cfg2 by (simp add: option_arg_def)
  moreover have "prefix_names cfg2 = take 32 (prefix_names cfg @ [take 31 (cstr (trim_inplace a))])"
  proof -
    have "CHR '','' \<notin> set (trim_residue a)" using assms(4) set_trim_residue by blast
    moreover have "trim_residue a \<noteq> []" using trim_residue_trim [of a] assms(5) by (auto simp: trim_inplace_def)
    ultimately show ?thesis
      using add_prefixes_names [of cfg "trim_residue a" cfg2] cfg2 assms(5,6)
      by (simp add: split_on_single trim_residue_trim config_ok_def)
  qed
  ultimately show ?thesis using first by auto
qed

theorem reload_keeps_first_prefix_witness:
  "\<exists>st' st''. option_arg CHR ''P'' 2 0 \<lparr>opt_argv = [''agent'', ''-P'', ''nginx,redis''], opt_cfg = config_defaults,
      opt_file_mode = False, opt_output_file = None, opt_debug = False\<rparr> = Some st' \<and>
    option_arg CHR ''P'' 2 0 (st'\<lparr>opt_cfg := config_defaults\<rparr>) = Some st'' \<and> prefix_names (opt_cfg st'') = [''nginx'']"
proof -
  let ?st = "\<lparr>opt_argv = [''agent'', ''-P'', ''nginx,redis''], opt_cfg = config_defaults,
      opt_file_mode = False, opt_output_file = None, opt_debug = False\<rparr>"
  have "options_ok 3 ?st" by (simp add: options_ok_def config_defaults_ok)
  from reload_keeps_first_prefix [OF this, of 2 0 "''nginx''" "''redis''", OF _ _ _ _ config_defaults_ok]
  show ?thesis
    by (simp add: trim_inplace_def isspace_def cstr_def prefix_names_def config_defaults_def)
qed

section \<open>Configuration files\<close>

lemma option_loop_argv:
  assumes "config_ok c"
  shows "\<exists>b st. option_loop (getopt 1 (tl argv)) \<lparr>opt_argv = argv, opt_cfg = c, opt_file_mode = m, opt_output_file = f,
      opt_debug = d\<rparr> = Some (b, st) \<and> options_ok (length argv) st"
proof (cases argv)
  case (Cons a as)
  have "events_in (length argv) (getopt 1 (tl argv))"
    using Cons by (intro getopt_in) simp
  then show ?thesis
    using assms by (intro option_loop_ok) (simp_all add: options_ok_def)
qed (use assms in \<open>auto simp: options_ok_def\<close>)

lemma config_init_exit:
  assumes "config_init_from_sources fs access argv = Some (Inl code)"
  shows "code = 1"
  using assms by (auto simp: config_init_from_sources_def bind_eq_Some_conv split: option.splits if_splits)

text \<open>C18: whatever the configuration files and the command line hold, the configuration is well-formed:
  terminated strings inside their arrays, an interval of at least a second, a thread mode, between
  1 and 7 threads, a flag and a printable label.\<close>

theorem options_config_ok:
  assumes "config_init_from_sources fs access argv = Some (Inr cfg)"
  shows "\<exists>b st. option_loop (getopt 1 (tl argv)) \<lparr>opt_argv = argv, opt_cfg = cfg, opt_file_mode = m, opt_output_file = f,
      opt_debug = d\<rparr> = Some (b, st) \<and> config_ok (opt_cfg st) \<and> length (opt_argv st) = length argv"
proof -
  have "config_ok cfg"
    using assms config_init_from_sources_ok [of fs access argv] by simp
  from option_loop_argv [OF this, of argv m f d] show ?thesis
    by (auto simp: options_ok_def)
qed

theorem options_config_ok_witness:
  "\<exists>b st. option_loop (getopt 1 [''-i'', ''0'']) \<lparr>opt_argv = [''agent'', ''-i'', ''0''], opt_cfg = config_defaults, opt_file_mode = False,
      opt_output_file = None, opt_debug = False\<rparr> = Some (b, st) \<and> config_ok (opt_cfg st)"
proof -
  have "config_init_from_sources (\<lambda>_. None) (\<lambda>_. False) [''agent'', ''-i'', ''0''] = Some (Inr config_defaults)"
    by (simp add: config_init_from_sources_def find_config_file_def config_search_paths_def)
  from options_config_ok [OF this, of False None False] show ?thesis
    unfolding list.sel by blast
qed

text \<open>A configuration file that says all of a configuration.\<close>

definition config_entry :: "string \<Rightarrow> string \<Rightarrow> string" where
  "config_entry key val = key @ ''='' @ val @ [NEWLINE]"

fun join_comma :: "string list \<Rightarrow> string" where
  "join_comma [] = []"
| "join_comma [a] = a"
| "join_comma (a # b # r) = a @ '','' @ join_comma (b # r)"

definition config_entries :: "agent_config \<Rightarrow> (string \<times> string) list" where
  "config_entries cfg =
     [(''server_host'', cstr (server_host cfg)), (''server_port'', show_u (unat (server_port cfg))),
      (''interval'', show_u (unat (interval_sec cfg))), (''host_label'', cstr (host_label cfg)),
      (''proc_prefix'', join_comma (prefix_names cfg)), (''thread_mode'', thread_mode_name (thread_mode cfg)),
      (''thread_top_n'', show_u (unat (thread_top_n cfg))),
      (''thread_include_tid'', if thread_include_tid cfg \<noteq> 0 then ''true'' else ''false'')]"

definition config_text :: "agent_config \<Rightarrow> string" where
  "config_text cfg = concat (map (\<lambda>(k, v). config_entry k v) (config_entries cfg))"

definition config_view :: "agent_config \<Rightarrow> string \<times> u16 \<times> u16 \<times> string \<times> string list \<times> u8 \<times> u8 \<times> u8" where
  "config_view cfg = (cstr (server_host cfg), server_port cfg, interval_sec cfg, cstr (host_label cfg), prefix_names cfg,
     thread_mode cfg, thread_top_n cfg, thread_include_tid cfg)"

definition field_ok :: "string \<Rightarrow> bool" where
  "field_ok s \<longleftrightarrow> trimmed s \<and> length s \<le> 200 \<and> NUL \<notin> set s \<and> NEWLINE \<notin> set s"

definition writable_config :: "agent_config \<Rightarrow> bool" where
  "writable_config cfg \<longleftrightarrow> config_ok cfg \<and> server_port cfg \<noteq> 0 \<and> cstr (server_host cfg) \<noteq> [] \<and> field_ok (cstr (server_host cfg)) \<and>
     field_ok (cstr (host_label cfg)) \<and> list_all (\<lambda>p. p \<noteq> [] \<and> field_ok p \<and> CHR '','' \<notin> set p) (prefix_names cfg) \<and>
     length (join_comma (prefix_names cfg)) \<le> 200"

lemma config_line_entry:
  assumes "trimmed key" "key \<noteq> []" "hd key \<noteq> CHR ''#''" "CHR ''='' \<notin> set key" "NUL \<notin> set key" "field_ok val"
  shows "config_line (config_entry key val) cfg = config_set key val cfg"
proof -
  let ?l = "key @ CHR ''='' # val"
  have "trimmed ?l"
    using assms(1,2,6) by (auto simp: trimmed_def field_ok_def isspace_def)
  from trim_blanks [OF this, of "[]" "[NEWLINE]"] have trim: "trim_inplace (?l @ [NEWLINE]) = ?l"
    by (simp add: isspace_def)
  have "cstr (?l @ [NEWLINE]) = ?l @ [NEWLINE]"
    using assms(5,6) by (intro cstr_id) (auto simp: field_ok_def)
  moreover have "strchr ?l CHR ''='' = Some (length key)"
    using assms(4) by (rule strchr_first)
  moreover have "trim_inplace key = key" "trim_inplace val = val"
    using assms(1,6) trim_id by (auto simp: field_ok_def)
  ultimately show ?thesis
    using assms(2,3) trim by (simp add: config_line_def config_entry_def)
qed

lemma config_number_show_u:
  assumes "0 < n" "int n \<le> limit" "limit \<le> 65535"
  shows "config_number (show_u n) limit = Some (int n)"
proof -
  have "scan_integer (show_u n) = Some (False, show_u n, [])"
    using scan_integer_show_u [of "[]" "[]" n] by simp
  moreover have "int n \<le> LONG_MAX" using assms by simp
  ultimately show ?thesis
    using assms by (simp add: config_number_def strtol_def to_long_def)
qed

lemma length_show_u: "n < 10 ^ k \<Longrightarrow> 0 < k \<Longrightarrow> length (show_u n) \<le> k"
proof (induction k arbitrary: n)
  case (Suc k)
  show ?case
  proof (cases "n < 10")
    case False
    then have "n div 10 < 10 ^ k" "0 < k"
      using Suc.prems by (auto intro!: gr0I)
    then show ?thesis
      using Suc.IH [of "n div 10"] False by (simp add: show_u.simps [of n])
  qed (simp add: show_u.simps)
qed simp

lemma show_u_field: "n \<le> 65535 \<Longrightarrow> field_ok (show_u n)"
proof -
  assume "n \<le> 65535"
  then have "length (show_u n) \<le> 5" by (intro length_show_u) simp_all
  moreover have "\<forall>c \<in> set (show_u n). isdigit c"
    using show_u_digits [of n] by (simp add: list_all_iff)
  moreover have "isdigit c \<Longrightarrow> \<not> isspace c \<and> c \<noteq> NUL \<and> c \<noteq> NEWLINE" for c
    by (auto simp: isdigit_def isspace_def Let_def)
  ultimately show ?thesis
    by (auto simp: field_ok_def trimmed_def)
qed

lemma split_on_field: "c \<notin> set a \<Longrightarrow> split_on c (a @ c # r) = a # split_on c r"
  by (induction a) auto

lemma join_comma_split:
  "list_all (\<lambda>p. CHR '','' \<notin> set p) ps \<Longrightarrow> ps \<noteq> [] \<Longrightarrow> split_on CHR '','' (join_comma ps) = ps"
  by (induction ps rule: join_comma.induct) (auto simp: split_on_single split_on_field)

lemma join_comma_chars:
  "list_all (\<lambda>p. p \<noteq> [] \<and> field_ok p) ps \<Longrightarrow>
    trimmed (join_comma ps) \<and> NUL \<notin> set (join_comma ps) \<and> NEWLINE \<notin> set (join_comma ps) \<and> (ps \<noteq> [] \<longrightarrow> join_comma ps \<noteq> [])"
proof (induction ps rule: join_comma.induct)
  case (3 a b r)
  then have "trimmed a" "a \<noteq> []" "NUL \<notin> set a" "NEWLINE \<notin> set a" "trimmed (join_comma (b # r))" "join_comma (b # r) \<noteq> []"
    "NUL \<notin> set (join_comma (b # r))" "NEWLINE \<notin> set (join_comma (b # r))"
    by (simp_all add: field_ok_def)
  then show ?case by (simp add: trimmed_def del: join_comma.simps(2))
qed (auto simp: field_ok_def trimmed_def)

lemma join_comma_field:
  "list_all (\<lambda>p. p \<noteq> [] \<and> field_ok p) ps \<Longrightarrow> length (join_comma ps) \<le> 200 \<Longrightarrow> field_ok (join_comma ps)"
  using join_comma_chars by (simp add: field_ok_def)

lemma config_entries_ok:
  assumes "writable_config cfg" "(k, v) \<in> set (config_entries cfg)"
  shows "trimmed k \<and> k \<noteq> [] \<and> hd k \<noteq> CHR ''#'' \<and> CHR ''='' \<notin> set k \<and> NUL \<notin> set k \<and> NEWLINE \<notin> set k \<and> length k \<le> 20 \<and> field_ok v"
proof -
  have nums: "field_ok (show_u (unat (server_port cfg)))" "field_ok (show_u (unat (interval_sec cfg)))" "field_ok (show_u (unat (thread_top_n cfg)))"
    using unat_u16_lt [of "server_port cfg"] unat_u16_lt [of "interval_sec cfg"] unat_u8_lt [of "thread_top_n cfg"]
    by (auto intro!: show_u_field simp del: unat_u16_lt unat_u8_lt)
  moreover have "field_ok (join_comma (prefix_names cfg))"
    using assms(1) by (intro join_comma_field) (auto simp: writable_config_def list_all_iff)
  moreover have "field_ok (thread_mode_name m)" "field_ok (if b then ''true'' else ''false'')" for m b
    by (simp_all add: thread_mode_name_def field_ok_def trimmed_def isspace_def)
  moreover have "trimmed k \<and> k \<noteq> [] \<and> hd k \<noteq> CHR ''#'' \<and> CHR ''='' \<notin> set k \<and> NUL \<notin> set k \<and> NEWLINE \<notin> set k \<and> length k \<le> 20"
    using assms(2) by (auto simp: config_entries_def trimmed_def isspace_def)
  ultimately show ?thesis
    using assms by (auto simp: config_entries_def writable_config_def)
qed

fun set_entries :: "(string \<times> string) list \<Rightarrow> agent_config \<Rightarrow> agent_config option" where
  "set_entries [] cfg = Some cfg"
| "set_entries ((k, v) # es) cfg = config_set k v cfg \<bind> set_entries es"

lemma config_lines_entries:
  "\<forall>(k, v) \<in> set es. trimmed k \<and> k \<noteq> [] \<and> hd k \<noteq> CHR ''#'' \<and> CHR ''='' \<notin> set k \<and> NUL \<notin> set k \<and> field_ok v \<Longrightarrow>
    config_lines (map (\<lambda>(k, v). config_entry k v) es) cfg = set_entries es cfg"
proof (induction es arbitrary: cfg)
  case (Cons e es)
  obtain k v where "e = (k, v)" by force
  then show ?case using Cons by (cases "config_set k v cfg") (auto simp: config_line_entry)
qed simp

lemma config_text_lines:
  assumes "writable_config cfg"
  shows "config_lines (file_lines TF_LINE_BUF_SMALL (config_text cfg)) c = set_entries (config_entries cfg) c"
proof -
  note entry = config_entries_ok [OF assms]
  have "full_line 256 (config_entry k v)" if "(k, v) \<in> set (config_entries cfg)" for k v
    using entry [OF that] by (auto simp: full_line_def config_entry_def field_ok_def butlast_append)
  then have "list_all (full_line 256) (map (\<lambda>(k, v). config_entry k v) (config_entries cfg))"
    by (auto simp: list_all_iff)
  then have "file_lines 256 (config_text cfg) = map (\<lambda>(k, v). config_entry k v) (config_entries cfg)"
    unfolding config_text_def by (rule file_lines_concat)
  moreover have "config_lines (map (\<lambda>(k, v). config_entry k v) (config_entries cfg)) c = set_entries (config_entries cfg) c"
    using entry by (intro config_lines_entries) blast
  ultimately show ?thesis by simp
qed

lemma host_label_set:
  assumes "terminated 64 (host_label c)" "printable v" "NUL \<notin> set v" "length v \<le> 63"
  shows "\<exists>h. config_set ''host_label'' v c = Some (c\<lparr>host_label := h\<rparr>) \<and> cstr h = v"
proof (cases "v = []")
  case True
  have "cstr ((host_label c)[0 := NUL]) = []" "0 < length (host_label c)"
    using assms(1) by (cases "host_label c"; auto simp: terminated_def cstr_def)+
  then show ?thesis using True by (intro exI [of _ "(host_label c)[0 := NUL]"]) (simp add: config_set_def)
next
  case False
  let ?h = "strncpy (host_label c) v 63"
  have "terminated 64 ?h" using terminated_strncpy [of 63] assms(1) by simp
  then have keep: "?h[63 := NUL] = ?h" "length ?h = 64"
    by (auto simp: terminated_def list_update_same_conv)
  have "cstr ?h = take 63 (cstr v)"
    using assms(1) by (intro cstr_strncpy) (auto simp: terminated_def)
  then have "cstr ?h = v"
    using assms(3,4) by (simp add: cstr_id)
  moreover have "is_ascii_safe (Some v)"
    using assms(2) by (fastforce simp: is_ascii_safe_def printable_def list_all_iff not_less)
  ultimately show ?thesis using False keep by (intro exI [of _ ?h]) (simp add: config_set_def)
qed

lemma proc_prefix_set:
  assumes "wf_config c" "prefix_names c = []" "length ps \<le> 32" "list_all (\<lambda>p. p \<noteq> [] \<and> field_ok p \<and> CHR '','' \<notin> set p \<and> length p \<le> 31) ps"
    "add_prefixes (join_comma ps) c = Some c'"
  shows "prefix_frame c c' \<and> prefix_names c' = ps"
proof -
  have "filter (\<lambda>t. t \<noteq> []) (split_on CHR '','' (join_comma ps)) = ps"
  proof (cases "ps = []")
    case False
    then have "split_on CHR '','' (join_comma ps) = ps"
      using assms(4) by (intro join_comma_split) (auto simp: list_all_iff)
    then show ?thesis
      using assms(4) by (simp add: list_all_iff)
  qed simp
  moreover have "map trim_inplace ps = ps" "map (\<lambda>t. take 31 (cstr t)) ps = ps" "filter (\<lambda>t. t \<noteq> []) ps = ps"
    using assms(4) by (auto simp: list_all_iff field_ok_def trim_id cstr_id intro!: map_idI)
  ultimately show ?thesis
    using add_prefixes_names [OF assms(1,5)] assms(2,3) by simp
qed

lemma unat_pos: "(w :: 'a :: len word) \<noteq> 0 \<Longrightarrow> 0 < unat w"
  by (simp add: unat_gt_0)

lemma config_set_values:
  "p \<noteq> 0 \<Longrightarrow> config_set ''server_port'' (show_u (unat p)) c = Some (c\<lparr>server_port := p\<rparr>)"
  "n \<noteq> 0 \<Longrightarrow> config_set ''interval'' (show_u (unat n)) c = Some (c\<lparr>interval_sec := n\<rparr>)"
  "m \<in> {TF_THREAD_MODE_OFF, TF_THREAD_MODE_SUMMARY, TF_THREAD_MODE_TOP} \<Longrightarrow>
     config_set ''thread_mode'' (thread_mode_name m) c = Some (c\<lparr>thread_mode := m\<rparr>)"
  "1 \<le> unat k \<Longrightarrow> unat k \<le> 7 \<Longrightarrow> config_set ''thread_top_n'' (show_u (unat k)) c = Some (c\<lparr>thread_top_n := k\<rparr>)"
  "b \<in> {0, 1} \<Longrightarrow> config_set ''thread_include_tid'' (if b \<noteq> 0 then ''true'' else ''false'') c = Some (c\<lparr>thread_include_tid := b\<rparr>)"
proof -
  have "uint w < 65536" for w :: u16
    using uint_lt2p [of w] by simp
  then have le: "uint w \<le> 65535" for w :: u16
    by (simp add: zle_add1_eq_le [symmetric])
  show "p \<noteq> 0 \<Longrightarrow> config_set ''server_port'' (show_u (unat p)) c = Some (c\<lparr>server_port := p\<rparr>)"
    "n \<noteq> 0 \<Longrightarrow> config_set ''interval'' (show_u (unat n)) c = Some (c\<lparr>interval_sec := n\<rparr>)"
    by (simp_all add: config_set_def config_number_show_u unat_pos le)
  have "uint k \<le> 7" if "unat k \<le> 7"
    using that by (metis of_nat_mono of_nat_numeral of_nat_unat)
  then show "1 \<le> unat k \<Longrightarrow> unat k \<le> 7 \<Longrightarrow> config_set ''thread_top_n'' (show_u (unat k)) c = Some (c\<lparr>thread_top_n := k\<rparr>)"
    using config_number_show_u [of "unat k" 7] by (simp add: config_set_def)
  show "m \<in> {TF_THREAD_MODE_OFF, TF_THREAD_MODE_SUMMARY, TF_THREAD_MODE_TOP} \<Longrightarrow>
     config_set ''thread_mode'' (thread_mode_name m) c = Some (c\<lparr>thread_mode := m\<rparr>)"
    by (auto simp: config_set_def thread_mode_name_def strcaseeq_def tolower_def)
  show "b \<in> {0, 1} \<Longrightarrow> config_set ''thread_include_tid'' (if b \<noteq> 0 then ''true'' else ''false'') c = Some (c\<lparr>thread_include_tid := b\<rparr>)"
    by (auto simp: config_set_def parse_bool_value_def strcaseeq_def tolower_def)
qed

lemma prefix_names_fields:
  assumes "writable_config cfg"
  shows "length (prefix_names cfg) \<le> 32"
    "list_all (\<lambda>p. p \<noteq> [] \<and> field_ok p \<and> CHR '','' \<notin> set p \<and> length p \<le> 31) (prefix_names cfg)"
proof -
  have wf: "wf_config cfg" using assms by (simp add: writable_config_def config_ok_def)
  then show "length (prefix_names cfg) \<le> 32" by (rule length_prefix_names)
  have "length p \<le> 31" if "p \<in> set (prefix_names cfg)" for p
    using that wf cstr_terminated [of 32] by (fastforce simp: prefix_names_def wf_config_def list_all_iff dest: in_set_takeD)
  then show "list_all (\<lambda>p. p \<noteq> [] \<and> field_ok p \<and> CHR '','' \<notin> set p \<and> length p \<le> 31) (prefix_names cfg)"
    using assms by (simp add: writable_config_def list_all_iff)
qed

text \<open>C17: a configuration written to a file is read back: every setting of the configuration, with up to
  32 prefixes, is what the agent has after loading the file.\<close>

theorem config_roundtrip:
  assumes "writable_config cfg" "fs path = Some (config_text cfg)"
  shows "\<exists>cfg'. load_config_file fs path config_defaults = Some (0, cfg') \<and> config_view cfg' = config_view cfg"
proof -
  have ok: "config_ok cfg" and port: "server_port cfg \<noteq> 0" and host: "cstr (server_host cfg) \<noteq> []"
    using assms(1) by (simp_all add: writable_config_def)
  then have wf: "wf_config cfg" and bounds: "interval_sec cfg \<noteq> 0" "1 \<le> unat (thread_top_n cfg)" "unat (thread_top_n cfg) \<le> 7"
      "thread_mode cfg \<in> {0, 1, 2}" "thread_include_tid cfg \<in> {0, 1}"
    by (simp_all add: config_ok_def)
  have len: "length (cstr (host_label cfg)) \<le> 63" "length (cstr (server_host cfg)) \<le> 63"
    using wf cstr_terminated [of 64] by (fastforce simp: wf_config_def)+
  define c1 where "c1 = config_defaults\<lparr>server_host := strncpy (server_host config_defaults) (cstr (server_host cfg)) 63,
    server_port := server_port cfg, interval_sec := interval_sec cfg\<rparr>"
  have c1: "config_ok c1"
    unfolding c1_def by (intro config_ok_update config_defaults_ok bounds(1))
  obtain h where label: "config_set ''host_label'' (cstr (host_label cfg)) c1 = Some (c1\<lparr>host_label := h\<rparr>)" "cstr h = cstr (host_label cfg)"
    using host_label_set [of c1 "cstr (host_label cfg)"] c1 ok len(1) by (auto simp: wf_config_def config_ok_def)
  have h: "config_ok (c1\<lparr>host_label := h\<rparr>)"
    using config_set_ok [OF c1, of "''host_label''" "cstr (host_label cfg)"] label(1) by simp
  then obtain c2 where pre: "add_prefixes (join_comma (prefix_names cfg)) (c1\<lparr>host_label := h\<rparr>) = Some c2"
    using add_prefixes_ok by blast
  have "prefix_names (c1\<lparr>host_label := h\<rparr>) = []"
    by (simp add: c1_def prefix_names_def config_defaults_def)
  then have c2: "prefix_frame (c1\<lparr>host_label := h\<rparr>) c2" "prefix_names c2 = prefix_names cfg"
    using proc_prefix_set [OF _ _ prefix_names_fields [OF assms(1)] pre] h by (simp_all add: config_ok_def)
  define c3 where "c3 = c2\<lparr>thread_mode := thread_mode cfg, thread_top_n := thread_top_n cfg, thread_include_tid := thread_include_tid cfg\<rparr>"
  have "config_set ''server_host'' (cstr (server_host cfg)) config_defaults =
      Some (config_defaults\<lparr>server_host := strncpy (server_host config_defaults) (cstr (server_host cfg)) 63\<rparr>)"
    using host by (simp add: config_set_def)
  moreover have "config_set ''proc_prefix'' (join_comma (prefix_names cfg)) (c1\<lparr>host_label := h\<rparr>) = Some c2"
    using pre by (simp add: config_set_def)
  ultimately have "set_entries (config_entries cfg) config_defaults = Some c3"
    using label(1) config_set_values bounds port by (simp add: config_entries_def c1_def c3_def)
  moreover have "cstr (strncpy (server_host config_defaults) (cstr (server_host cfg)) 63) = cstr (server_host cfg)"
    using cstr_strncpy [of 63 "server_host config_defaults"] config_defaults_ok len(2)
    by (simp add: config_ok_def wf_config_def terminated_def)
  then have "config_view c3 = config_view cfg"
    using prefix_frame_fields [OF c2(1)] c2(2) label(2) by (simp add: config_view_def c3_def c1_def prefix_names_def)
  ultimately show ?thesis
    using assms by (simp add: load_config_file_def config_text_lines)
qed

definition config_example :: agent_config where
  "config_example = config_defaults\<lparr>host_label := strncpy (host_label config_defaults) ''web 1'' 63,
     proc_prefixes := (proc_prefixes config_defaults)[0 := strncpy (proc_prefixes config_defaults ! 0) ''nginx'' 31],
     proc_prefix_count := 1\<rparr>"

lemma config_example_view: "config_view config_example = (''127.0.0.1'', 9000, 5, ''web 1'', [''nginx''], 2, 5, 0)"
  by (simp add: config_view_def config_example_def config_defaults_def prefix_names_def strncpy_def cstr_def take_Suc_conv_app_nth)

lemma config_example_writable: "writable_config config_example"
proof -
  let ?c = "config_defaults\<lparr>host_label := strncpy (host_label config_defaults) ''web 1'' 63\<rparr>"
  have t: "terminated 64 (host_label config_defaults)"
    using config_defaults_ok by (simp add: config_ok_def wf_config_def)
  have "config_ok ?c"
    using config_defaults_ok t terminated_strncpy [of 63 "host_label config_defaults"]
    by (intro config_ok_update(7) printable_host_label) (simp_all add: is_ascii_safe_def)
  moreover have "config_add_proc_prefix ?c ''nginx'' = Some config_example"
    using calculation by (subst config_add_proc_prefix_eq) (simp_all add: config_ok_def config_example_def config_defaults_def)
  ultimately have "config_ok config_example"
    using config_add_proc_prefix_ok [of ?c "''nginx''"] by simp
  then show ?thesis
    using config_example_view
    by (simp add: writable_config_def config_view_def field_ok_def trimmed_def isspace_def)
qed

theorem config_roundtrip_witness:
  "\<exists>cfg'. load_config_file (\<lambda>_. Some (config_text config_example)) ''agent.conf'' config_defaults = Some (0, cfg') \<and>
    config_view cfg' = (''127.0.0.1'', 9000, 5, ''web 1'', [''nginx''], 2, 5, 0)"
  using config_roundtrip [OF config_example_writable, of "\<lambda>_. Some (config_text config_example)" "''agent.conf''"]
  by (simp add: config_example_view)

text \<open>C37: a port above 65535 is refused in a configuration file but taken modulo 65536 from the command
  line.\<close>

theorem port_option_wraps:
  assumes "65535 < n" "int n \<le> LONG_MAX" "i < length (opt_argv st)" "opt_argv st ! i = show_u n"
  shows "config_set ''server_port'' (show_u n) (opt_cfg st) = Some (opt_cfg st) \<and>
    (\<exists>st'. option_arg CHR ''p'' i 0 st = Some st' \<and> unat (server_port (opt_cfg st')) = n mod 65536)"
proof -
  have "scan_integer (show_u n) = Some (False, show_u n, [])"
    using scan_integer_show_u [of "[]" "[]" n] by simp
  then have "strtol (show_u n) = (int n, False, [])"
    using assms(2) by (simp add: strtol_def to_long_def)
  then show ?thesis
    using assms by (simp add: config_set_def config_number_def option_arg_def unat_of_nat_u16)
qed

theorem port_option_wraps_witness:
  "\<exists>st'. option_arg CHR ''p'' 0 0 \<lparr>opt_argv = [show_u 65537], opt_cfg = config_defaults, opt_file_mode = False,
      opt_output_file = None, opt_debug = False\<rparr> = Some st' \<and> unat (server_port (opt_cfg st')) = 1"
  using port_option_wraps [of 65537 0 "\<lparr>opt_argv = [show_u 65537], opt_cfg = config_defaults, opt_file_mode = False,
      opt_output_file = None, opt_debug = False\<rparr>"]
  by simp

end
