(* ===== verification/Cpu.thy ===== *)
theory Cpu
  imports Collector
begin

text \<open>
  \<^verbatim>\<open>agent/src/cpu.c\<close>: CPU utilisation from the first line of \<^verbatim>\<open>/proc/stat\<close>. The collector keeps
  the previous counters and reports the shares of the last interval in tenths of a percent;
  the number of elapsed ticks goes to the process collector through the sample context.
\<close>

section \<open>State\<close>

record cpu_payload =
  pl_user :: u16
  pl_system :: u16
  pl_idle :: u16
  pl_iowait :: u16
  pl_irq :: u16

record cpu_ctx =
  prev_total :: u64
  prev_user :: u64
  prev_nice :: u64
  prev_system :: u64
  prev_idle :: u64
  prev_iowait :: u64
  prev_irq :: u64
  prev_softirq :: u64
  cpu_initialized :: bool
  cpu_last_payload :: cpu_payload

text \<open>The collector object: its context and the static \<^verbatim>\<open>g_last_diff_total\<close>.\<close>

record cpu_col =
  cpu_ctx_ptr :: "cpu_ctx option"
  g_last_diff_total :: u64

definition zero_cpu_payload :: cpu_payload where
  "zero_cpu_payload = \<lparr>pl_user = 0, pl_system = 0, pl_idle = 0, pl_iowait = 0, pl_irq = 0\<rparr>"

definition zero_cpu_ctx :: cpu_ctx where
  "zero_cpu_ctx = \<lparr>prev_total = 0, prev_user = 0, prev_nice = 0, prev_system = 0, prev_idle = 0,
     prev_iowait = 0, prev_irq = 0, prev_softirq = 0, cpu_initialized = False,
     cpu_last_payload = zero_cpu_payload\<rparr>"

section \<open>Operations\<close>

definition cpu_init :: "bool \<Rightarrow> agent_config \<Rightarrow> cpu_col \<Rightarrow> (int \<times> cpu_col) option" where
  "cpu_init alloc cfg col =
     (if \<not> alloc then Some (- 1, col) else Some (0, col\<lparr>cpu_ctx_ptr := Some zero_cpu_ctx\<rparr>))"

definition cpu_destroy :: "cpu_col \<Rightarrow> cpu_col" where
  "cpu_destroy col = col\<lparr>cpu_ctx_ptr := None\<rparr>"

text \<open>The format \<^verbatim>\<open>"cpu %llu %llu %llu %llu %llu %llu %llu"\<close>.\<close>

definition cpu_stat_fmt :: "conv list" where
  "cpu_stat_fmt = [C_lit CHR ''c'', C_lit CHR ''p'', C_lit CHR ''u'', C_ws, C_llu, C_ws, C_llu,
     C_ws, C_llu, C_ws, C_llu, C_ws, C_llu, C_ws, C_llu, C_ws, C_llu]"

text \<open>\<^verbatim>\<open>(uint16_t)((diff * 1000) / diff_total)\<close>\<close>

definition cpu_share :: "u64 \<Rightarrow> u64 \<Rightarrow> u16" where
  "cpu_share diff diff_total = ucast ((diff * 1000) div diff_total)"

text \<open>The part of \<^verbatim>\<open>cpu_collect\<close> after the line was parsed; the second component of the
  result is \<^verbatim>\<open>g_last_diff_total\<close>.\<close>

definition cpu_update ::
  "cpu_ctx \<Rightarrow> u64 \<Rightarrow> u64 \<Rightarrow> u64 \<Rightarrow> u64 \<Rightarrow> u64 \<Rightarrow> u64 \<Rightarrow> u64 \<Rightarrow> cpu_ctx \<times> u64" where
  "cpu_update ctx user nicev system idle iowait irq softirq =
     (let total = user + nicev + system + idle + iowait + irq + softirq in
      if \<not> cpu_initialized ctx then
        (\<lparr>prev_total = total, prev_user = user, prev_nice = nicev, prev_system = system,
          prev_idle = idle, prev_iowait = iowait, prev_irq = irq, prev_softirq = softirq,
          cpu_initialized = True, cpu_last_payload = zero_cpu_payload\<rparr>, 1)
      else
        let diff_total = total - prev_total ctx;
            diff_total = (if diff_total = 0 then 1 else diff_total);
            diff_user = (user - prev_user ctx) + (nicev - prev_nice ctx);
            diff_system = system - prev_system ctx;
            diff_idle = idle - prev_idle ctx;
            diff_iowait = iowait - prev_iowait ctx;
            diff_irq = (irq - prev_irq ctx) + (softirq - prev_softirq ctx)
        in (\<lparr>prev_total = total, prev_user = user, prev_nice = nicev, prev_system = system,
             prev_idle = idle, prev_iowait = iowait, prev_irq = irq, prev_softirq = softirq,
             cpu_initialized = True,
             cpu_last_payload =
               \<lparr>pl_user = cpu_share diff_user diff_total,
                pl_system = cpu_share diff_system diff_total,
                pl_idle = cpu_share diff_idle diff_total,
                pl_iowait = cpu_share diff_iowait diff_total,
                pl_irq = cpu_share diff_irq diff_total\<rparr>\<rparr>, diff_total))"

definition cpu_collect :: "os \<Rightarrow> agent_config \<Rightarrow> cpu_ctx \<Rightarrow> u64 \<Rightarrow> int \<times> cpu_ctx \<times> u64" where
  "cpu_collect os cfg ctx g =
     (case os_file os ''/proc/stat'' of
        None \<Rightarrow> (- 1, ctx\<lparr>cpu_last_payload := zero_cpu_payload\<rparr>, g)
      | Some stat_fp \<Rightarrow>
        (case fgets TF_LINE_BUF_SMALL stat_fp of
           None \<Rightarrow> (- 1, ctx\<lparr>cpu_last_payload := zero_cpu_payload\<rparr>, g)
         | Some (line, _) \<Rightarrow>
           (case fst (scanf cpu_stat_fmt (cstr line)) of
              [A_u64 user, A_u64 nicev, A_u64 system, A_u64 idle, A_u64 iowait, A_u64 irq, A_u64 softirq] \<Rightarrow>
                (let (ctx', g') = cpu_update ctx user nicev system idle iowait irq softirq
                 in (0, ctx', g'))
            | _ \<Rightarrow> (- 1, ctx\<lparr>cpu_last_payload := zero_cpu_payload\<rparr>, g))))"

definition cpu_payload_bytes :: "cpu_payload \<Rightarrow> u8 list" where
  "cpu_payload_bytes p =
     (let payload = [];
          payload = buf_put_be_u16 payload (pl_user p);
          payload = buf_put_be_u16 payload (pl_system p);
          payload = buf_put_be_u16 payload (pl_idle p);
          payload = buf_put_be_u16 payload (pl_iowait p);
          payload = buf_put_be_u16 payload (pl_irq p)
      in payload)"

definition cpu_push :: "cpu_ctx \<Rightarrow> tlv_writer option \<Rightarrow> (int \<times> tlv_writer option) option" where
  "cpu_push ctx wrt =
     (let payload = cpu_payload_bytes (cpu_last_payload ctx)
      in tlv_put wrt TF_TYPE_CPU (Some payload) (of_nat (length payload)))"

definition cpu_collect_api ::
  "os \<Rightarrow> agent_config \<Rightarrow> sample_context option \<Rightarrow> cpu_col \<Rightarrow> (int \<times> sample_context option \<times> cpu_col) option"
where
  "cpu_collect_api os cfg sctx col =
     (case cpu_ctx_ptr col of
        None \<Rightarrow> Some (- 1, sctx, col)
      | Some ctx \<Rightarrow>
        (let (rc, ctx', g) = cpu_collect os cfg ctx (g_last_diff_total col);
             col' = col\<lparr>cpu_ctx_ptr := Some ctx', g_last_diff_total := g\<rparr>
         in if rc \<noteq> 0 then Some (- 1, sctx, col')
            else Some (0, map_option (\<lambda>c. c\<lparr>cpu_total_diff := (if g \<noteq> 0 then g else 1)\<rparr>) sctx, col')))"

definition cpu_push_api ::
  "cpu_col \<Rightarrow> tlv_writer option \<Rightarrow> (int \<times> tlv_writer option \<times> cpu_col) option" where
  "cpu_push_api col wrt =
     (case cpu_ctx_ptr col of
        None \<Rightarrow> Some (- 1, wrt, col)
      | Some ctx \<Rightarrow> do { (rc, wrt') \<leftarrow> cpu_push ctx wrt; Some (rc, wrt', col) })"

text \<open>\<^verbatim>\<open>"%3u.%1u%%"\<close> of a value in tenths of a percent.\<close>

definition cpu_print_share :: "u16 \<Rightarrow> string" where
  "cpu_print_share v = pad_left CHR '' '' 3 (show_u (unat v div 10)) @ ''.'' @ show_u (unat v mod 10) @ ''%''"

definition cpu_print :: "cpu_col \<Rightarrow> string" where
  "cpu_print col =
     (case cpu_ctx_ptr col of
        None \<Rightarrow> []
      | Some ctx \<Rightarrow> (let p = cpu_last_payload ctx in
          ''CPU : user='' @ cpu_print_share (pl_user p) @ '' sys='' @ cpu_print_share (pl_system p) @
          '' idle='' @ cpu_print_share (pl_idle p) @ '' iowait='' @ cpu_print_share (pl_iowait p) @
          '' irq='' @ cpu_print_share (pl_irq p) @ [NEWLINE]))"

section \<open>Invariant\<close>

definition prev_sum :: "cpu_ctx \<Rightarrow> u64" where
  "prev_sum ctx = prev_user ctx + prev_nice ctx + prev_system ctx + prev_idle ctx + prev_iowait ctx +
     prev_irq ctx + prev_softirq ctx"

definition cpu_ctx_inv :: "cpu_ctx \<Rightarrow> bool" where
  "cpu_ctx_inv ctx \<longleftrightarrow> prev_total ctx = prev_sum ctx \<and>
     (\<not> cpu_initialized ctx \<longrightarrow> cpu_last_payload ctx = zero_cpu_payload)"

definition cpu_inv :: "cpu_col \<Rightarrow> bool" where
  "cpu_inv col \<longleftrightarrow> (case cpu_ctx_ptr col of None \<Rightarrow> True | Some ctx \<Rightarrow> cpu_ctx_inv ctx)"

definition cpu_live :: "cpu_col \<Rightarrow> bool" where
  "cpu_live col \<longleftrightarrow> cpu_ctx_ptr col \<noteq> None"

section \<open>Lemmas\<close>

lemma length_cpu_payload_bytes [simp, len_simps]: "length (cpu_payload_bytes p) = 10"
  by (simp add: cpu_payload_bytes_def)

lemma cpu_update_inv: "cpu_ctx_inv (fst (cpu_update ctx u n s i w q f))"
  by (simp add: cpu_update_def cpu_ctx_inv_def prev_sum_def Let_def)

lemma cpu_update_diff_nonzero: "snd (cpu_update ctx u n s i w q f) \<noteq> 0"
  by (simp add: cpu_update_def Let_def)

text \<open>A failed pass zeroes the payload and touches nothing else; a successful one is an update
  with the counters that were read.\<close>

lemma cpu_collect_cases:
  obtains (failed) "cpu_collect os cfg ctx g = (- 1, ctx\<lparr>cpu_last_payload := zero_cpu_payload\<rparr>, g)"
  | (sampled) user nicev system idle iowait irq softirq where
      "cpu_collect os cfg ctx g =
         (0, cpu_update ctx user nicev system idle iowait irq softirq)"
proof (cases "os_file os ''/proc/stat''")
  case None
  then show thesis using failed by (simp add: cpu_collect_def)
next
  case (Some fp)
  show thesis
  proof (cases "fgets TF_LINE_BUF_SMALL fp")
    case None
    with Some show thesis using failed by (simp add: cpu_collect_def)
  next
    case F: (Some p)
    obtain line r where p: "p = (line, r)" by (cases p)
    show thesis
    proof (cases "\<exists>u n s i w q f. fst (scanf cpu_stat_fmt (cstr line)) =
        [A_u64 u, A_u64 n, A_u64 s, A_u64 i, A_u64 w, A_u64 q, A_u64 f]")
      case True
      then obtain u n s i w q f where "fst (scanf cpu_stat_fmt (cstr line)) =
        [A_u64 u, A_u64 n, A_u64 s, A_u64 i, A_u64 w, A_u64 q, A_u64 f]" by blast
      with Some F p show thesis
        by (intro sampled [of u n s i w q f]) (simp add: cpu_collect_def case_prod_beta)
    next
      case False
      with Some F p show thesis
        by (intro failed) (auto simp: cpu_collect_def split: list.splits arg.splits)
    qed
  qed
qed

lemma cpu_collect_inv:
  assumes "cpu_ctx_inv ctx" "cpu_collect os cfg ctx g = (rc, ctx', g')"
  shows "cpu_ctx_inv ctx'"
proof (cases rule: cpu_collect_cases [of os cfg ctx g])
  case failed
  with assms show ?thesis by (auto simp: cpu_ctx_inv_def prev_sum_def)
next
  case (sampled u n s i w q f)
  with assms(2) have "ctx' = fst (cpu_update ctx u n s i w q f)"
    by (metis fst_conv prod.inject)
  then show ?thesis by (simp add: cpu_update_inv)
qed

text \<open>A share is the exact quotient as long as the product does not wrap.\<close>

lemma cpu_share_exact:
  assumes "1000 * unat d < 2 ^ 64" "unat d \<le> unat t" "0 < unat t"
  shows "unat (cpu_share d t) = 1000 * unat d div unat t" "unat (cpu_share d t) \<le> 1000"
proof -
  have le: "1000 * unat d div unat t \<le> 1000"
    using assms(2,3) by (metis div_le_mono div_mult_self_is_m mult_le_mono2)
  have "unat (d * 1000) = 1000 * unat d"
    using assms(1) by (simp add: unat_word_ariths mult.commute)
  then have "unat (cpu_share d t) = (1000 * unat d div unat t) mod 65536"
    by (simp add: cpu_share_def unsigned_ucast_eq take_bit_eq_mod unat_div)
  with le show "unat (cpu_share d t) = 1000 * unat d div unat t" "unat (cpu_share d t) \<le> 1000"
    by simp_all
qed

text \<open>Five rounded shares of a whole lose less than five units together.\<close>

lemma floor_shares:
  fixes a b c d e t k :: nat
  assumes t: "t = a + b + c + d + e" "0 < t"
  defines "K \<equiv> k * a div t + k * b div t + k * c div t + k * d div t + k * e div t"
  shows "K \<le> k" "k < K + 5"
proof -
  have q: "t * (x div t) \<le> x" "x < t * (x div t) + t" for x
    using t(2) by (simp, metis add.commute add_less_mono1 mod_less_divisor mult_div_mod_eq)
  have K: "t * K = t * (k * a div t) + t * (k * b div t) + t * (k * c div t) + t * (k * d div t) +
      t * (k * e div t)"
    by (simp add: K_def algebra_simps)
  have kt: "t * k = k * a + k * b + k * c + k * d + k * e"
    by (simp add: t(1) algebra_simps)
  have "t * K \<le> t * k"
    using q(1) [of "k * a"] q(1) [of "k * b"] q(1) [of "k * c"] q(1) [of "k * d"] q(1) [of "k * e"] K kt
    by linarith
  then show "K \<le> k" using t(2) by simp
  have "t * k < t * (K + 5)"
    using q(2) [of "k * a"] q(2) [of "k * b"] q(2) [of "k * c"] q(2) [of "k * d"] q(2) [of "k * e"] K kt
    by (simp only: distrib_left)
  then show "k < K + 5" using t(2) by simp
qed

text \<open>The difference of the totals is the total of the differences.\<close>

lemma cpu_diff_total:
  assumes "cpu_ctx_inv ctx"
  shows "(u + n + s + i + w + q + f) - prev_total ctx =
    ((u - prev_user ctx) + (n - prev_nice ctx)) + (s - prev_system ctx) + (i - prev_idle ctx) +
    (w - prev_iowait ctx) + ((q - prev_irq ctx) + (f - prev_softirq ctx))"
  using assms by (simp add: cpu_ctx_inv_def prev_sum_def)

lemma unat_add_small: "unat a + unat b < 2 ^ 64 \<Longrightarrow> unat (a + b) = unat a + unat b" for a b :: u64
  by (simp add: unat_word_ariths)

section \<open>The CPU collector meets the interface\<close>

interpretation cpu: collector cpu_init cpu_destroy cpu_collect_api cpu_push_api cpu_inv cpu_live
  "\<lambda>_. True"
proof unfold_locales
  fix s cfg alloc
  assume "cpu_inv s"
  then show "\<exists>rc s'. cpu_init alloc cfg s = Some (rc, s') \<and> cpu_inv s' \<and>
      (if alloc then rc = 0 \<and> cpu_live s' else rc = - 1 \<and> s' = s)"
    by (auto simp: cpu_init_def cpu_inv_def cpu_live_def zero_cpu_ctx_def cpu_ctx_inv_def prev_sum_def)
next
  fix s
  assume "cpu_inv s"
  then show "cpu_inv (cpu_destroy s) \<and> \<not> cpu_live (cpu_destroy s)"
    by (simp add: cpu_destroy_def cpu_inv_def cpu_live_def)
next
  fix s cfg os sctx
  assume inv: "cpu_inv s"
  show "\<exists>rc sctx' s'. cpu_collect_api os cfg sctx s = Some (rc, sctx', s') \<and> cpu_inv s' \<and>
      (sctx' = None \<longleftrightarrow> sctx = None) \<and> (cpu_live s' \<longleftrightarrow> cpu_live s)"
  proof (cases "cpu_ctx_ptr s")
    case None
    with inv show ?thesis by (simp add: cpu_collect_api_def)
  next
    case (Some ctx)
    obtain rc ctx' g' where c: "cpu_collect os cfg ctx (g_last_diff_total s) = (rc, ctx', g')"
      by (metis prod_cases3)
    with Some inv have "cpu_ctx_inv ctx'"
      by (auto simp: cpu_inv_def intro: cpu_collect_inv)
    with Some c show ?thesis
      by (auto simp: cpu_collect_api_def cpu_inv_def cpu_live_def Let_def)
  qed
next
  fix s w
  assume inv: "cpu_inv s" and w: "wf_writer w"
  show "\<exists>rc w' s' ts. cpu_push_api s (Some w) = Some (rc, Some w', s') \<and> cpu_inv s' \<and>
      (cpu_live s' \<longleftrightarrow> cpu_live s) \<and> appends_tlvs w w' ts"
  proof (cases "cpu_ctx_ptr s")
    case None
    with inv appends_nothing [OF w] show ?thesis by (auto simp: cpu_push_api_def)
  next
    case (Some ctx)
    obtain rc w' ts where "cpu_push ctx (Some w) = Some (rc, Some w')" "appends_tlvs w w' ts"
      using tlv_put_payload [OF w] by (metis cpu_push_def)
    with Some inv show ?thesis by (auto simp: cpu_push_api_def)
  qed
next
  fix s wrt
  assume "\<not> cpu_live s"
  then show "cpu_push_api s wrt = Some (- 1, wrt, s)"
    by (simp add: cpu_live_def cpu_push_api_def)
qed

section \<open>Properties\<close>

text \<open>C7: On a second or later sample whose counters did not run backwards, \<^verbatim>\<open>cpu_collect\<close> returns 0,
  every reported share is the exact quotient (in tenths of a percent, rounded down) of the
  ticks in that class by all ticks of the interval, and the five shares together lie between
  996 and 1000: no tick is lost or counted twice.\<close>

theorem cpu_collect_shares:
  assumes inv: "cpu_ctx_inv ctx" and init: "cpu_initialized ctx"
    and read: "os_file os ''/proc/stat'' = Some fp" "fgets TF_LINE_BUF_SMALL fp = Some (line, rest)"
      "fst (scanf cpu_stat_fmt (cstr line)) =
         [A_u64 u, A_u64 n, A_u64 s, A_u64 i, A_u64 w, A_u64 q, A_u64 f]"
    and mono: "prev_user ctx \<le> u" "prev_nice ctx \<le> n" "prev_system ctx \<le> s" "prev_idle ctx \<le> i"
      "prev_iowait ctx \<le> w" "prev_irq ctx \<le> q" "prev_softirq ctx \<le> f"
    and du: "du = (unat u - unat (prev_user ctx)) + (unat n - unat (prev_nice ctx))"
    and ds: "ds = unat s - unat (prev_system ctx)" and di: "di = unat i - unat (prev_idle ctx)"
    and dw: "dw = unat w - unat (prev_iowait ctx)"
    and dq: "dq = (unat q - unat (prev_irq ctx)) + (unat f - unat (prev_softirq ctx))"
    and ticks: "t = du + ds + di + dw + dq" "0 < t" "1000 * t < 2 ^ 64"
  shows "\<exists>ctx' g'. cpu_collect os cfg ctx g = (0, ctx', g') \<and> unat g' = t \<and>
     (let p = cpu_last_payload ctx' in
        unat (pl_user p) = 1000 * du div t \<and> unat (pl_system p) = 1000 * ds div t \<and>
        unat (pl_idle p) = 1000 * di div t \<and> unat (pl_iowait p) = 1000 * dw div t \<and>
        unat (pl_irq p) = 1000 * dq div t \<and>
        unat (pl_user p) + unat (pl_system p) + unat (pl_idle p) + unat (pl_iowait p) + unat (pl_irq p) \<le> 1000 \<and>
        996 \<le> unat (pl_user p) + unat (pl_system p) + unat (pl_idle p) + unat (pl_iowait p) + unat (pl_irq p))"
proof -
  let ?du = "(u - prev_user ctx) + (n - prev_nice ctx)" and ?ds = "s - prev_system ctx"
    and ?di = "i - prev_idle ctx" and ?dw = "w - prev_iowait ctx"
    and ?dq = "(q - prev_irq ctx) + (f - prev_softirq ctx)"
  let ?t = "?du + ?ds + ?di + ?dw + ?dq"
  have d: "unat ?du = du" "unat ?ds = ds" "unat ?di = di" "unat ?dw = dw" "unat ?dq = dq"
    using ticks(1,3) du ds di dw dq by (simp_all add: unat_add_small unat_sub_u64 mono)
  have t: "unat ?t = t"
    using ticks d by (simp add: unat_add_small)
  then have nz: "?t \<noteq> 0" using ticks(2) by auto
  have share: "unat (cpu_share d ?t) = 1000 * unat d div t" if "unat d \<le> t" for d
    using cpu_share_exact(1) [of d ?t] that ticks t by simp
  have le: "du \<le> t" "ds \<le> t" "di \<le> t" "dw \<le> t" "dq \<le> t"
    using ticks(1) by simp_all
  note shares = share [of ?du, unfolded d] share [of ?ds, unfolded d] share [of ?di, unfolded d]
    share [of ?dw, unfolded d] share [of ?dq, unfolded d]
  define c where "c = cpu_update ctx u n s i w q f"
  have c: "cpu_collect os cfg ctx g = (0, fst c, snd c)"
    by (simp add: cpu_collect_def read c_def)
  have "snd c = ?t" and p: "cpu_last_payload (fst c) = \<lparr>pl_user = cpu_share ?du ?t,
      pl_system = cpu_share ?ds ?t, pl_idle = cpu_share ?di ?t, pl_iowait = cpu_share ?dw ?t,
      pl_irq = cpu_share ?dq ?t\<rparr>"
    using nz by (simp_all only: c_def cpu_update_def Let_def init cpu_diff_total [OF inv] if_False if_True
        not_True_eq_False snd_conv fst_conv cpu_ctx.simps)
  with c t floor_shares [OF ticks(1,2), of 1000] show ?thesis
    by (intro exI [of _ "fst c"] exI [of _ "snd c"]) (simp add: p shares le Let_def)
qed

definition cpu_example_ctx :: cpu_ctx where
  "cpu_example_ctx = fst (cpu_update zero_cpu_ctx 100 0 50 800 40 5 5)"

definition cpu_example_os :: "string \<Rightarrow> os" where
  "cpu_example_os s = \<lparr>os_file = (\<lambda>p. if p = ''/proc/stat'' then Some s else None),
     os_dir = (\<lambda>_. None), os_statvfs = (\<lambda>_. None), os_monotonic = None, os_time = 0,
     os_time_after_scan = 0, os_nprocessors = 1, os_pagesize = 4096\<rparr>"

lemma cpu_example_line:
  "fgets TF_LINE_BUF_SMALL ''cpu  150 0 70 900 60 10 10 0'' = Some (''cpu  150 0 70 900 60 10 10 0'', [])"
  "fst (scanf cpu_stat_fmt (cstr ''cpu  150 0 70 900 60 10 10 0'')) =
     [A_u64 150, A_u64 0, A_u64 70, A_u64 900, A_u64 60, A_u64 10, A_u64 10]"
  by (simp_all add: clib_eval cpu_stat_fmt_def)

theorem cpu_collect_shares_witness:
  "\<exists>ctx' g'. cpu_collect (cpu_example_os ''cpu  150 0 70 900 60 10 10 0'') undefined cpu_example_ctx 1 =
     (0, ctx', g') \<and> unat g' = 200 \<and> unat (pl_user (cpu_last_payload ctx')) = 250"
proof -
  let ?l = "''cpu  150 0 70 900 60 10 10 0''"
  have "\<exists>ctx' g'. cpu_collect (cpu_example_os ?l) undefined cpu_example_ctx 1 = (0, ctx', g') \<and>
     unat g' = 200 \<and>
     (let p = cpu_last_payload ctx' in
        unat (pl_user p) = 1000 * 50 div 200 \<and> unat (pl_system p) = 1000 * 20 div 200 \<and>
        unat (pl_idle p) = 1000 * 100 div 200 \<and> unat (pl_iowait p) = 1000 * 20 div 200 \<and>
        unat (pl_irq p) = 1000 * 10 div 200 \<and>
        unat (pl_user p) + unat (pl_system p) + unat (pl_idle p) + unat (pl_iowait p) + unat (pl_irq p) \<le> 1000 \<and>
        996 \<le> unat (pl_user p) + unat (pl_system p) + unat (pl_idle p) + unat (pl_iowait p) + unat (pl_irq p))"
    by (rule cpu_collect_shares [OF _ _ _ cpu_example_line(1) cpu_example_line(2)])
      (simp_all add: cpu_example_os_def cpu_example_ctx_def cpu_update_def zero_cpu_ctx_def
        cpu_ctx_inv_def prev_sum_def)
  then show ?thesis by (auto simp: Let_def)
qed

end
