(* ===== verification/Double.thy ===== *)
theory Double
  imports Complex_Main Prelude
begin

text \<open>
  The IEEE 754 double arithmetic that \<^verbatim>\<open>mem.c\<close> uses on load averages: the double nearest to a
  decimal number (as \<^verbatim>\<open>%lf\<close> yields it), its product with \<^verbatim>\<open>100.0\<close>, and the conversion to
  \<^verbatim>\<open>uint16_t\<close>, which is undefined for values the type cannot hold. A double that is not
  negative is \<open>(q, e)\<close> for \<open>q * 2 ^ e\<close> with a 53-bit \<open>q\<close>, rounded to nearest, ties to even.
  The bounds of the exponent are left out: a number below them truncates to 0 and a number above
  them has no \<^verbatim>\<open>uint16_t\<close> value, with the bounds as without.
\<close>

section \<open>Definitions\<close>

fun bits :: "nat \<Rightarrow> nat" where
  "bits n = (if n = 0 then 0 else Suc (bits (n div 2)))"

declare bits.simps [simp del]

definition half_even :: "nat \<Rightarrow> nat \<Rightarrow> nat" where
  "half_even n d = (let q = n div d; r = n mod d
     in if d < 2 * r \<or> 2 * r = d \<and> odd q then q + 1 else q)"

text \<open>The fraction \<open>n / d\<close> divided by \<open>2 ^ e\<close>.\<close>

definition scaled :: "nat \<Rightarrow> nat \<Rightarrow> int \<Rightarrow> nat \<times> nat" where
  "scaled n d e = (if 0 \<le> e then (n, d * 2 ^ nat e) else (n * 2 ^ nat (- e), d))"

definition round_at :: "nat \<Rightarrow> nat \<Rightarrow> int \<Rightarrow> nat" where
  "round_at n d e = (let (n', d') = scaled n d e in half_even n' d')"

definition floor_at :: "nat \<Rightarrow> nat \<Rightarrow> int \<Rightarrow> nat" where
  "floor_at n d e = (let (n', d') = scaled n d e in n' div d')"

definition double_of_frac :: "nat \<Rightarrow> nat \<Rightarrow> nat \<times> int" where
  "double_of_frac n d =
     (let e = int (bits n) - int (bits d) - 53;
          e = (if 2 ^ 53 \<le> floor_at n d e then e + 1 else e)
      in (round_at n d e, e))"

text \<open>\<open>n * 10 ^ k\<close> as a double, and a double times \<^verbatim>\<open>100.0\<close>.\<close>

definition double_of_dec :: "nat \<Rightarrow> int \<Rightarrow> nat \<times> int" where
  "double_of_dec n k =
     (if 0 \<le> k then double_of_frac (n * 10 ^ nat k) 1 else double_of_frac n (10 ^ nat (- k)))"

definition double_x100 :: "nat \<times> int \<Rightarrow> nat \<times> int" where
  "double_x100 x = (case x of (q, e) \<Rightarrow>
     if 0 \<le> e then double_of_frac (100 * q * 2 ^ nat e) 1 else double_of_frac (100 * q) (2 ^ nat (- e)))"

definition double_trunc :: "nat \<times> int \<Rightarrow> nat" where
  "double_trunc x = (case x of (q, e) \<Rightarrow> if 0 \<le> e then q * 2 ^ nat e else q div 2 ^ nat (- e))"

definition u16_of_double :: "bool \<Rightarrow> nat \<times> int \<Rightarrow> u16 option" where
  "u16_of_double neg x =
     (let t = double_trunc x
      in if (if neg then t = 0 else t \<le> UINT16_MAX) then Some (of_nat t) else None)"

section \<open>Rounding error\<close>

definition val :: "nat \<times> int \<Rightarrow> real" where
  "val x = real (fst x) * 2 powi snd x"

lemma bits_bounds: "0 < n \<Longrightarrow> 2 ^ (bits n - 1) \<le> n \<and> n < 2 ^ bits n \<and> 0 < bits n"
proof (induction n rule: bits.induct)
  case (1 n)
  show ?case
  proof (cases "n div 2 = 0")
    case True
    with "1.prems" have "n = 1" by auto
    moreover have "bits 1 = 1" by (subst bits.simps) (simp add: bits.simps [of 0])
    ultimately show ?thesis by simp
  next
    case False
    then have "2 ^ (bits (n div 2) - 1) \<le> n div 2 \<and> n div 2 < 2 ^ bits (n div 2) \<and> 0 < bits (n div 2)"
      using "1.IH" "1.prems" by simp
    moreover have "bits n = Suc (bits (n div 2))"
      using "1.prems" by (simp add: bits.simps [of n])
    ultimately show ?thesis
      by (cases "bits (n div 2)") auto
  qed
qed

lemma half_even_error:
  assumes "0 < d"
  shows "\<bar>real (half_even n d) - real n / real d\<bar> \<le> 1 / 2" "n div d \<le> half_even n d"
proof -
  let ?q = "n div d" and ?r = "n mod d"
  have n: "real n = real ?q * real d + real ?r"
    by (metis div_mult_mod_eq of_nat_add of_nat_mult)
  have d: "real n / real d = real ?q + real ?r / real d"
    using assms by (simp add: n field_simps)
  show "\<bar>real (half_even n d) - real n / real d\<bar> \<le> 1 / 2"
  proof (cases "d < 2 * ?r \<or> 2 * ?r = d \<and> odd ?q")
    case True
    then have "real d \<le> 2 * real ?r" by linarith
    moreover have "real ?r < real d" using assms by simp
    ultimately have "1 / 2 \<le> real ?r / real d" "real ?r / real d \<le> 1"
      using assms by (simp_all add: field_simps)
    then show ?thesis
      using True d by (simp add: half_even_def Let_def abs_le_iff)
  next
    case False
    then have "2 * real ?r \<le> real d" by linarith
    then have "real ?r / real d \<le> 1 / 2" "0 \<le> real ?r / real d"
      using assms by (simp_all add: field_simps)
    moreover have "half_even n d = ?q"
      using False by (auto simp: half_even_def Let_def)
    ultimately show ?thesis
      using d by (simp add: abs_le_iff)
  qed
  show "n div d \<le> half_even n d"
    by (simp add: half_even_def Let_def)
qed

lemma scaled_frac:
  assumes "scaled n d e = (n', d')" "0 < d"
  shows "0 < d'" "real n' / real d' * 2 powi e = real n / real d"
proof -
  show "0 < d'"
    using assms by (auto simp: scaled_def split: if_splits)
  show "real n' / real d' * 2 powi e = real n / real d"
  proof (cases "0 \<le> e")
    case True
    then have "(2::real) powi e = 2 ^ nat e"
      by (simp add: power_int_def)
    with True assms show ?thesis
      by (auto simp: scaled_def)
  next
    case False
    then have "(2::real) powi e = inverse (2 ^ nat (- e))"
      by (simp add: power_int_def field_simps)
    with False assms show ?thesis
      by (auto simp: scaled_def)
  qed
qed

lemma floor_at_real: "0 < d \<Longrightarrow> floor_at n d e = nat \<lfloor>real n / real d / 2 powi e\<rfloor>"
proof -
  assume d: "0 < d"
  obtain n' d' where s: "scaled n d e = (n', d')" by (cases "scaled n d e")
  have "real n / real d / 2 powi e = real n' / real d'"
    using scaled_frac(2) [OF s d, symmetric] by simp
  then show ?thesis
    by (simp add: floor_at_def s floor_divide_of_nat_eq)
qed

lemma round_at_error:
  assumes "0 < d"
  shows "\<bar>real (round_at n d e) - real n / real d / 2 powi e\<bar> \<le> 1 / 2"
proof -
  obtain n' d' where s: "scaled n d e = (n', d')" by (cases "scaled n d e")
  have "real n / real d / 2 powi e = real n' / real d'"
    using scaled_frac(2) [OF s assms, symmetric] by simp
  then show ?thesis
    using half_even_error(1) [OF scaled_frac(1) [OF s assms], of n'] by (simp add: round_at_def s)
qed

text \<open>The first exponent tried leaves at least 53 bits before the point.\<close>

lemma quotient_magnitude:
  assumes "0 < n" "0 < d"
  shows "2 powi (int (bits n) - int (bits d) - 1) < real n / real d"
proof -
  have n: "2 ^ (bits n - 1) \<le> real n" "0 < bits n" and d: "real d < 2 ^ bits d"
    using bits_bounds [OF assms(1)] bits_bounds [OF assms(2)]
    by (metis of_nat_le_iff of_nat_numeral of_nat_power, simp,
        metis of_nat_less_iff of_nat_numeral of_nat_power)
  have "(2::real) powi (int (bits n) - int (bits d) - 1) = 2 powi (int (bits n - 1) - int (bits d))"
    using n(2) by (simp add: of_nat_diff algebra_simps)
  also have "\<dots> = 2 ^ (bits n - 1) / 2 ^ bits d"
    by (simp add: power_int_diff)
  also have "\<dots> \<le> real n / 2 ^ bits d"
    using n(1) by (simp add: divide_right_mono)
  also have "\<dots> < real n / real d"
    using d assms by (simp add: divide_strict_left_mono)
  finally show ?thesis .
qed

lemma double_of_frac_error:
  assumes "0 < d"
  shows "\<bar>val (double_of_frac n d) - real n / real d\<bar> \<le> real n / real d / 2 ^ 53"
proof (cases "n = 0")
  case True
  have "half_even 0 x = 0" for x by (simp add: half_even_def)
  then have "round_at 0 d e = 0" for e by (simp add: round_at_def scaled_def)
  with True show ?thesis by (simp add: double_of_frac_def val_def Let_def)
next
  case False
  let ?x = "real n / real d"
  let ?base = "int (bits n) - int (bits d) - 53"
  let ?e = "if 2 ^ 53 \<le> floor_at n d ?base then ?base + 1 else ?base"
  have "(2::real) powi (int (bits n) - int (bits d) - 1) = 2 ^ 52 * 2 powi ?base"
    using power_int_add [of "2::real" 52 ?base] by (simp add: algebra_simps)
  then have e0: "2 ^ 52 < ?x / 2 powi ?base"
    using quotient_magnitude [of n d] False assms
    by (simp add: pos_less_divide_eq ac_simps)
  have X: "2 ^ 52 \<le> ?x / 2 powi ?e"
  proof (cases "2 ^ 53 \<le> floor_at n d ?base")
    case True
    then have "real (2 ^ 53) \<le> real (nat \<lfloor>?x / 2 powi ?base\<rfloor>)"
      by (simp only: of_nat_le_iff floor_at_real [OF assms])
    also have "\<dots> \<le> ?x / 2 powi ?base"
      by (rule of_nat_floor) simp
    finally have "2 ^ 53 \<le> ?x / 2 powi ?base" by simp
    then have "2 ^ 53 / 2 \<le> ?x / 2 powi ?base / 2"
      by (rule divide_right_mono) simp
    then have "2 ^ 52 \<le> ?x / 2 powi ?base / 2"
      by simp
    also have "?x / 2 powi ?base / 2 = ?x / 2 powi (?base + 1)"
      using power_int_add [of "2::real" ?base 1] by (simp add: mult.assoc)
    finally show ?thesis using True by simp
  next
    case False
    with e0 show ?thesis by simp
  qed
  have r: "\<bar>real (round_at n d ?e) - ?x / 2 powi ?e\<bar> \<le> ?x / 2 powi ?e / 2 ^ 53"
    using round_at_error [OF assms, of n ?e] divide_right_mono [OF X, of "2 ^ 53"]
    by (elim order_trans) simp
  have "val (double_of_frac n d) - ?x = (real (round_at n d ?e) - ?x / 2 powi ?e) * 2 powi ?e"
    by (simp add: double_of_frac_def val_def Let_def left_diff_distrib)
  then have "\<bar>val (double_of_frac n d) - ?x\<bar> = \<bar>real (round_at n d ?e) - ?x / 2 powi ?e\<bar> * 2 powi ?e"
    by (simp only: abs_mult) simp
  also have "\<dots> \<le> ?x / 2 powi ?e / 2 ^ 53 * 2 powi ?e"
    using r by (intro mult_right_mono) auto
  finally show ?thesis by simp
qed

section \<open>A decimal times 100, truncated\<close>

definition dec_value :: "nat \<Rightarrow> int \<Rightarrow> real" where
  "dec_value n k = real n * 10 powi k"

lemma double_of_dec_error:
  "\<bar>val (double_of_dec n k) - dec_value n k\<bar> \<le> dec_value n k / 2 ^ 53"
proof (cases "0 \<le> k")
  case True
  then have "dec_value n k = real (n * 10 ^ nat k) / real 1"
    by (simp add: dec_value_def power_int_def)
  with True show ?thesis
    using double_of_frac_error [of 1 "n * 10 ^ nat k"] by (simp add: double_of_dec_def)
next
  case False
  then have "dec_value n k = real n / real (10 ^ nat (- k))"
    by (simp add: dec_value_def power_int_def field_simps)
  with False show ?thesis
    using double_of_frac_error [of "10 ^ nat (- k)" n] by (simp add: double_of_dec_def)
qed

lemma double_x100_error: "\<bar>val (double_x100 x) - 100 * val x\<bar> \<le> 100 * val x / 2 ^ 53"
proof (cases x)
  case (Pair q e)
  show ?thesis
  proof (cases "0 \<le> e")
    case True
    then have "100 * val x = real (100 * q * 2 ^ nat e) / real 1"
      by (simp add: Pair val_def power_int_def)
    with True show ?thesis
      using double_of_frac_error [of 1 "100 * q * 2 ^ nat e"] by (simp add: double_x100_def Pair mult.assoc)
  next
    case False
    then have "100 * val x = real (100 * q) / real (2 ^ nat (- e))"
      by (simp add: Pair val_def power_int_def field_simps)
    with False show ?thesis
      using double_of_frac_error [of "2 ^ nat (- e)" "100 * q"] by (simp add: double_x100_def Pair)
  qed
qed

lemma double_trunc_floor: "double_trunc x = nat \<lfloor>val x\<rfloor>"
proof (cases x)
  case (Pair q e)
  show ?thesis
  proof (cases "0 \<le> e")
    case True
    then have "val x = real (q * 2 ^ nat e)"
      by (simp add: Pair val_def power_int_def)
    then have "\<lfloor>val x\<rfloor> = int (q * 2 ^ nat e)"
      by (simp only: floor_of_nat)
    then have "nat \<lfloor>val x\<rfloor> = q * 2 ^ nat e" by (simp only: nat_int)
    with True show ?thesis by (simp add: double_trunc_def Pair)
  next
    case False
    then have "val x = real q / real (2 ^ nat (- e))"
      by (simp add: Pair val_def power_int_def field_simps)
    with False show ?thesis
      by (simp only: floor_divide_of_nat_eq) (simp add: double_trunc_def Pair)
  qed
qed

definition load_x100 :: "nat \<Rightarrow> int \<Rightarrow> nat \<times> int" where
  "load_x100 n k = double_x100 (double_of_dec n k)"

text \<open>Two roundings: the scaled load differs from the exact one by less than one part in
  \<open>2 ^ 51\<close>.\<close>

lemma load_x100_error:
  "\<bar>val (load_x100 n k) - 100 * dec_value n k\<bar> \<le> 100 * dec_value n k / 2 ^ 51"
proof -
  let ?v = "dec_value n k" and ?a = "val (double_of_dec n k)" and ?b = "val (load_x100 n k)"
  have v: "0 \<le> ?v" by (simp add: dec_value_def)
  have a: "\<bar>?a - ?v\<bar> \<le> ?v / 2 ^ 53" by (rule double_of_dec_error)
  from abs_le_D1 [OF this] have a2: "?a \<le> 2 * ?v" using v by simp
  have b: "\<bar>?b - 100 * ?a\<bar> \<le> 100 * ?a / 2 ^ 53"
    using double_x100_error by (simp add: load_x100_def)
  have "\<bar>?b - 100 * ?v\<bar> \<le> \<bar>?b - 100 * ?a\<bar> + 100 * \<bar>?a - ?v\<bar>"
    using abs_triangle_ineq [of "?b - 100 * ?a" "100 * (?a - ?v)"]
      abs_mult [of 100 "?a - ?v"] by (simp add: right_diff_distrib)
  also have "\<dots> \<le> 100 * (2 * ?v) / 2 ^ 53 + 100 * (?v / 2 ^ 53)"
  proof (rule add_mono)
    have "100 * ?a / 2 ^ 53 \<le> 100 * (2 * ?v) / 2 ^ 53"
      using a2 by (intro divide_right_mono) auto
    with b show "\<bar>?b - 100 * ?a\<bar> \<le> 100 * (2 * ?v) / 2 ^ 53" by linarith
    show "100 * \<bar>?a - ?v\<bar> \<le> 100 * (?v / 2 ^ 53)" using a by (rule mult_left_mono) simp
  qed
  also have "\<dots> \<le> 100 * ?v / 2 ^ 51"
    using v by simp
  finally show ?thesis .
qed

text \<open>For a load printed with two decimals the truncated product is exact or one hundredth
  short.\<close>

lemma double_trunc_load:
  assumes "n < 65536"
  shows "double_trunc (load_x100 n (- 2)) \<in> {n - 1, n}"
proof -
  have v: "100 * dec_value n (- 2) = real n"
    by (simp add: dec_value_def power_int_def power2_eq_square)
  have "\<bar>val (load_x100 n (- 2)) - real n\<bar> < 1"
    using abs_le_D1 [OF load_x100_error, of n "- 2"] abs_le_D2 [OF load_x100_error, of n "- 2"] assms
    unfolding v by (simp add: abs_less_iff)
  then have "int n - 1 \<le> \<lfloor>val (load_x100 n (- 2))\<rfloor>" "\<lfloor>val (load_x100 n (- 2))\<rfloor> \<le> int n"
    by linarith+
  then show ?thesis
    by (auto simp: double_trunc_floor)
qed

text \<open>From \<open>655.36\<close> on the truncated product is no \<^verbatim>\<open>uint16_t\<close> any more. (At \<open>655.36\<close> itself both
  roundings are upwards or exact.)\<close>

lemma double_trunc_load_65536: "double_trunc (load_x100 65536 (- 2)) = 65536"
  by (simp add: load_x100_def double_of_dec_def double_x100_def double_of_frac_def
      double_trunc_def round_at_def floor_at_def scaled_def half_even_def Let_def bits.simps)

lemma double_trunc_load_large:
  assumes "65536 \<le> n"
  shows "65536 \<le> double_trunc (load_x100 n (- 2))"
proof (cases "n = 65536")
  case True
  then show ?thesis by (simp add: double_trunc_load_65536)
next
  case False
  have v: "100 * dec_value n (- 2) = real n"
    by (simp add: dec_value_def power_int_def power2_eq_square)
  have "65537 * (1 - 1 / 2 ^ 51) \<le> real n * (1 - 1 / 2 ^ 51)"
    using assms False by (intro mult_right_mono) simp_all
  also have "\<dots> \<le> val (load_x100 n (- 2))"
    using abs_le_D2 [OF load_x100_error, of n "- 2"] unfolding v by (simp add: algebra_simps)
  finally have "65536 \<le> val (load_x100 n (- 2))" by simp
  then show ?thesis
    by (simp add: double_trunc_floor le_nat_iff le_floor_iff)
qed

end
