(* ===== verification/Mem.thy ===== *)
theory Mem
  imports Collector Double
begin

text \<open>
  \<^verbatim>\<open>agent/src/mem.c\<close>: memory figures from \<^verbatim>\<open>/proc/meminfo\<close> and load averages from
  \<^verbatim>\<open>/proc/loadavg\<close>. The loop over \<^verbatim>\<open>/proc/meminfo\<close> is proved equal to a loop over the
  table of keys and values the kernel prints there; the load conversion goes through doubles.
\<close>

section \<open>State\<close>

record mem_payload =
  mem_total_kb :: u32
  mem_free_kb :: u32
  mem_available_kb :: u32

record load_payload =
  load1_x100 :: u16
  load5_x100 :: u16
  load15_x100 :: u16

record mem_ctx =
  last_mem :: mem_payload
  last_load :: load_payload

type_synonym mem_col = "mem_ctx option"

definition zero_mem_payload :: mem_payload where
  "zero_mem_payload = \<lparr>mem_total_kb = 0, mem_free_kb = 0, mem_available_kb = 0\<rparr>"

definition zero_load_payload :: load_payload where
  "zero_load_payload = \<lparr>load1_x100 = 0, load5_x100 = 0, load15_x100 = 0\<rparr>"

section \<open>Operations\<close>

definition mem_init :: "bool \<Rightarrow> agent_config \<Rightarrow> mem_col \<Rightarrow> (int \<times> mem_col) option" where
  "mem_init alloc cfg col =
     (if \<not> alloc then Some (- 1, col)
      else Some (0, Some \<lparr>last_mem = zero_mem_payload, last_load = zero_load_payload\<rparr>))"

definition mem_destroy :: "mem_col \<Rightarrow> mem_col" where
  "mem_destroy col = None"

text \<open>The body of the loop over \<^verbatim>\<open>/proc/meminfo\<close>: which variable a line assigns.\<close>

definition mem_assign :: "string \<Rightarrow> u64 \<Rightarrow> u64 \<times> u64 \<times> u64 \<Rightarrow> u64 \<times> u64 \<times> u64" where
  "mem_assign key value vars = (case vars of (totalv, freev, avail) \<Rightarrow>
     if key = ''MemTotal:'' then (value, freev, avail)
     else if key = ''MemFree:'' then (totalv, value, avail)
     else if key = ''MemAvailable:'' then (totalv, freev, value)
     else (totalv, freev, avail))"

definition mem_complete :: "u64 \<times> u64 \<times> u64 \<Rightarrow> bool" where
  "mem_complete vars \<longleftrightarrow> (case vars of (totalv, freev, avail) \<Rightarrow> totalv \<noteq> 0 \<and> freev \<noteq> 0 \<and> avail \<noteq> 0)"

text \<open>\<^verbatim>\<open>while (fscanf(fp, "%63s %lu", key, &value) == 2) { ... }\<close>\<close>

abbreviation (input) meminfo_fmt :: "conv list" where
  "meminfo_fmt \<equiv> [C_s 63, C_ws, C_llu]"

function mem_scan :: "u64 \<times> u64 \<times> u64 \<Rightarrow> string \<Rightarrow> u64 \<times> u64 \<times> u64" where
  "mem_scan vars fp =
     (case scanf meminfo_fmt fp of
        ([A_str key, A_u64 value], rest) \<Rightarrow>
          (let vars = mem_assign (cstr key) value vars
           in if mem_complete vars then vars else mem_scan vars (skip_line rest))
      | _ \<Rightarrow> vars)"
  by pat_completeness auto
termination
proof (relation "measure (\<lambda>(vars, fp). length fp)", goal_cases)
  case 1
  show ?case by simp
next
  case (2 vars fp)
  then show ?case
    by (auto simp del: scanf.simps dest!: sym [of _ "scanf _ _"] scanf_word_skip)
qed

declare mem_scan.simps [simp del]

text \<open>\<^verbatim>\<open>(uint16_t)(load * 100.0)\<close>\<close>

definition load_u16 :: "arg \<Rightarrow> u16 option" where
  "load_u16 a = (case a of A_dec neg n k \<Rightarrow> u16_of_double neg (load_x100 n k) | _ \<Rightarrow> None)"

definition loadavg_fmt :: "conv list" where
  "loadavg_fmt = [C_lf, C_ws, C_lf, C_ws, C_lf]"

text \<open>The three loads, or zeros when the line does not parse.\<close>

definition mem_loads :: "string \<Rightarrow> arg \<times> arg \<times> arg" where
  "mem_loads fp = (case fst (scanf loadavg_fmt fp) of
       [load1, load5, load15] \<Rightarrow> (load1, load5, load15)
     | _ \<Rightarrow> (A_dec False 0 0, A_dec False 0 0, A_dec False 0 0))"

definition mem_collect :: "os \<Rightarrow> agent_config \<Rightarrow> mem_ctx \<Rightarrow> (int \<times> mem_ctx) option" where
  "mem_collect os cfg ctx =
     (case os_file os ''/proc/meminfo'' of
        None \<Rightarrow> Some (- 1, ctx\<lparr>last_mem := zero_mem_payload\<rparr>)
      | Some meminfo_fp \<Rightarrow>
        (let (totalv, freev, avail) = mem_scan (0, 0, 0) meminfo_fp;
             ctx = ctx\<lparr>last_mem := \<lparr>mem_total_kb = ucast totalv, mem_free_kb = ucast freev,
                         mem_available_kb = ucast avail\<rparr>\<rparr>
         in case os_file os ''/proc/loadavg'' of
              None \<Rightarrow> Some (- 1, ctx\<lparr>last_load := zero_load_payload\<rparr>)
            | Some load_fp \<Rightarrow>
              (let (load1, load5, load15) = mem_loads load_fp
               in do { l1 \<leftarrow> load_u16 load1; l5 \<leftarrow> load_u16 load5; l15 \<leftarrow> load_u16 load15;
                       Some (0, ctx\<lparr>last_load :=
                         \<lparr>load1_x100 = l1, load5_x100 = l5, load15_x100 = l15\<rparr>\<rparr>) })))"

definition mem_payload_bytes :: "mem_ctx \<Rightarrow> u8 list" where
  "mem_payload_bytes ctx =
     (let payload = [];
          payload = buf_put_be_u32 payload (mem_total_kb (last_mem ctx));
          payload = buf_put_be_u32 payload (mem_free_kb (last_mem ctx));
          payload = buf_put_be_u32 payload (mem_available_kb (last_mem ctx));
          payload = buf_put_be_u16 payload (load1_x100 (last_load ctx));
          payload = buf_put_be_u16 payload (load5_x100 (last_load ctx));
          payload = buf_put_be_u16 payload (load15_x100 (last_load ctx))
      in payload)"

definition mem_push :: "mem_ctx \<Rightarrow> tlv_writer option \<Rightarrow> (int \<times> tlv_writer option) option" where
  "mem_push ctx wrt =
     (let payload = mem_payload_bytes ctx
      in tlv_put wrt TF_TYPE_MEM (Some payload) (of_nat (length payload)))"

definition mem_collect_api ::
  "os \<Rightarrow> agent_config \<Rightarrow> sample_context option \<Rightarrow> mem_col \<Rightarrow> (int \<times> sample_context option \<times> mem_col) option"
where
  "mem_collect_api os cfg sctx col =
     (case col of
        None \<Rightarrow> Some (- 1, sctx, col)
      | Some ctx \<Rightarrow> do { (rc, ctx') \<leftarrow> mem_collect os cfg ctx; Some (rc, sctx, Some ctx') })"

definition mem_push_api ::
  "mem_col \<Rightarrow> tlv_writer option \<Rightarrow> (int \<times> tlv_writer option \<times> mem_col) option" where
  "mem_push_api col wrt =
     (case col of
        None \<Rightarrow> Some (- 1, wrt, col)
      | Some ctx \<Rightarrow> do { (rc, wrt') \<leftarrow> mem_push ctx wrt; Some (rc, wrt', col) })"

text \<open>\<^verbatim>\<open>"%u.%02u"\<close> of a load in hundredths.\<close>

definition mem_print_load :: "u16 \<Rightarrow> string" where
  "mem_print_load v = show_u (unat v div 100) @ ''.'' @ pad_left CHR ''0'' 2 (show_u (unat v mod 100))"

definition mem_print :: "mem_col \<Rightarrow> string" where
  "mem_print col =
     (case col of
        None \<Rightarrow> []
      | Some ctx \<Rightarrow>
        (let m = last_mem ctx; l = last_load ctx;
             mem_used = (if mem_total_kb m > mem_available_kb m
                         then mem_total_kb m - mem_available_kb m else 0)
         in ''MEM : total='' @ show_u (unat (mem_total_kb m)) @ '' kB free='' @
            show_u (unat (mem_free_kb m)) @ '' kB avail='' @ show_u (unat (mem_available_kb m)) @
            '' kB used='' @ show_u (unat mem_used) @ '' kB'' @ [NEWLINE] @
            ''LOAD: 1m='' @ mem_print_load (load1_x100 l) @ '' 5m='' @ mem_print_load (load5_x100 l) @
            '' 15m='' @ mem_print_load (load15_x100 l) @ [NEWLINE]))"

section \<open>The table of /proc/meminfo\<close>

text \<open>A line of \<^verbatim>\<open>/proc/meminfo\<close>: a key that ends in a colon, blanks, a number and the rest
  of the line (a unit, or nothing).\<close>

type_synonym meminfo_entry = "string \<times> nat \<times> nat \<times> string"

definition meminfo_line :: "meminfo_entry \<Rightarrow> string" where
  "meminfo_line e = (case e of (key, pad, v, u) \<Rightarrow>
     key @ replicate (Suc pad) CHR '' '' @ show_u v @ u @ [NEWLINE])"

definition meminfo_entry_ok :: "meminfo_entry \<Rightarrow> bool" where
  "meminfo_entry_ok e = (case e of (key, pad, v, u) \<Rightarrow>
     key \<noteq> [] \<and> length key \<le> 63 \<and> list_all (\<lambda>c. \<not> isspace c) key \<and> NUL \<notin> set key \<and>
     v \<le> ULLONG_MAX \<and> NEWLINE \<notin> set u \<and> (u = [] \<or> \<not> isdigit (hd u)))"

text \<open>What the loop computes, on the table instead of the text.\<close>

fun mem_table :: "u64 \<times> u64 \<times> u64 \<Rightarrow> meminfo_entry list \<Rightarrow> u64 \<times> u64 \<times> u64" where
  "mem_table vars [] = vars"
| "mem_table vars ((key, pad, v, u) # es) =
     (let vars = mem_assign key (of_nat v) vars
      in if mem_complete vars then vars else mem_table vars es)"

lemma scanf_meminfo_line:
  assumes "meminfo_entry_ok (key, pad, v, u)"
  shows "scanf meminfo_fmt (meminfo_line (key, pad, v, u) @ rest) =
    ([A_str key, A_u64 (of_nat v)], u @ NEWLINE # rest)"
proof -
  let ?r = "u @ NEWLINE # rest"
  have key: "scan1 (C_s 63) (key @ CHR '' '' # replicate pad CHR '' '' @ show_u v @ ?r) =
      Some ([A_str key], CHR '' '' # replicate pad CHR '' '' @ show_u v @ ?r)"
    using assms scan_word [of "[]" key 63] by (simp add: meminfo_entry_ok_def)
  have "?r = [] \<or> \<not> isdigit (hd ?r)"
    using assms by (cases u) (auto simp: meminfo_entry_ok_def)
  then have num: "scan_integer (show_u v @ ?r) = Some (False, show_u v, ?r)"
    using scan_integer_show_u [of "[]" ?r] by simp
  have "dropWhile isspace (CHR '' '' # replicate pad CHR '' '' @ show_u v @ ?r) = show_u v @ ?r"
    using show_u_digits [of v]
    by (cases "show_u v") (auto simp: dropWhile_append isdigit_not_special)
  with key num assms show ?thesis
    by (simp add: meminfo_line_def to_ull_def Let_def meminfo_entry_ok_def)
qed

lemma skip_line_unit: "NEWLINE \<notin> set u \<Longrightarrow> skip_line (u @ NEWLINE # rest) = rest"
  by (induction u) (auto simp: skip_line_def)

lemma mem_scan_table:
  "list_all meminfo_entry_ok es \<Longrightarrow> mem_scan vars (concat (map meminfo_line es)) = mem_table vars es"
proof (induction es arbitrary: vars)
  case Nil
  have "scanf meminfo_fmt [] = ([], [])" by simp
  then show ?case by (simp add: mem_scan.simps del: scanf.simps)
next
  case (Cons e es)
  obtain key pad v u where e: "e = (key, pad, v, u)" by (cases e)
  have ok: "meminfo_entry_ok (key, pad, v, u)" using Cons.prems e by simp
  then have "cstr key = key" "NEWLINE \<notin> set u"
    by (simp_all add: meminfo_entry_ok_def cstr_id)
  with scanf_meminfo_line [OF ok] Cons show ?case
    by (subst mem_scan.simps) (simp add: e skip_line_unit Let_def del: scanf.simps)
qed

text \<open>A variable of the loop either holds its final value or is still 0 and its line is to come.\<close>

definition settled_or_pending :: "meminfo_entry list \<Rightarrow> string \<Rightarrow> u64 \<Rightarrow> nat \<Rightarrow> bool" where
  "settled_or_pending es k x v \<longleftrightarrow>
     x = of_nat v \<and> k \<notin> fst ` set es \<or> x = 0 \<and> (\<exists>p u. map_of es k = Some (p, v, u))"

lemma settled_or_pending_step:
  "settled_or_pending ((key, p, v, u) # es) k x n \<Longrightarrow> key \<notin> fst ` set es \<Longrightarrow>
     settled_or_pending es k (if key = k then of_nat v else x) n"
  by (auto simp: settled_or_pending_def split: if_splits)

lemma mem_table_settles:
  assumes "distinct (map fst es)" "settled_or_pending es ''MemTotal:'' x t"
    "settled_or_pending es ''MemFree:'' y f" "settled_or_pending es ''MemAvailable:'' z a"
    "(of_nat t :: u64) \<noteq> 0" "(of_nat f :: u64) \<noteq> 0" "(of_nat a :: u64) \<noteq> 0"
    "\<not> mem_complete (x, y, z)"
  shows "mem_table (x, y, z) es = (of_nat t, of_nat f, of_nat a)"
  using assms
proof (induction es arbitrary: x y z)
  case Nil
  then show ?case by (auto simp: settled_or_pending_def mem_complete_def)
next
  case (Cons e es)
  obtain key p v u where e: "e = (key, p, v, u)" by (cases e)
  let ?x = "if key = ''MemTotal:'' then of_nat v else x"
  let ?y = "if key = ''MemFree:'' then of_nat v else y"
  let ?z = "if key = ''MemAvailable:'' then of_nat v else z"
  have assign: "mem_assign key (of_nat v) (x, y, z) = (?x, ?y, ?z)"
    by (auto simp: mem_assign_def)
  have key: "key \<notin> fst ` set es" and d: "distinct (map fst es)"
    using Cons.prems(1) by (auto simp: e)
  have s: "settled_or_pending es ''MemTotal:'' ?x t" "settled_or_pending es ''MemFree:'' ?y f"
    "settled_or_pending es ''MemAvailable:'' ?z a"
    using Cons.prems(2-4) key unfolding e by (blast intro: settled_or_pending_step)+
  show ?case
  proof (cases "mem_complete (?x, ?y, ?z)")
    case True
    then have "?x = of_nat t" "?y = of_nat f" "?z = of_nat a"
      using s unfolding mem_complete_def settled_or_pending_def by blast+
    with True show ?thesis
      by (simp only: e mem_table.simps assign Let_def if_True)
  next
    case False
    then show ?thesis
      using Cons.IH [OF d s Cons.prems(5-7) False] by (simp only: e mem_table.simps assign Let_def if_False)
  qed
qed

section \<open>The memory collector meets the interface\<close>

text \<open>The conversion of a load is defined when the integral part of its product with \<^verbatim>\<open>100.0\<close>, as a
  double, is a \<^verbatim>\<open>uint16_t\<close>. It takes place when both files can be read.\<close>

definition load_fits :: "arg \<Rightarrow> bool" where
  "load_fits a \<longleftrightarrow> (case a of
     A_dec neg n k \<Rightarrow> double_trunc (load_x100 n k) \<le> (if neg then 0 else UINT16_MAX) | _ \<Rightarrow> False)"

definition loads_fit :: "os \<Rightarrow> bool" where
  "loads_fit os \<longleftrightarrow> (case (os_file os ''/proc/meminfo'', os_file os ''/proc/loadavg'') of
     (Some m, Some l) \<Rightarrow> (case mem_loads l of (load1, load5, load15) \<Rightarrow> load_fits load1 \<and> load_fits load5 \<and> load_fits load15)
   | _ \<Rightarrow> True)"

lemma load_u16_fits: "(\<exists>v. load_u16 a = Some v) \<longleftrightarrow> load_fits a"
  by (auto simp: load_fits_def load_u16_def u16_of_double_def Let_def split: arg.splits)

lemma mem_collect_defined: "(\<exists>rc ctx'. mem_collect os cfg ctx = Some (rc, ctx')) \<longleftrightarrow> loads_fit os"
proof (cases "os_file os ''/proc/meminfo'' = None \<or> os_file os ''/proc/loadavg'' = None")
  case True
  then show ?thesis
    by (auto simp: mem_collect_def loads_fit_def case_prod_beta Let_def split: option.split)
next
  case False
  then obtain m l where "os_file os ''/proc/meminfo'' = Some m" "os_file os ''/proc/loadavg'' = Some l"
    by auto
  moreover obtain a b c where "mem_loads l = (a, b, c)" by (cases "mem_loads l")
  ultimately show ?thesis
    by (auto simp: mem_collect_def loads_fit_def case_prod_beta Let_def bind_eq_Some_conv simp flip: load_u16_fits)
qed

lemma mem_collect_undefined: "mem_collect os cfg ctx = None \<longleftrightarrow> \<not> loads_fit os"
  using mem_collect_defined [of os cfg ctx] by (cases "mem_collect os cfg ctx") auto

interpretation mem: collector mem_init mem_destroy mem_collect_api mem_push_api "\<lambda>_. True"
  "\<lambda>s. s \<noteq> None" loads_fit
proof unfold_locales
  fix s :: mem_col and cfg os sctx
  assume "loads_fit os"
  then show "\<exists>rc sctx' s'. mem_collect_api os cfg sctx s = Some (rc, sctx', s') \<and> True \<and>
      (sctx' = None \<longleftrightarrow> sctx = None) \<and> (s' \<noteq> None \<longleftrightarrow> s \<noteq> None)"
    using mem_collect_defined [of os cfg "the s"]
    by (cases s) (auto simp: mem_collect_api_def)
next
  fix s :: mem_col and w
  assume w: "wf_writer w"
  show "\<exists>rc w' s' ts. mem_push_api s (Some w) = Some (rc, Some w', s') \<and> True \<and>
      (s' \<noteq> None \<longleftrightarrow> s \<noteq> None) \<and> appends_tlvs w w' ts"
  proof (cases s)
    case None
    with appends_nothing [OF w] show ?thesis by (auto simp: mem_push_api_def)
  next
    case (Some ctx)
    obtain rc w' ts where "mem_push ctx (Some w) = Some (rc, Some w')" "appends_tlvs w w' ts"
      using tlv_put_payload [OF w] by (metis mem_push_def)
    with Some show ?thesis by (auto simp: mem_push_api_def)
  qed
qed (auto simp: mem_init_def mem_destroy_def mem_push_api_def)

lemma length_mem_payload_bytes [simp, len_simps]: "length (mem_payload_bytes ctx) = 18"
  by (simp add: mem_payload_bytes_def)

section \<open>Properties\<close>

text \<open>C10: For every \<^verbatim>\<open>/proc/meminfo\<close> in the kernel's format that lists the three figures once and
  not as zero, wherever they stand among any other lines, \<^verbatim>\<open>mem_collect\<close> stores exactly these
  figures (as 32-bit numbers), unless the conversion of a load is undefined.\<close>

theorem mem_collect_meminfo:
  assumes meminfo: "os_file os ''/proc/meminfo'' = Some (concat (map meminfo_line es))"
    and es: "list_all meminfo_entry_ok es" "distinct (map fst es)"
    and total: "map_of es ''MemTotal:'' = Some (p1, t, u1)" "0 < t" "t \<le> ULLONG_MAX"
    and free: "map_of es ''MemFree:'' = Some (p2, f, u2)" "0 < f" "f \<le> ULLONG_MAX"
    and avail: "map_of es ''MemAvailable:'' = Some (p3, a, u3)" "0 < a" "a \<le> ULLONG_MAX"
    and load: "loads_fit os"
  shows "\<exists>rc ctx'. mem_collect os cfg ctx = Some (rc, ctx') \<and>
    last_mem ctx' = \<lparr>mem_total_kb = of_nat t, mem_free_kb = of_nat f, mem_available_kb = of_nat a\<rparr>"
proof -
  have "mem_scan (0, 0, 0) (concat (map meminfo_line es)) = (of_nat t, of_nat f, of_nat a)"
    unfolding mem_scan_table [OF es(1)] using total free avail
    by (intro mem_table_settles [OF es(2)])
      (auto simp: settled_or_pending_def mem_complete_def of_nat_u64_nonzero)
  moreover obtain rc ctx' where "mem_collect os cfg ctx = Some (rc, ctx')"
    using mem_collect_defined load by blast
  ultimately show ?thesis
    using meminfo by (auto simp: mem_collect_def Let_def bind_eq_Some_conv
        ucast_of_nat_u64_u32 case_prod_beta split: option.splits)
qed

definition meminfo_example :: "meminfo_entry list" where
  "meminfo_example = [(''MemTotal:'', 1, 8000, '' kB''), (''HugePages_Total:'', 0, 0, []),
     (''MemAvailable:'', 2, 5000, '' kB''), (''MemFree:'', 3, 2000, '' kB'')]"

definition mem_example_os :: "string \<Rightarrow> string option \<Rightarrow> os" where
  "mem_example_os m l = \<lparr>os_file = (\<lambda>p. if p = ''/proc/meminfo'' then Some m
       else if p = ''/proc/loadavg'' then l else None),
     os_dir = (\<lambda>_. None), os_statvfs = (\<lambda>_. None), os_monotonic = None, os_time = 0,
     os_time_after_scan = 0, os_nprocessors = 1, os_pagesize = 4096\<rparr>"

theorem mem_collect_meminfo_witness:
  "\<exists>rc ctx'. mem_collect (mem_example_os (concat (map meminfo_line meminfo_example)) None) undefined
      \<lparr>last_mem = zero_mem_payload, last_load = zero_load_payload\<rparr> = Some (rc, ctx') \<and>
    last_mem ctx' = \<lparr>mem_total_kb = of_nat 8000, mem_free_kb = of_nat 2000, mem_available_kb = of_nat 5000\<rparr>"
  by (rule mem_collect_meminfo [where es = meminfo_example])
    (simp_all add: mem_example_os_def meminfo_example_def meminfo_entry_ok_def loads_fit_def
      isspace_def isdigit_def)

text \<open>C28: The load averages are exact up to the last hundredth: for loads below 655.36 printed with
  two decimals, \<^verbatim>\<open>mem_collect\<close> succeeds and each stored value is the printed number of hundredths
  or one less (the product of a double by 100.0 is truncated). With a load of 655.36 or more the
  conversion to \<^verbatim>\<open>uint16_t\<close> is undefined.\<close>

theorem mem_collect_load:
  assumes m: "os_file os ''/proc/meminfo'' = Some m" and l: "os_file os ''/proc/loadavg'' = Some l"
    and loads: "fst (scanf loadavg_fmt l) = [A_dec False n1 (- 2), A_dec False n5 (- 2), A_dec False n15 (- 2)]"
  shows "(if n1 < 65536 \<and> n5 < 65536 \<and> n15 < 65536
     then \<exists>ctx'. mem_collect os cfg ctx = Some (0, ctx') \<and>
       unat (load1_x100 (last_load ctx')) \<in> {n1 - 1, n1} \<and>
       unat (load5_x100 (last_load ctx')) \<in> {n5 - 1, n5} \<and>
       unat (load15_x100 (last_load ctx')) \<in> {n15 - 1, n15}
     else mem_collect os cfg ctx = None)"
proof -
  have one: "\<exists>v. load_u16 (A_dec False n (- 2)) = Some v \<and> unat v \<in> {n - 1, n}" if "n < 65536" for n
  proof -
    have t: "double_trunc (load_x100 n (- 2)) \<in> {n - 1, n}"
      using that by (rule double_trunc_load)
    then have "load_u16 (A_dec False n (- 2)) = Some (of_nat (double_trunc (load_x100 n (- 2))))"
      using that by (auto simp: load_u16_def u16_of_double_def Let_def)
    then show ?thesis
      using that t by (auto simp: unat_of_nat)
  qed
  have large: "\<not> load_fits (A_dec False n (- 2))" if "\<not> n < 65536" for n
    using that double_trunc_load_large [of n] by (simp add: load_fits_def)
  show ?thesis
  proof (cases "n1 < 65536 \<and> n5 < 65536 \<and> n15 < 65536")
    case True
    then obtain v1 v5 v15 where "load_u16 (A_dec False n1 (- 2)) = Some v1" "unat v1 \<in> {n1 - 1, n1}"
      "load_u16 (A_dec False n5 (- 2)) = Some v5" "unat v5 \<in> {n5 - 1, n5}"
      "load_u16 (A_dec False n15 (- 2)) = Some v15" "unat v15 \<in> {n15 - 1, n15}"
      using one [of n1] one [of n5] one [of n15] by blast
    with True m l loads show ?thesis
      by (simp add: mem_collect_def mem_loads_def case_prod_beta Let_def)
  next
    case False
    then have "\<not> loads_fit os"
      using m l loads large by (auto simp: loads_fit_def mem_loads_def)
    with False show ?thesis using mem_collect_undefined by (simp only: if_False simp_thms)
  qed
qed

lemma loadavg_example:
  "fst (scanf loadavg_fmt ''0.29 1.50 0.07 1/90 7'') = [A_dec False 29 (- 2), A_dec False 150 (- 2), A_dec False 7 (- 2)]"
  by (simp add: clib_eval loadavg_fmt_def scan_decimal_def scan_fraction_def scan_exponent_def)

lemma load_0_29: "load_u16 (A_dec False 29 (- 2)) = Some 28"
  by (simp add: load_u16_def load_x100_def double_of_dec_def double_x100_def double_of_frac_def
      u16_of_double_def double_trunc_def round_at_def floor_at_def scaled_def half_even_def Let_def bits.simps)

theorem mem_collect_load_witness:
  "(\<exists>ctx'. mem_collect (mem_example_os [] (Some ''0.29 1.50 0.07 1/90 7'')) undefined
      \<lparr>last_mem = zero_mem_payload, last_load = zero_load_payload\<rparr> = Some (0, ctx') \<and>
    unat (load1_x100 (last_load ctx')) \<in> {28, 29} \<and>
    unat (load5_x100 (last_load ctx')) \<in> {149, 150} \<and>
    unat (load15_x100 (last_load ctx')) \<in> {6, 7}) \<and> load_u16 (A_dec False 29 (- 2)) = Some 28"
  using mem_collect_load [of "mem_example_os [] (Some ''0.29 1.50 0.07 1/90 7'')" "[]"
      "''0.29 1.50 0.07 1/90 7''" 29 150 7 undefined
      "\<lparr>last_mem = zero_mem_payload, last_load = zero_load_payload\<rparr>"]
  by (simp add: mem_example_os_def loadavg_example load_0_29)

end
