(* ===== verification/Net.thy ===== *)
theory Net
  imports Collector
begin

text \<open>
  \<^verbatim>\<open>agent/src/net.c\<close>: the byte counters of up to four network interfaces from
  \<^verbatim>\<open>/proc/net/dev\<close>, the loopback left out. The text loop is proved to report the first four
  interfaces of the table the kernel prints.
\<close>

section \<open>State\<close>

record net_entry =
  net_name :: "char list"
  rx_bytes :: u64
  tx_bytes :: u64

record net_ctx =
  net_entries :: "net_entry list"
  net_count :: nat
  net_truncated :: bool

type_synonym net_col = "net_ctx option"

definition zero_net_entry :: net_entry where
  "zero_net_entry = \<lparr>net_name = replicate TF_NET_NAME_SIZE NUL, rx_bytes = 0, tx_bytes = 0\<rparr>"

definition zero_net_ctx :: net_ctx where
  "zero_net_ctx = \<lparr>net_entries = replicate TF_MAX_INTERFACES zero_net_entry, net_count = 0,
     net_truncated = False\<rparr>"

section \<open>Operations\<close>

definition net_init :: "bool \<Rightarrow> agent_config \<Rightarrow> net_col \<Rightarrow> (int \<times> net_col) option" where
  "net_init alloc cfg col = (if \<not> alloc then Some (- 1, col) else Some (0, Some zero_net_ctx))"

definition net_destroy :: "net_col \<Rightarrow> net_col" where
  "net_destroy col = None"

text \<open>\<^verbatim>\<open>" %15[^:]: %llu %*u %*u %*u %*u %*u %*u %*u %llu"\<close>\<close>

definition net_dev_fmt :: "conv list" where
  "net_dev_fmt = [C_ws, C_notin 15 CHR '':'', C_lit CHR '':'', C_ws, C_llu, C_ws, C_skip_u, C_ws,
     C_skip_u, C_ws, C_skip_u, C_ws, C_skip_u, C_ws, C_skip_u, C_ws, C_skip_u, C_ws, C_skip_u, C_ws,
     C_llu]"

text \<open>The assignments to one slot of \<^verbatim>\<open>ctx->entries\<close>.\<close>

definition net_fill :: "string \<Rightarrow> u64 \<Rightarrow> u64 \<Rightarrow> net_entry" where
  "net_fill iface rx tx =
     (let entry = zero_net_entry;
          entry = entry\<lparr>net_name := strncpy (net_name entry) iface (TF_NET_NAME_SIZE - 1)\<rparr>;
          entry = entry\<lparr>net_name := (net_name entry)[TF_NET_NAME_SIZE - 1 := NUL]\<rparr>
      in entry\<lparr>rx_bytes := rx, tx_bytes := tx\<rparr>)"

text \<open>The loop over the interface lines: the slots, \<^verbatim>\<open>idx\<close> and the lines not yet read.\<close>

fun net_loop ::
  "net_entry list \<Rightarrow> nat \<Rightarrow> string list \<Rightarrow> (net_entry list \<times> nat \<times> string list) option" where
  "net_loop entries idx [] = Some (entries, idx, [])"
| "net_loop entries idx (line # lines) =
     (if \<not> idx < TF_MAX_INTERFACES then Some (entries, idx, line # lines)
      else case fst (scanf net_dev_fmt (cstr line)) of
          [A_str iface, A_u64 rx, A_u64 tx] \<Rightarrow>
            if iface = ''lo'' then net_loop entries idx lines
            else do { entries \<leftarrow> arr_set entries idx (net_fill iface rx tx);
                      net_loop entries (idx + 1) lines }
        | _ \<Rightarrow> net_loop entries idx lines)"

definition net_collect :: "os \<Rightarrow> agent_config \<Rightarrow> net_ctx \<Rightarrow> (int \<times> net_ctx) option" where
  "net_collect os cfg ctx =
     (case os_file os ''/proc/net/dev'' of
        None \<Rightarrow> Some (- 1, ctx\<lparr>net_count := 0\<rparr>)
      | Some net_dev_fp \<Rightarrow>
        (case file_lines TF_LINE_BUF_NET net_dev_fp of
           _ # _ # lines \<Rightarrow>
             do { (entries, idx, rest) \<leftarrow> net_loop (net_entries ctx) 0 lines;
                  let truncated = (net_truncated ctx \<or> TF_MAX_INTERFACES \<le> idx \<and> rest \<noteq> []);
                  Some (0, ctx\<lparr>net_entries := entries, net_truncated := truncated, net_count := idx\<rparr>) }
         | _ \<Rightarrow> Some (- 1, ctx\<lparr>net_count := 0\<rparr>)))"

definition net_entry_bytes :: "net_entry \<Rightarrow> u8 list" where
  "net_entry_bytes entry =
     (let name = replicate TF_NET_NAME_SIZE NUL;
          name = strncpy name (net_name entry) (TF_NET_NAME_SIZE - 1);
          cursor = map byte_of_char name;
          cursor = buf_put_be_u64 cursor (rx_bytes entry)
      in buf_put_be_u64 cursor (tx_bytes entry))"

text \<open>The loop over the entries; reading past the array is undefined.\<close>

fun net_payload_loop :: "net_entry list \<Rightarrow> nat \<Rightarrow> nat \<Rightarrow> u8 list \<Rightarrow> u8 list option" where
  "net_payload_loop entries 0 idx cursor = Some cursor"
| "net_payload_loop entries (Suc n) idx cursor =
     do { entry \<leftarrow> arr_get entries idx;
          net_payload_loop entries n (idx + 1) (cursor @ net_entry_bytes entry) }"

definition net_push :: "net_ctx \<Rightarrow> tlv_writer option \<Rightarrow> (int \<times> tlv_writer option) option" where
  "net_push ctx wrt =
     (if net_count ctx = 0 then Some (0, wrt)
      else do {
        payload \<leftarrow> net_payload_loop (net_entries ctx) (net_count ctx) 0 [of_nat (net_count ctx)];
        tlv_put wrt TF_TYPE_NET (Some payload) (of_nat (length payload)) })"

definition net_collect_api ::
  "os \<Rightarrow> agent_config \<Rightarrow> sample_context option \<Rightarrow> net_col \<Rightarrow> (int \<times> sample_context option \<times> net_col) option"
where
  "net_collect_api os cfg sctx col =
     (case col of
        None \<Rightarrow> Some (- 1, sctx, col)
      | Some ctx \<Rightarrow> do { (rc, ctx') \<leftarrow> net_collect os cfg ctx; Some (rc, sctx, Some ctx') })"

definition net_push_api ::
  "net_col \<Rightarrow> tlv_writer option \<Rightarrow> (int \<times> tlv_writer option \<times> net_col) option" where
  "net_push_api col wrt =
     (case col of
        None \<Rightarrow> Some (- 1, wrt, col)
      | Some ctx \<Rightarrow> do { (rc, wrt') \<leftarrow> net_push ctx wrt; Some (rc, wrt', col) })"

definition net_print_entry :: "net_entry \<Rightarrow> string" where
  "net_print_entry entry = ''  - '' @ cstr (net_name entry) @ '': rx_bytes='' @
     show_u (unat (rx_bytes entry)) @ '' tx_bytes='' @ show_u (unat (tx_bytes entry)) @ [NEWLINE]"

definition net_print :: "net_col \<Rightarrow> string" where
  "net_print col =
     (case col of
        None \<Rightarrow> []
      | Some ctx \<Rightarrow> ''NET : count='' @ show_u (net_count ctx) @ [NEWLINE] @
          concat (map net_print_entry (take (net_count ctx) (net_entries ctx))))"

section \<open>Invariant\<close>

definition net_ctx_inv :: "net_ctx \<Rightarrow> bool" where
  "net_ctx_inv ctx \<longleftrightarrow> length (net_entries ctx) = TF_MAX_INTERFACES \<and> net_count ctx \<le> TF_MAX_INTERFACES \<and>
     list_all (\<lambda>e. terminated TF_NET_NAME_SIZE (net_name e)) (net_entries ctx)"

definition net_inv :: "net_col \<Rightarrow> bool" where
  "net_inv col \<longleftrightarrow> (case col of None \<Rightarrow> True | Some ctx \<Rightarrow> net_ctx_inv ctx)"

section \<open>Lemmas\<close>

lemma net_fill_name:
  "terminated TF_NET_NAME_SIZE (net_name (net_fill iface rx tx))"
  "cstr (net_name (net_fill iface rx tx)) = take 7 (cstr iface)"
proof -
  let ?n = "strncpy (replicate 8 NUL) iface 7"
  have t: "terminated 8 ?n"
    using terminated_strncpy [of 7 "replicate 8 NUL" iface] by simp
  then have "?n[7 := NUL] = ?n"
    by (simp add: terminated_def list_update_same_conv)
  then have n: "net_name (net_fill iface rx tx) = ?n"
    by (simp add: net_fill_def zero_net_entry_def Let_def)
  then show "terminated TF_NET_NAME_SIZE (net_name (net_fill iface rx tx))"
    using t by simp
  show "cstr (net_name (net_fill iface rx tx)) = take 7 (cstr iface)"
    unfolding n by (rule cstr_strncpy) simp_all
qed

lemma net_fill_counters [simp]:
  "rx_bytes (net_fill iface rx tx) = rx" "tx_bytes (net_fill iface rx tx) = tx"
  by (simp_all add: net_fill_def Let_def)

lemma net_loop_inv:
  assumes "length entries = TF_MAX_INTERFACES" "idx \<le> TF_MAX_INTERFACES"
    "list_all (\<lambda>e. terminated TF_NET_NAME_SIZE (net_name e)) entries"
  shows "\<exists>entries' idx' rest. net_loop entries idx lines = Some (entries', idx', rest) \<and>
    length entries' = TF_MAX_INTERFACES \<and> idx' \<le> TF_MAX_INTERFACES \<and>
    list_all (\<lambda>e. terminated TF_NET_NAME_SIZE (net_name e)) entries'"
  using assms
proof (induction lines arbitrary: entries idx)
  case Nil
  then show ?case by simp
next
  case (Cons line lines)
  have "list_all (\<lambda>e. terminated TF_NET_NAME_SIZE (net_name e)) (entries[idx := net_fill i r t])" for i r t
    using Cons.prems(3) net_fill_name(1) by (auto simp: list_all_iff dest: set_update_subset_insert [THEN subsetD])
  then show ?case
    using Cons by (auto split: list.split arg.split)
qed

lemma net_payload_loop_eq:
  "idx + n \<le> length entries \<Longrightarrow> net_payload_loop entries n idx cursor =
     Some (cursor @ concat (map net_entry_bytes (take n (drop idx entries))))"
  by (induction n arbitrary: idx cursor) (simp_all add: Cons_nth_drop_Suc [symmetric])

lemma length_net_entry_bytes [simp, len_simps]: "length (net_entry_bytes e) = 24"
  by (simp add: net_entry_bytes_def Let_def)

lemma net_ctx_inv_zero: "net_ctx_inv zero_net_ctx"
  by (simp add: zero_net_ctx_def net_ctx_inv_def zero_net_entry_def list_all_iff)

lemma net_push_defined:
  assumes "net_ctx_inv ctx"
  shows "net_push ctx wrt = (if net_count ctx = 0 then Some (0, wrt) else
    tlv_put wrt TF_TYPE_NET (Some (of_nat (net_count ctx) # concat (map net_entry_bytes (take (net_count ctx) (net_entries ctx)))))
      (of_nat (1 + 24 * net_count ctx)))"
proof -
  have "length (concat (map net_entry_bytes (take (net_count ctx) (net_entries ctx)))) = 24 * net_count ctx"
    using assms by (simp add: length_concat_const len_simps net_ctx_inv_def)
  then show ?thesis
    using assms by (simp add: net_push_def net_payload_loop_eq net_ctx_inv_def)
qed

lemma net_collect_inv:
  assumes "net_ctx_inv ctx"
  shows "\<exists>rc ctx'. net_collect os cfg ctx = Some (rc, ctx') \<and> net_ctx_inv ctx'"
proof -
  have loop: "\<exists>e i r. net_loop (net_entries ctx) 0 lines = Some (e, i, r) \<and> length e = 4 \<and> i \<le> 4 \<and>
      list_all (\<lambda>e. terminated TF_NET_NAME_SIZE (net_name e)) e" for lines
    using assms by (intro net_loop_inv) (simp_all add: net_ctx_inv_def)
  show ?thesis
  proof (cases "\<exists>fp a b lines. os_file os ''/proc/net/dev'' = Some fp \<and>
      file_lines TF_LINE_BUF_NET fp = a # b # lines")
    case True
    then obtain fp a b lines where fp: "os_file os ''/proc/net/dev'' = Some fp"
      "file_lines TF_LINE_BUF_NET fp = a # b # lines" by blast
    obtain e i r where "net_loop (net_entries ctx) 0 lines = Some (e, i, r)" "length e = 4" "i \<le> 4"
      "list_all (\<lambda>e. terminated TF_NET_NAME_SIZE (net_name e)) e"
      using loop by blast
    with fp show ?thesis by (simp add: net_collect_def net_ctx_inv_def)
  next
    case False
    with assms show ?thesis
      by (auto simp: net_collect_def net_ctx_inv_def split: option.split list.split)
  qed
qed

interpretation net: collector net_init net_destroy net_collect_api net_push_api net_inv
  "\<lambda>s. s \<noteq> None" "\<lambda>_. True"
proof unfold_locales
  show "\<exists>rc s'. net_init alloc cfg s = Some (rc, s') \<and> net_inv s' \<and>
      (if alloc then rc = 0 \<and> s' \<noteq> None else rc = - 1 \<and> s' = s)"
    if "net_inv s" for s cfg alloc
    using that by (simp add: net_init_def net_inv_def net_ctx_inv_zero)
  show "net_inv (net_destroy s) \<and> \<not> net_destroy s \<noteq> None" for s
    by (simp add: net_destroy_def net_inv_def)
  show "\<exists>rc sctx' s'. net_collect_api os cfg sctx s = Some (rc, sctx', s') \<and> net_inv s' \<and>
      (sctx' = None \<longleftrightarrow> sctx = None) \<and> (s' \<noteq> None \<longleftrightarrow> s \<noteq> None)" if "net_inv s" for s cfg os sctx
    using that net_collect_inv [of _ os cfg]
    by (cases s) (fastforce simp: net_collect_api_def net_inv_def)+
  show "\<exists>rc w' s' ts. net_push_api s (Some w) = Some (rc, Some w', s') \<and> net_inv s' \<and>
      (s' \<noteq> None \<longleftrightarrow> s \<noteq> None) \<and> appends_tlvs w w' ts" if "net_inv s" "wf_writer w" for s w
  proof (cases s)
    case None
    then show ?thesis using that by (auto simp: net_push_api_def intro: appends_nothing)
  next
    case (Some ctx)
    then have inv: "net_ctx_inv ctx" using that by (simp add: net_inv_def)
    then have len: "length (of_nat (net_count ctx) # concat (map net_entry_bytes (take (net_count ctx) (net_entries ctx)))) = 1 + 24 * net_count ctx"
      by (simp add: length_concat_const len_simps net_ctx_inv_def)
    from tlv_put_payload [OF that(2)] obtain rc w' ts where "tlv_put (Some w) TF_TYPE_NET
      (Some (of_nat (net_count ctx) # concat (map net_entry_bytes (take (net_count ctx) (net_entries ctx)))))
      (of_nat (1 + 24 * net_count ctx)) = Some (rc, Some w')" "appends_tlvs w w' ts"
      unfolding len [symmetric] by metis
    then show ?thesis
      using Some inv that appends_nothing [of w]
      by (cases "net_count ctx = 0") (auto simp: net_push_api_def net_push_defined)
  qed
  show "net_push_api s wrt = Some (- 1, wrt, s)" if "\<not> s \<noteq> None" for s wrt
    using that by (simp add: net_push_api_def)
qed

section \<open>The table of /proc/net/dev\<close>

text \<open>An interface line: blanks, the name, a colon, sixteen counters (receive bytes first,
  transmit bytes ninth).\<close>

type_synonym net_dev_entry = "nat \<times> string \<times> (nat \<times> nat) list"

definition net_dev_line :: "net_dev_entry \<Rightarrow> string" where
  "net_dev_line e = (case e of (pad, name, nums) \<Rightarrow>
     replicate pad CHR '' '' @ name @ '':'' @ num_fields nums @ [NEWLINE])"

definition net_dev_entry_ok :: "net_dev_entry \<Rightarrow> bool" where
  "net_dev_entry_ok e = (case e of (pad, name, nums) \<Rightarrow>
     name \<noteq> [] \<and> length name \<le> 15 \<and> list_all (\<lambda>c. \<not> isspace c \<and> c \<noteq> CHR '':'' \<and> c \<noteq> NUL) name \<and>
     length nums = 16 \<and> list_all (\<lambda>(p, v). v \<le> ULLONG_MAX) nums \<and>
     full_line TF_LINE_BUF_NET (net_dev_line e))"

definition net_report :: "net_dev_entry \<Rightarrow> net_entry" where
  "net_report e = (case e of (pad, name, nums) \<Rightarrow>
     net_fill name (of_nat (snd (nums ! 0))) (of_nat (snd (nums ! 8))))"

definition not_loopback :: "net_dev_entry \<Rightarrow> bool" where
  "not_loopback e \<longleftrightarrow> fst (snd e) \<noteq> ''lo''"

lemma net_dev_nums:
  "length nums = 16 \<Longrightarrow> \<exists>f0 f1 f2 f3 f4 f5 f6 f7 f8 r. nums = [f0,f1,f2,f3,f4,f5,f6,f7,f8] @ r"
  by (auto simp: numeral_eq_Suc length_Suc_conv)

lemma scanf_net_dev_line:
  assumes "net_dev_entry_ok (pad, name, nums)"
  shows "fst (scanf net_dev_fmt (cstr (net_dev_line (pad, name, nums)))) =
    [A_str name, A_u64 (of_nat (snd (nums ! 0))), A_u64 (of_nat (snd (nums ! 8)))]"
proof -
  let ?scan = "scanf net_dev_fmt (cstr (net_dev_line (pad, name, nums)))"
  have name: "name \<noteq> []" "length name \<le> 15"
    "list_all (\<lambda>c. \<not> isspace c \<and> c \<noteq> CHR '':'' \<and> c \<noteq> NUL) name"
    and bound: "list_all (\<lambda>(p, v). v \<le> ULLONG_MAX) nums"
    using assms by (simp_all add: net_dev_entry_ok_def)
  have "cstr (net_dev_line (pad, name, nums)) = net_dev_line (pad, name, nums)"
    using name(3) num_fields_no_nul by (intro cstr_id) (auto simp: net_dev_line_def list_all_iff)
  moreover have "dropWhile isspace (net_dev_line (pad, name, nums)) =
      name @ CHR '':'' # num_fields nums @ [NEWLINE]"
    using name by (cases name) (auto simp: net_dev_line_def dropWhile_append)
  moreover have "takeWhile (\<lambda>x. x \<noteq> CHR '':'') (name @ CHR '':'' # r) = name" for r
    using name by (subst takeWhile_append_stop) (auto simp: list_all_iff)
  ultimately have "fst ?scan = A_str name # fst (scanf (drop 3 net_dev_fmt) (num_fields nums @ [NEWLINE]))"
    using name(1,2) by (simp add: net_dev_fmt_def Let_def case_prod_beta)
  moreover obtain f0 f1 f2 f3 f4 f5 f6 f7 f8 r where "nums = [f0,f1,f2,f3,f4,f5,f6,f7,f8] @ r"
    using assms net_dev_nums [of nums] by (auto simp: net_dev_entry_ok_def)
  ultimately show ?thesis
    using bound num_fields_end [of "[NEWLINE]"]
    by (cases f0; cases f1; cases f2; cases f3; cases f4; cases f5; cases f6; cases f7; cases f8)
      (simp add: net_dev_fmt_def scanf_field_simps del: scanf.simps(2))
qed

text \<open>The loop over the lines is the loop over the table.\<close>

lemma net_loop_table:
  assumes "list_all net_dev_entry_ok es" "length entries = TF_MAX_INTERFACES" "idx \<le> TF_MAX_INTERFACES"
  shows "\<exists>entries' rest. net_loop entries idx (map net_dev_line es) =
      Some (entries', min TF_MAX_INTERFACES (idx + length (filter not_loopback es)), rest) \<and>
    length entries' = TF_MAX_INTERFACES \<and>
    take (min TF_MAX_INTERFACES (idx + length (filter not_loopback es))) entries' =
      take idx entries @ map net_report (take (TF_MAX_INTERFACES - idx) (filter not_loopback es))"
  using assms
proof (induction es arbitrary: entries idx)
  case Nil
  then show ?case by simp
next
  case (Cons e es)
  obtain pad name nums where e: "e = (pad, name, nums)" by (cases e)
  have scan: "fst (scanf net_dev_fmt (cstr (net_dev_line e))) =
      [A_str name, A_u64 (of_nat (snd (nums ! 0))), A_u64 (of_nat (snd (nums ! 8)))]"
    using Cons.prems(1) scanf_net_dev_line by (simp add: e)
  consider "idx = 4" | "idx < 4" "name = ''lo''" | "idx < 4" "name \<noteq> ''lo''"
    using Cons.prems(3) by fastforce
  then show ?case
  proof cases
    case 1
    then show ?thesis using Cons.prems by simp
  next
    case 2
    then show ?thesis
      using Cons.IH [of entries idx] Cons.prems scan by (simp add: not_loopback_def e)
  next
    case 3
    have "net_fill name (of_nat (snd (nums ! 0))) (of_nat (snd (nums ! 8))) = net_report e"
      by (simp add: net_report_def e)
    moreover have "take (Suc idx) (entries[idx := net_report e]) = take idx entries @ [net_report e]"
      using 3 Cons.prems by (intro take_list_update_append) simp
    moreover have "4 - idx = Suc (4 - Suc idx)" using 3 by simp
    ultimately show ?thesis
      using 3 Cons.IH [of "entries[idx := net_report e]" "Suc idx"] Cons.prems scan
      by (simp add: not_loopback_def e)
  qed
qed

text \<open>C9: on a \<^verbatim>\<open>/proc/net/dev\<close> in the kernel's format the collector reports the first four
  interfaces other than the loopback, in order, each with its name cut to seven characters and
  its exact receive and transmit byte counters.\<close>

theorem net_collect_interfaces:
  assumes "net_ctx_inv ctx"
    "os_file os ''/proc/net/dev'' = Some (h1 @ h2 @ concat (map net_dev_line es))"
    "full_line TF_LINE_BUF_NET h1" "full_line TF_LINE_BUF_NET h2" "list_all net_dev_entry_ok es"
  shows "\<exists>ctx'. net_collect os cfg ctx = Some (0, ctx') \<and>
    net_count ctx' = min TF_MAX_INTERFACES (length (filter not_loopback es)) \<and>
    map (\<lambda>e. (cstr (net_name e), rx_bytes e, tx_bytes e)) (take (net_count ctx') (net_entries ctx')) =
      map (\<lambda>(pad, name, nums). (take 7 name, of_nat (snd (nums ! 0)), of_nat (snd (nums ! 8))))
        (take TF_MAX_INTERFACES (filter not_loopback es))"
proof -
  have "list_all (full_line TF_LINE_BUF_NET) (h1 # h2 # map net_dev_line es)"
    using assms(3-5) by (auto simp: list_all_iff net_dev_entry_ok_def)
  from file_lines_concat [OF this] have lines:
    "file_lines TF_LINE_BUF_NET (h1 @ h2 @ concat (map net_dev_line es)) = h1 # h2 # map net_dev_line es"
    by simp
  let ?ifs = "filter not_loopback es"
  obtain entries' rest where "net_loop (net_entries ctx) 0 (map net_dev_line es) =
      Some (entries', min 4 (length ?ifs), rest)"
    "take (min 4 (length ?ifs)) entries' = map net_report (take 4 ?ifs)"
    using net_loop_table [OF assms(5), of "net_entries ctx" 0] assms(1) by (auto simp: net_ctx_inv_def)
  moreover have "(cstr (net_name (net_report e)), rx_bytes (net_report e), tx_bytes (net_report e)) =
      (\<lambda>(pad, name, nums). (take 7 name, of_nat (snd (nums ! 0)), of_nat (snd (nums ! 8)))) e"
    if "e \<in> set (take 4 ?ifs)" for e
  proof -
    have "net_dev_entry_ok e"
      using that assms(5) by (auto simp: list_all_iff dest: in_set_takeD)
    then have "NUL \<notin> set (fst (snd e))"
      unfolding net_dev_entry_ok_def list_all_iff by (simp split: prod.splits) blast
    then show ?thesis
      by (cases e) (simp add: net_report_def net_fill_name cstr_id)
  qed
  ultimately show ?thesis
    using assms(2) by (simp add: net_collect_def lines)
qed

definition net_example :: "net_dev_entry list" where
  "net_example =
     [(0, ''lo'', [(0,7),(0,0),(0,0),(0,0),(0,0),(0,0),(0,0),(0,0),(0,0),(0,0),(0,0),(0,0),(0,0),(0,0),(0,0),(0,0)]),
      (0, ''enp0s31f6'', [(0,18446744073709551615),(0,5),(0,5),(0,5),(0,5),(0,5),(0,5),(0,5),(0,42),
        (0,0),(0,0),(0,0),(0,0),(0,0),(0,0),(0,0)])]"

definition net_example_os :: os where
  "net_example_os =
     os_of_files [(''/proc/net/dev'', [NEWLINE] @ [NEWLINE] @ concat (map net_dev_line net_example))]"

theorem net_collect_interfaces_witness:
  "\<exists>ctx'. net_collect net_example_os undefined zero_net_ctx = Some (0, ctx') \<and> net_count ctx' = 1 \<and>
    map (\<lambda>e. (cstr (net_name e), rx_bytes e, tx_bytes e)) (take (net_count ctx') (net_entries ctx')) =
      [(''enp0s31'', 18446744073709551615, 42)]"
proof -
  have digits: "show_u 18446744073709551615 = ''18446744073709551615''" "show_u 42 = ''42''"
    "show_u 0 = ''0''" "show_u 5 = ''5''" "show_u 7 = ''7''"
    by (simp_all add: show_u.simps char_of_def bit_0)
  have "net_ctx_inv zero_net_ctx"
    by (rule net_ctx_inv_zero)
  moreover have "list_all net_dev_entry_ok net_example"
    by (simp add: net_example_def net_dev_entry_ok_def net_dev_line_def full_line_def
        num_fields_Cons digits isspace_def)
  moreover have "os_file net_example_os ''/proc/net/dev'' =
      Some ([NEWLINE] @ [NEWLINE] @ concat (map net_dev_line net_example))"
    by (simp add: net_example_os_def os_of_files_def)
  ultimately show ?thesis
    using net_collect_interfaces [of zero_net_ctx net_example_os "[NEWLINE]" "[NEWLINE]" net_example undefined]
    by (simp add: full_line_def) (simp add: net_example_def not_loopback_def)
qed

end
