(* ===== verification/Disk.thy ===== *)
theory Disk
  imports Collector
begin

text \<open>
  \<^verbatim>\<open>agent/src/disk.c\<close>: cumulative counters, per-interval operation counts and utilisation of
  up to sixteen block devices from \<^verbatim>\<open>/proc/diskstats\<close>. The previous counters are kept in a cache
  of sixteen named slots; the cache is proved to behave like a map from device names to
  counters, and the collection like a computation on the table the kernel prints.
\<close>

section \<open>State\<close>

record disk_entry =
  disk_name :: "char list"
  reads_completed :: u64
  writes_completed :: u64
  sectors_read :: u64
  sectors_written :: u64
  read_ms :: u64
  write_ms :: u64
  read_iops_delta :: u32
  write_iops_delta :: u32
  io_util_pct_x10 :: u16

record disk_cache =
  dc_name :: "char list"
  dc_reads :: u64
  dc_writes :: u64
  dc_sectors_read :: u64
  dc_sectors_written :: u64
  dc_read_ms :: u64
  dc_write_ms :: u64
  dc_io_ticks :: u64

record disk_ctx =
  disk_slots :: "disk_cache list"
  disk_entries :: "disk_entry list"
  disk_count :: nat
  disk_truncated :: bool
  last_sample_time :: timespec
  sample_time_initialized :: bool

type_synonym disk_col = "disk_ctx option"

definition zero_disk_entry :: disk_entry where
  "zero_disk_entry = \<lparr>disk_name = replicate TF_DISK_NAME_SIZE NUL, reads_completed = 0,
     writes_completed = 0, sectors_read = 0, sectors_written = 0, read_ms = 0, write_ms = 0,
     read_iops_delta = 0, write_iops_delta = 0, io_util_pct_x10 = 0\<rparr>"

definition zero_disk_cache :: disk_cache where
  "zero_disk_cache = \<lparr>dc_name = replicate TF_DISK_CACHE_NAME_LEN NUL, dc_reads = 0, dc_writes = 0,
     dc_sectors_read = 0, dc_sectors_written = 0, dc_read_ms = 0, dc_write_ms = 0, dc_io_ticks = 0\<rparr>"

definition zero_disk_ctx :: disk_ctx where
  "zero_disk_ctx = \<lparr>disk_slots = replicate TF_MAX_DISKS zero_disk_cache,
     disk_entries = replicate TF_MAX_DISKS zero_disk_entry, disk_count = 0, disk_truncated = False,
     last_sample_time = \<lparr>tv_sec = 0, tv_nsec = 0\<rparr>, sample_time_initialized = False\<rparr>"

section \<open>Operations\<close>

definition is_partition_name :: "string option \<Rightarrow> bool" where
  "is_partition_name name =
     (case name of
        None \<Rightarrow> False
      | Some name \<Rightarrow>
        if length name = 0 then False
        else if has_prefix name ''loop'' \<or> has_prefix name ''ram'' \<or> has_prefix name ''dm-'' \<or>
          has_prefix name ''zram'' then True
        else if has_prefix name ''nvme'' then CHR ''p'' \<in> set name
        else if has_prefix name ''mmcblk'' then CHR ''p'' \<in> set name
        else isdigit (name ! (length name - 1)))"

text \<open>A pointer to a slot is its index in the cache.\<close>

definition disk_cache_slot :: "disk_cache list \<Rightarrow> string option \<Rightarrow> nat option \<times> disk_cache list" where
  "disk_cache_slot cache name =
     (case name of
        None \<Rightarrow> (None, cache)
      | Some name \<Rightarrow>
        (case find_idx (\<lambda>c. strcmp (cstr (dc_name c)) name = 0) cache of
           Some i \<Rightarrow> (Some i, cache)
         | None \<Rightarrow>
           (case find_idx (\<lambda>c. dc_name c ! 0 = NUL) cache of
              Some i \<Rightarrow>
                (Some i, cache[i := (cache ! i)\<lparr>dc_name :=
                   strncpy (dc_name (cache ! i)) name (TF_DISK_CACHE_NAME_LEN - 1)\<rparr>])
            | None \<Rightarrow> (None, cache))))"

definition disk_init :: "bool \<Rightarrow> agent_config \<Rightarrow> disk_col \<Rightarrow> (int \<times> disk_col) option" where
  "disk_init alloc cfg col = (if \<not> alloc then Some (- 1, col) else Some (0, Some zero_disk_ctx))"

definition disk_destroy :: "disk_col \<Rightarrow> disk_col" where
  "disk_destroy col = None"

text \<open>\<^verbatim>\<open>elapsed_ms\<close>: the configured interval, or the time between two samples where the
  monotonic clock gives it.\<close>

definition disk_elapsed_ms :: "u16 \<Rightarrow> timespec option \<Rightarrow> disk_ctx \<Rightarrow> u64 option" where
  "disk_elapsed_ms interval sample_time ctx =
     (let elapsed_ms = (if interval = 0 then 1000 else ucast interval * 1000 :: u64)
      in case sample_time of
           Some t \<Rightarrow>
             if sample_time_initialized ctx then do {
               ds \<leftarrow> s64 (tv_sec t - tv_sec (last_sample_time ctx));
               sec_ns \<leftarrow> s64 (ds * 1000000000);
               dn \<leftarrow> s64 (tv_nsec t - tv_nsec (last_sample_time ctx));
               elapsed_ns \<leftarrow> s64 (sec_ns + dn);
               if elapsed_ns > 0
               then (let ms = of_int elapsed_ns div 1000000 :: u64 in Some (if ms = 0 then 1 else ms))
               else Some elapsed_ms }
             else Some elapsed_ms
         | None \<Rightarrow> Some elapsed_ms)"

text \<open>\<^verbatim>\<open>"%u %u %31s %llu %llu %llu %llu %llu %llu %llu %llu %llu %llu %llu"\<close>\<close>

definition disk_fmt :: "conv list" where
  "disk_fmt = [C_u, C_ws, C_u, C_ws, C_s 31] @ concat (replicate 11 [C_ws, C_llu])"

abbreviation (input) TF_DISK_STAT_MIN :: nat where "TF_DISK_STAT_MIN \<equiv> 14"

text \<open>The part of the loop body between the choice of the slot and \<^verbatim>\<open>idx++\<close>, on the columns
  \<open>v\<close> of the line (reads, reads merged, sectors read, read time, writes, writes merged, sectors
  written, write time, in flight, I/O time, weighted time).\<close>

definition disk_sample ::
  "u64 \<Rightarrow> string \<Rightarrow> u64 list \<Rightarrow> disk_cache \<Rightarrow> (disk_entry \<times> disk_cache) option" where
  "disk_sample elapsed_ms name v slot =
     (let rd_comp = v ! 0; rd_sect = v ! 2; rd_ticks = v ! 3; wr_comp = v ! 4; wr_sect = v ! 6;
          wr_ticks = v ! 7; io_ticks = v ! 9;
          entry = zero_disk_entry\<lparr>disk_name := strncpy (disk_name zero_disk_entry) name (TF_DISK_NAME_SIZE - 1)\<rparr>;
          have_prev = (dc_reads slot \<noteq> 0 \<or> dc_writes slot \<noteq> 0 \<or> dc_sectors_read slot \<noteq> 0 \<or>
            dc_sectors_written slot \<noteq> 0 \<or> dc_io_ticks slot \<noteq> 0);
          diff_reads = rd_comp - dc_reads slot;
          diff_writes = wr_comp - dc_writes slot;
          diff_io_ticks = io_ticks - dc_io_ticks slot;
          entry = entry\<lparr>reads_completed := rd_comp, writes_completed := wr_comp, sectors_read := rd_sect,
            sectors_written := wr_sect, read_ms := rd_ticks, write_ms := wr_ticks\<rparr>;
          slot = slot\<lparr>dc_reads := rd_comp, dc_writes := wr_comp, dc_sectors_read := rd_sect,
            dc_sectors_written := wr_sect, dc_read_ms := rd_ticks, dc_write_ms := wr_ticks,
            dc_io_ticks := io_ticks\<rparr>;
          entry = entry\<lparr>read_iops_delta := 0, write_iops_delta := 0, io_util_pct_x10 := 0\<rparr>
      in if \<not> have_prev then Some (entry, slot)
         else let entry = entry\<lparr>read_iops_delta := ucast (if diff_reads > 0 then diff_reads else 0),
                    write_iops_delta := ucast (if diff_writes > 0 then diff_writes else 0)\<rparr>
              in if diff_io_ticks > 0
                 then do { pct10 \<leftarrow> u64_div (diff_io_ticks * 1000) elapsed_ms;
                           let pct10 = (if pct10 > 1000 then 1000 else pct10);
                           Some (entry\<lparr>io_util_pct_x10 := ucast pct10\<rparr>, slot) }
                 else Some (entry, slot))"

fun disk_loop :: "u64 \<Rightarrow> disk_cache list \<Rightarrow> disk_entry list \<Rightarrow> nat \<Rightarrow> string list
  \<Rightarrow> (disk_cache list \<times> disk_entry list \<times> nat \<times> string list) option" where
  "disk_loop elapsed_ms cache entries idx [] = Some (cache, entries, idx, [])"
| "disk_loop elapsed_ms cache entries idx (line # lines) =
     (if \<not> idx < TF_MAX_DISKS then Some (cache, entries, idx, line # lines)
      else let args = fst (scanf disk_fmt (cstr line)); name = arg_str (args ! 2)
      in if length args < TF_DISK_STAT_MIN then disk_loop elapsed_ms cache entries idx lines
      else if is_partition_name (Some name) then disk_loop elapsed_ms cache entries idx lines
      else (case disk_cache_slot cache (Some name) of
          (None, cache) \<Rightarrow> disk_loop elapsed_ms cache entries idx lines
        | (Some s, cache) \<Rightarrow> do {
            slot \<leftarrow> arr_get cache s;
            (entry, slot) \<leftarrow> disk_sample elapsed_ms name (map arg_u64 (drop 3 args)) slot;
            cache \<leftarrow> arr_set cache s slot;
            entries \<leftarrow> arr_set entries idx entry;
            disk_loop elapsed_ms cache entries (idx + 1) lines }))"

definition disk_collect :: "os \<Rightarrow> agent_config \<Rightarrow> disk_ctx \<Rightarrow> (int \<times> disk_ctx) option" where
  "disk_collect os cfg ctx =
     do { elapsed_ms \<leftarrow> disk_elapsed_ms (interval_sec cfg) (os_monotonic os) ctx;
          case os_file os ''/proc/diskstats'' of
            None \<Rightarrow> Some (- 1, ctx\<lparr>disk_count := 0\<rparr>)
          | Some disk_fp \<Rightarrow> do {
              (cache, entries, idx, rest) \<leftarrow>
                disk_loop elapsed_ms (disk_slots ctx) (disk_entries ctx) 0 (file_lines TF_LINE_BUF_SMALL disk_fp);
              let ctx = ctx\<lparr>disk_slots := cache, disk_entries := entries,
                disk_truncated := (disk_truncated ctx \<or> TF_MAX_DISKS \<le> idx \<and> rest \<noteq> []), disk_count := idx\<rparr>;
              Some (0, case os_monotonic os of
                  Some t \<Rightarrow> ctx\<lparr>last_sample_time := t, sample_time_initialized := True\<rparr>
                | None \<Rightarrow> ctx) } }"

definition disk_entry_bytes :: "disk_entry \<Rightarrow> u8 list" where
  "disk_entry_bytes entry =
     (let name = strncpy (replicate TF_DISK_NAME_SIZE NUL) (disk_name entry) (TF_DISK_NAME_SIZE - 1);
          cursor = map byte_of_char name;
          cursor = buf_put_be_u64 cursor (reads_completed entry);
          cursor = buf_put_be_u64 cursor (writes_completed entry);
          cursor = buf_put_be_u64 cursor (sectors_read entry);
          cursor = buf_put_be_u64 cursor (sectors_written entry);
          cursor = buf_put_be_u64 cursor (read_ms entry);
          cursor = buf_put_be_u64 cursor (write_ms entry);
          cursor = buf_put_be_u32 cursor (read_iops_delta entry);
          cursor = buf_put_be_u32 cursor (write_iops_delta entry)
      in buf_put_be_u16 cursor (io_util_pct_x10 entry))"

fun disk_payload_loop :: "disk_entry list \<Rightarrow> nat \<Rightarrow> nat \<Rightarrow> u8 list \<Rightarrow> u8 list option" where
  "disk_payload_loop entries 0 idx cursor = Some cursor"
| "disk_payload_loop entries (Suc n) idx cursor =
     do { entry \<leftarrow> arr_get entries idx;
          disk_payload_loop entries n (idx + 1) (cursor @ disk_entry_bytes entry) }"

text \<open>The last argument of \<^verbatim>\<open>tlv_put\<close> is \<^verbatim>\<open>(uint8_t)(payload_cursor - payload)\<close>.\<close>

definition disk_push :: "disk_ctx \<Rightarrow> tlv_writer option \<Rightarrow> (int \<times> tlv_writer option) option" where
  "disk_push ctx wrt =
     (if disk_count ctx = 0 then Some (0, wrt)
      else do {
        payload \<leftarrow> disk_payload_loop (disk_entries ctx) (disk_count ctx) 0 [of_nat (disk_count ctx)];
        tlv_put wrt TF_TYPE_DISK (Some payload) (of_nat (length payload)) })"

definition disk_collect_api ::
  "os \<Rightarrow> agent_config \<Rightarrow> sample_context option \<Rightarrow> disk_col \<Rightarrow> (int \<times> sample_context option \<times> disk_col) option"
where
  "disk_collect_api os cfg sctx col =
     (case col of
        None \<Rightarrow> Some (- 1, sctx, col)
      | Some ctx \<Rightarrow> do { (rc, ctx') \<leftarrow> disk_collect os cfg ctx; Some (rc, sctx, Some ctx') })"

definition disk_push_api ::
  "disk_col \<Rightarrow> tlv_writer option \<Rightarrow> (int \<times> tlv_writer option \<times> disk_col) option" where
  "disk_push_api col wrt =
     (case col of
        None \<Rightarrow> Some (- 1, wrt, col)
      | Some ctx \<Rightarrow> do { (rc, wrt') \<leftarrow> disk_push ctx wrt; Some (rc, wrt', col) })"

definition disk_print_entry :: "disk_entry \<Rightarrow> string" where
  "disk_print_entry e = ''  - '' @ cstr (disk_name e) @ '': cum(r='' @ show_u (unat (reads_completed e)) @
     '',w='' @ show_u (unat (writes_completed e)) @ '',sr='' @ show_u (unat (sectors_read e)) @
     '',sw='' @ show_u (unat (sectors_written e)) @ '',rm='' @ show_u (unat (read_ms e)) @
     '',wm='' @ show_u (unat (write_ms e)) @ '') delta(iops_r='' @ show_u (unat (read_iops_delta e)) @
     '',iops_w='' @ show_u (unat (write_iops_delta e)) @ '') util='' @
     show_u (unat (io_util_pct_x10 e) div 10) @ ''.'' @ show_u (unat (io_util_pct_x10 e) mod 10) @
     ''%%'' @ [NEWLINE]"

definition disk_print :: "disk_col \<Rightarrow> string" where
  "disk_print col =
     (case col of
        None \<Rightarrow> []
      | Some ctx \<Rightarrow> ''DISK: count='' @ show_u (disk_count ctx) @ [NEWLINE] @
          concat (map disk_print_entry (take (disk_count ctx) (disk_entries ctx))))"

section \<open>Invariant\<close>

definition disk_slot_inv :: "disk_cache \<Rightarrow> bool" where
  "disk_slot_inv c \<longleftrightarrow> terminated TF_DISK_CACHE_NAME_LEN (dc_name c) \<and>
     (dc_name c ! 0 = NUL \<longrightarrow> c = zero_disk_cache)"

definition disk_entry_inv :: "disk_entry \<Rightarrow> bool" where
  "disk_entry_inv e \<longleftrightarrow> terminated TF_DISK_NAME_SIZE (disk_name e) \<and> io_util_pct_x10 e \<le> 1000"

definition disk_ctx_inv :: "disk_ctx \<Rightarrow> bool" where
  "disk_ctx_inv ctx \<longleftrightarrow> length (disk_slots ctx) = TF_MAX_DISKS \<and> list_all disk_slot_inv (disk_slots ctx) \<and>
     length (disk_entries ctx) = TF_MAX_DISKS \<and> list_all disk_entry_inv (disk_entries ctx) \<and>
     disk_count ctx \<le> TF_MAX_DISKS \<and> monotonic_ok (last_sample_time ctx)"

definition disk_inv :: "disk_col \<Rightarrow> bool" where
  "disk_inv col \<longleftrightarrow> (case col of None \<Rightarrow> True | Some ctx \<Rightarrow> disk_ctx_inv ctx)"

section \<open>The cache as a map\<close>

text \<open>The slot a name is found in, or a fresh one.\<close>

definition disk_prev :: "disk_cache list \<Rightarrow> string \<Rightarrow> disk_cache" where
  "disk_prev cache name = (case find_idx (\<lambda>c. cstr (dc_name c) = name) cache of
     Some i \<Rightarrow> cache ! i | None \<Rightarrow> zero_disk_cache)"

definition disk_cached :: "disk_cache list \<Rightarrow> string \<Rightarrow> bool" where
  "disk_cached cache name \<longleftrightarrow> (\<exists>c \<in> set cache. cstr (dc_name c) = name)"

definition disk_free :: "disk_cache list \<Rightarrow> nat" where
  "disk_free cache = length (filter (\<lambda>c. dc_name c ! 0 = NUL) cache)"

lemma cstr_empty_iff: "terminated n buf \<Longrightarrow> cstr buf = [] \<longleftrightarrow> buf ! 0 = NUL"
  by (cases buf) (auto simp: cstr_def terminated_def)

text \<open>The slot \<^verbatim>\<open>disk_cache_slot\<close> picks: the first one with the name, else the first free one.\<close>

definition disk_slot_at :: "disk_cache list \<Rightarrow> string \<Rightarrow> nat \<Rightarrow> bool" where
  "disk_slot_at cache name s \<longleftrightarrow> find_idx (\<lambda>c. cstr (dc_name c) = name) cache = Some s \<or>
     find_idx (\<lambda>c. cstr (dc_name c) = name) cache = None \<and> find_idx (\<lambda>c. dc_name c ! 0 = NUL) cache = Some s"

lemma disk_cached_iff: "disk_cached cache name \<longleftrightarrow> find_idx (\<lambda>c. cstr (dc_name c) = name) cache \<noteq> None"
  by (auto simp: disk_cached_def find_idx_None)

lemma disk_free_pos: "0 < disk_free cache \<longleftrightarrow> find_idx (\<lambda>c. dc_name c ! 0 = NUL) cache \<noteq> None"
  by (auto simp: disk_free_def find_idx_None filter_empty_conv)

lemma disk_cache_slot_none:
  "\<not> disk_cached cache name \<Longrightarrow> disk_free cache = 0 \<Longrightarrow> disk_cache_slot cache (Some name) = (None, cache)"
  using disk_free_pos [of cache] by (simp add: disk_cache_slot_def strcmp_0_iff disk_cached_iff)

lemma disk_cache_slot_some:
  assumes inv: "list_all disk_slot_inv cache" and room: "disk_cached cache name \<or> 0 < disk_free cache"
  obtains s nm where
    "disk_cache_slot cache (Some name) = (Some s, cache[s := (disk_prev cache name)\<lparr>dc_name := nm\<rparr>])"
    "disk_slot_at cache name s" "s < length cache" "terminated TF_DISK_CACHE_NAME_LEN nm"
    "disk_cached cache name \<or> cstr nm = take 15 (cstr name)" "disk_cached cache name \<Longrightarrow> cstr nm = name"
proof (cases "find_idx (\<lambda>c. cstr (dc_name c) = name) cache")
  case (Some s)
  then have s: "s < length cache" "cstr (dc_name (cache ! s)) = name"
    by (auto simp: find_idx_Some)
  moreover have "disk_slot_inv (cache ! s)"
    using inv s(1) by (simp add: list_all_length)
  ultimately show ?thesis
    using Some
    by (intro that [of s "dc_name (cache ! s)"])
      (simp_all add: disk_cache_slot_def strcmp_0_iff disk_slot_at_def disk_prev_def disk_cached_iff disk_slot_inv_def)
next
  case None
  with room obtain s where fr: "find_idx (\<lambda>c. dc_name c ! 0 = NUL) cache = Some s"
    by (auto simp: disk_cached_iff disk_free_pos)
  then have s: "s < length cache" "cache ! s = zero_disk_cache"
    using inv by (auto simp: find_idx_Some list_all_length disk_slot_inv_def)
  let ?nm = "strncpy (replicate 16 NUL) name 15"
  have "terminated 16 ?nm"
    using terminated_strncpy [of 15 "replicate 16 NUL" name] by simp
  moreover have "cstr ?nm = take 15 (cstr name)"
    by (rule cstr_strncpy) simp_all
  ultimately show ?thesis
    using None fr s
    by (intro that [of s ?nm])
      (simp_all add: disk_cache_slot_def strcmp_0_iff disk_slot_at_def disk_prev_def disk_cached_iff zero_disk_cache_def)
qed

lemma disk_prev_same:
  assumes "disk_slot_at cache name s" "s < length cache" "cstr (dc_name c) = name"
  shows "disk_prev (cache[s := c]) name = c"
  using assms find_idx_update_hit [of s cache "\<lambda>c. cstr (dc_name c) = name" c]
  by (auto simp: disk_slot_at_def disk_prev_def)

lemma disk_slot_at_other:
  assumes "list_all disk_slot_inv cache" "disk_slot_at cache name s" "s < length cache" "n \<noteq> name" "n \<noteq> []"
  shows "cstr (dc_name (cache ! s)) \<noteq> n"
  using assms cstr_empty_iff [of 16 "dc_name (cache ! s)"]
  by (auto simp: disk_slot_at_def find_idx_Some list_all_length disk_slot_inv_def)

lemma disk_prev_other:
  assumes "list_all disk_slot_inv cache" "disk_slot_at cache name s" "s < length cache" "n \<noteq> name" "n \<noteq> []"
    "cstr (dc_name c) = name"
  shows "disk_prev (cache[s := c]) n = disk_prev cache n"
proof -
  have s: "cstr (dc_name (cache ! s)) \<noteq> n"
    using assms by (intro disk_slot_at_other)
  then have eq: "find_idx (\<lambda>c. cstr (dc_name c) = n) (cache[s := c]) = find_idx (\<lambda>c. cstr (dc_name c) = n) cache"
    using assms by (intro find_idx_update_other) auto
  show ?thesis
  proof (cases "find_idx (\<lambda>c. cstr (dc_name c) = n) cache")
    case None
    then show ?thesis by (simp add: disk_prev_def eq)
  next
    case (Some i)
    then have "i \<noteq> s" using s by (auto simp: find_idx_Some)
    with Some show ?thesis by (simp add: disk_prev_def eq)
  qed
qed

lemma disk_cached_update:
  assumes "list_all disk_slot_inv cache" "disk_slot_at cache name s" "s < length cache" "n \<noteq> []"
    "cstr (dc_name c) = name"
  shows "disk_cached (cache[s := c]) n \<longleftrightarrow> n = name \<or> disk_cached cache n"
proof (cases "n = name")
  case True
  then show ?thesis
    using assms by (auto simp: disk_cached_def intro!: bexI [of _ c] set_update_memI)
next
  case False
  then have "cstr (dc_name (cache ! s)) \<noteq> n"
    using assms by (intro disk_slot_at_other)
  then show ?thesis
    using False assms find_idx_update_other [of "\<lambda>c. cstr (dc_name c) = n" cache s c]
    by (auto simp: disk_cached_iff)
qed

lemma filter_update_length:
  "i < length xs \<Longrightarrow> P (xs ! i) \<Longrightarrow> \<not> P y \<Longrightarrow> Suc (length (filter P (xs[i := y]))) = length (filter P xs)"
  "i < length xs \<Longrightarrow> P (xs ! i) = P y \<Longrightarrow> length (filter P (xs[i := y])) = length (filter P xs)"
  by (induction xs arbitrary: i) (auto split: nat.splits simp: nth_Cons')

lemma disk_free_update:
  assumes "list_all disk_slot_inv cache" "disk_slot_at cache name s" "s < length cache" "name \<noteq> []"
    "dc_name c ! 0 \<noteq> NUL"
  shows "disk_free (cache[s := c]) = (if disk_cached cache name then disk_free cache else disk_free cache - 1)"
proof (cases "disk_cached cache name")
  case True
  then have "cstr (dc_name (cache ! s)) = name"
    using assms(2) unfolding disk_slot_at_def disk_cached_iff by (metis (lifting) find_idx_Some)
  then have "dc_name (cache ! s) ! 0 \<noteq> NUL"
    using assms cstr_empty_iff [of 16 "dc_name (cache ! s)"] by (auto simp: list_all_length disk_slot_inv_def)
  with True assms show ?thesis
    by (simp add: disk_free_def filter_update_length)
next
  case False
  then have "dc_name (cache ! s) ! 0 = NUL"
    using assms(2) by (auto simp: disk_slot_at_def disk_cached_iff find_idx_Some)
  with False assms show ?thesis
    using filter_update_length(1) [of s cache "\<lambda>c. dc_name c ! 0 = NUL" c] by (simp add: disk_free_def)
qed

section \<open>Samples\<close>

text \<open>What a collection reports of a device, from the columns of its line (the counters of the kernel's
  \<^verbatim>\<open>iostats\<close> documentation: 0 reads, 2 sectors read, 3 milliseconds reading, 4 writes, 6 sectors written,
  7 milliseconds writing, 9 milliseconds busy) and from what is remembered of it.\<close>

definition disk_seen :: "disk_cache \<Rightarrow> bool" where
  "disk_seen slot \<longleftrightarrow> (dc_reads slot, dc_writes slot, dc_sectors_read slot, dc_sectors_written slot, dc_io_ticks slot) \<noteq> (0, 0, 0, 0, 0)"

definition disk_report :: "u64 \<Rightarrow> string \<Rightarrow> u64 list \<Rightarrow> disk_cache \<Rightarrow> disk_entry" where
  "disk_report elapsed_ms name v slot =
     \<lparr>disk_name = strncpy (replicate TF_DISK_NAME_SIZE NUL) name 7,
      reads_completed = v ! 0, writes_completed = v ! 4, sectors_read = v ! 2, sectors_written = v ! 6,
      read_ms = v ! 3, write_ms = v ! 7,
      read_iops_delta = (if disk_seen slot then ucast (v ! 0 - dc_reads slot) else 0),
      write_iops_delta = (if disk_seen slot then ucast (v ! 4 - dc_writes slot) else 0),
      io_util_pct_x10 = (if disk_seen slot then ucast (min 1000 ((v ! 9 - dc_io_ticks slot) * 1000 div elapsed_ms)) else 0)\<rparr>"

definition disk_store :: "u64 list \<Rightarrow> disk_cache \<Rightarrow> disk_cache" where
  "disk_store v slot = slot\<lparr>dc_reads := v ! 0, dc_writes := v ! 4, dc_sectors_read := v ! 2,
     dc_sectors_written := v ! 6, dc_read_ms := v ! 3, dc_write_ms := v ! 7, dc_io_ticks := v ! 9\<rparr>"

lemma disk_store_name [simp]: "dc_name (disk_store v slot) = dc_name slot"
  by (simp add: disk_store_def)

lemma disk_sample_eq:
  "elapsed_ms \<noteq> 0 \<Longrightarrow> disk_sample elapsed_ms name v slot = Some (disk_report elapsed_ms name v slot, disk_store v slot)"
  by (auto simp: disk_report_def disk_sample_def disk_store_def disk_seen_def zero_disk_entry_def Let_def min_def not_less word_gt_0
      split: if_split)

lemma disk_report_ignores_name [simp]:
  "disk_report elapsed_ms name v (slot\<lparr>dc_name := nm\<rparr>) = disk_report elapsed_ms name v slot"
  by (simp add: disk_report_def disk_seen_def)

lemma disk_report_inv:
  assumes "elapsed_ms \<noteq> 0"
  shows "disk_entry_inv (disk_report elapsed_ms name v slot)"
proof -
  have "terminated 8 (strncpy (replicate 8 NUL) name 7)"
    using terminated_strncpy [of 7 "replicate 8 NUL" name] by simp
  moreover have "(ucast x :: u16) \<le> 1000" if "x \<le> 1000" for x :: u64
    using that by (simp add: word_le_nat_alt unsigned_ucast_eq take_bit_eq_mod)
  ultimately show ?thesis
    by (simp add: disk_report_def disk_entry_inv_def)
qed

lemma disk_elapsed_defined:
  assumes "monotonic_ok (last_sample_time ctx)" "case t of None \<Rightarrow> True | Some t \<Rightarrow> monotonic_ok t"
  shows "\<exists>ms. disk_elapsed_ms interval t ctx = Some ms \<and> ms \<noteq> 0"
proof -
  have "(ucast interval * 1000 :: u64) \<noteq> 0" if "interval \<noteq> 0"
  proof -
    have "n mod 18446744073709551616 * 1000 mod 18446744073709551616 \<noteq> 0" if "0 < n" "n < 65536" for n :: nat
      using that by simp
    from this [of "unat interval"] have "unat (ucast interval * 1000 :: u64) \<noteq> 0"
      using that by (simp add: unat_word_ariths unsigned_ucast_eq take_bit_eq_mod unat_gt_0)
    then show ?thesis by auto
  qed
  then show ?thesis
    using assms
    by (auto simp: disk_elapsed_ms_def monotonic_ok_def Let_def split: option.splits)
qed

text \<open>The time between two collections in milliseconds: by the monotonic clock when it could be read both
  times and has advanced, else the configured interval; at least 1.\<close>

definition sample_ms :: "u16 \<Rightarrow> timespec option \<Rightarrow> disk_ctx \<Rightarrow> int" where
  "sample_ms interval now ctx =
     (let e = (case now of
          Some t \<Rightarrow> if sample_time_initialized ctx
            then (tv_sec t * 1000000000 + tv_nsec t) - (tv_sec (last_sample_time ctx) * 1000000000 + tv_nsec (last_sample_time ctx))
            else 0
        | None \<Rightarrow> 0)
      in if e > 0 then max 1 (e div 1000000) else 1000 * max 1 (int (unat interval)))"

lemma of_int_div_u64: "0 \<le> x \<Longrightarrow> x < 2 ^ 64 \<Longrightarrow> (of_int x div 1000000 :: u64) = of_int (x div 1000000)"
  by (simp add: word_div_def uint_word_of_int_eq take_bit_int_eq_self)

lemma disk_elapsed_sample_ms:
  assumes "monotonic_ok (last_sample_time ctx)" "case now of None \<Rightarrow> True | Some t \<Rightarrow> monotonic_ok t"
  shows "disk_elapsed_ms interval now ctx = Some (of_int (sample_ms interval now ctx))"
proof -
  let ?ms = "of_int (1000 * max 1 (int (unat interval))) :: u64"
  have ms: "(if interval = 0 then 1000 else ucast interval * 1000) = ?ms"
  proof (cases "interval = 0")
    case False
    then have "max 1 (int (unat interval)) = int (unat interval)" using unat_gt_0 [of interval] by linarith
    moreover have "(ucast interval :: u64) = of_int (int (unat interval))" by (simp only: uint_nat [symmetric] ucast_eq)
    ultimately show ?thesis using False by (simp only: of_int_mult of_int_numeral if_False mult.commute)
  qed simp
  show ?thesis
  proof (cases "\<exists>t. now = Some t \<and> sample_time_initialized ctx")
    case False
    then show ?thesis by (auto simp: disk_elapsed_ms_def sample_ms_def ms split: option.split)
  next
    case True
    then obtain t where t: "now = Some t" "sample_time_initialized ctx" by blast
    let ?l = "last_sample_time ctx"
    define e where "e = (tv_sec t * 1000000000 + tv_nsec t) - (tv_sec ?l * 1000000000 + tv_nsec ?l)"
    have b: "0 \<le> tv_sec t" "tv_sec t < 4000000000" "0 \<le> tv_nsec t" "tv_nsec t < 1000000000"
      "0 \<le> tv_sec ?l" "tv_sec ?l < 4000000000" "0 \<le> tv_nsec ?l" "tv_nsec ?l < 1000000000"
      using assms t by (simp_all add: monotonic_ok_def)
    have e: "(tv_sec t - tv_sec ?l) * 1000000000 + (tv_nsec t - tv_nsec ?l) = e" "e < 4000000001000000000"
      using b by (simp_all add: e_def)
    have div: "(of_int e div 1000000 :: u64) = of_int (e div 1000000)" if "0 < e"
      using that e(2) by (intro of_int_div_u64) simp_all
    have zero: "of_int (e div 1000000) = (0 :: u64) \<longleftrightarrow> e div 1000000 = 0" if "0 < e"
    proof -
      have "0 \<le> e div 1000000" "e div 1000000 < 2 ^ 64" using that e(2) by simp_all
      then show ?thesis
        using zdvd_imp_le [of "2 ^ 64" "e div 1000000"] by (auto simp: word_of_int_eq_0_iff le_less)
    qed
    have "disk_elapsed_ms interval now ctx = Some (if 0 < e then (if e div 1000000 = 0 then 1 else of_int (e div 1000000)) else ?ms)"
    proof -
      have s: "s64 (tv_sec t - tv_sec ?l) = Some (tv_sec t - tv_sec ?l)"
        "s64 ((tv_sec t - tv_sec ?l) * 1000000000) = Some ((tv_sec t - tv_sec ?l) * 1000000000)"
        "s64 (tv_nsec t - tv_nsec ?l) = Some (tv_nsec t - tv_nsec ?l)" "s64 e = Some e"
        using b by (simp_all add: s64_def e_def)
      have "disk_elapsed_ms interval now ctx =
          (if e > 0 then Some (if of_int e div 1000000 = (0 :: u64) then 1 else of_int e div 1000000) else Some ?ms)"
        by (simp only: disk_elapsed_ms_def t option.case s e(1) bind.bind_lunit Let_def if_True ms)
      then show ?thesis using div zero by simp
    qed
    moreover have "sample_ms interval now ctx = (if 0 < e then max 1 (e div 1000000) else 1000 * max 1 (int (unat interval)))"
      by (simp add: sample_ms_def t e_def Let_def)
    moreover have "max 1 (e div 1000000) = (if e div 1000000 = 0 then 1 else e div 1000000)" if "0 < e"
      using that pos_imp_zdiv_nonneg_iff [of 1000000 e] by auto
    ultimately show ?thesis by simp
  qed
qed

section \<open>The loop keeps the invariant\<close>

lemma scanf_disk_name:
  assumes "14 \<le> length (fst (scanf disk_fmt s))"
  shows "\<exists>w. fst (scanf disk_fmt s) ! 2 = A_str w \<and> w \<noteq> [] \<and> set w \<subseteq> set s"
proof -
  have "\<exists>w. fst (scanf (C_u # C_ws # C_u # C_ws # C_s 31 # fs) s) ! 2 = A_str w"
    if "3 \<le> length (fst (scanf (C_u # C_ws # C_u # C_ws # C_s 31 # fs) s))" for fs
    using that by (auto simp: Let_def case_prod_beta split: option.splits if_splits)
  from this [of "concat (replicate 11 [C_ws, C_llu])"] obtain w where w: "fst (scanf disk_fmt s) ! 2 = A_str w"
    using assms by (auto simp: disk_fmt_def simp del: scanf.simps)
  then have "A_str w \<in> set (fst (scanf disk_fmt s))"
    using assms nth_mem [of 2 "fst (scanf disk_fmt s)"] by simp
  with w show ?thesis
    using scanf_strings by blast
qed

lemma disk_prev_inv: "list_all disk_slot_inv cache \<Longrightarrow> disk_slot_inv (disk_prev cache name)"
  by (auto simp: disk_prev_def list_all_length disk_slot_inv_def zero_disk_cache_def find_idx_Some split: option.split)

lemma disk_store_inv:
  assumes "terminated TF_DISK_CACHE_NAME_LEN nm" "cstr nm \<noteq> []"
  shows "disk_slot_inv (disk_store v (slot\<lparr>dc_name := nm\<rparr>))"
  using assms cstr_empty_iff [of 16 nm] by (simp add: disk_slot_inv_def)

lemma disk_loop_inv:
  assumes "elapsed_ms \<noteq> 0" "length cache = TF_MAX_DISKS" "list_all disk_slot_inv cache"
    "length entries = TF_MAX_DISKS" "list_all disk_entry_inv entries" "idx \<le> TF_MAX_DISKS"
  shows "\<exists>cache' entries' idx' rest.
    disk_loop elapsed_ms cache entries idx lines = Some (cache', entries', idx', rest) \<and>
    length cache' = TF_MAX_DISKS \<and> list_all disk_slot_inv cache' \<and>
    length entries' = TF_MAX_DISKS \<and> list_all disk_entry_inv entries' \<and> idx' \<le> TF_MAX_DISKS"
  using assms(2-6)
proof (induction lines arbitrary: cache entries idx)
  case Nil
  then show ?case by simp
next
  case (Cons line lines)
  let ?args = "fst (scanf disk_fmt (cstr line))"
  let ?name = "arg_str (?args ! 2)"
  show ?case
  proof (cases "idx < 16 \<and> 14 \<le> length ?args \<and> \<not> is_partition_name (Some ?name) \<and>
      (disk_cached cache ?name \<or> 0 < disk_free cache)")
    case False
    then show ?thesis
      using Cons disk_cache_slot_none [of cache ?name] by (auto simp: Let_def)
  next
    case True
    obtain s nm where slot: "disk_cache_slot cache (Some ?name) =
        (Some s, cache[s := (disk_prev cache ?name)\<lparr>dc_name := nm\<rparr>])" "s < length cache"
      "terminated 16 nm" "disk_cached cache ?name \<or> cstr nm = take 15 (cstr ?name)"
      "disk_cached cache ?name \<Longrightarrow> cstr nm = ?name"
      using True Cons.prems(2) by (auto elim!: disk_cache_slot_some)
    obtain w where "?args ! 2 = A_str w" "w \<noteq> []" "set w \<subseteq> set (cstr line)"
      using True scanf_disk_name by blast
    then have "?name \<noteq> []" "cstr ?name = ?name"
      using cstr_no_nul [of line] by (auto intro: cstr_id)
    then have "cstr nm \<noteq> []"
      using slot(4,5) by auto
    then have "disk_slot_inv (disk_store v ((disk_prev cache ?name)\<lparr>dc_name := nm\<rparr>))" for v
      using slot(3) by (intro disk_store_inv)
    with True slot(1,2) Cons.prems show ?thesis
      using Cons.IH [of "cache[s := disk_store (map arg_u64 (drop 3 ?args)) ((disk_prev cache ?name)\<lparr>dc_name := nm\<rparr>)]"
          "entries[idx := disk_report elapsed_ms ?name (map arg_u64 (drop 3 ?args)) (disk_prev cache ?name)]" "Suc idx"]
        assms(1) disk_report_inv [OF assms(1)]
      by (simp add: disk_sample_eq list_all_update Let_def)
  qed
qed

lemma disk_collect_inv:
  assumes "disk_ctx_inv ctx" "clock_ok os"
  shows "\<exists>rc ctx'. disk_collect os cfg ctx = Some (rc, ctx') \<and> disk_ctx_inv ctx'"
proof -
  obtain ms where ms: "disk_elapsed_ms (interval_sec cfg) (os_monotonic os) ctx = Some ms" "ms \<noteq> 0"
    using assms disk_elapsed_defined by (metis clock_ok_def disk_ctx_inv_def)
  show ?thesis
  proof (cases "os_file os ''/proc/diskstats''")
    case None
    with assms ms show ?thesis by (simp add: disk_collect_def disk_ctx_inv_def)
  next
    case (Some fp)
    obtain cache entries idx rest where "disk_loop ms (disk_slots ctx) (disk_entries ctx) 0
        (file_lines TF_LINE_BUF_SMALL fp) = Some (cache, entries, idx, rest)"
      "length cache = 16" "list_all disk_slot_inv cache" "length entries = 16"
      "list_all disk_entry_inv entries" "idx \<le> 16"
      using disk_loop_inv [OF ms(2), of "disk_slots ctx" "disk_entries ctx" 0] assms(1)
      by (fastforce simp: disk_ctx_inv_def)
    with Some ms assms show ?thesis
      by (cases "os_monotonic os") (simp_all add: disk_collect_def disk_ctx_inv_def clock_ok_def)
  qed
qed

section \<open>Payload\<close>

lemma length_disk_entry_bytes [simp, len_simps]: "length (disk_entry_bytes e) = 66"
  by (simp add: disk_entry_bytes_def Let_def)

lemma disk_payload_loop_eq:
  "idx + n \<le> length entries \<Longrightarrow> disk_payload_loop entries n idx cursor =
     Some (cursor @ concat (map disk_entry_bytes (take n (drop idx entries))))"
  by (induction n arbitrary: idx cursor) (simp_all add: Cons_nth_drop_Suc [symmetric])

definition disk_payload :: "disk_ctx \<Rightarrow> u8 list" where
  "disk_payload ctx = of_nat (disk_count ctx) #
     concat (map disk_entry_bytes (take (disk_count ctx) (disk_entries ctx)))"

lemma length_disk_payload: "disk_ctx_inv ctx \<Longrightarrow> length (disk_payload ctx) = 1 + 66 * disk_count ctx"
  by (simp add: disk_payload_def length_concat_const len_simps disk_ctx_inv_def)

lemma disk_push_eq:
  assumes "disk_ctx_inv ctx"
  shows "disk_push ctx wrt = (if disk_count ctx = 0 then Some (0, wrt) else
    tlv_put wrt TF_TYPE_DISK (Some (disk_payload ctx)) (of_nat (length (disk_payload ctx))))"
  using assms by (simp add: disk_push_def disk_payload_loop_eq disk_payload_def disk_ctx_inv_def)

lemma disk_ctx_inv_zero: "disk_ctx_inv zero_disk_ctx"
  by (simp add: zero_disk_ctx_def disk_ctx_inv_def disk_slot_inv_def disk_entry_inv_def zero_disk_entry_def
      zero_disk_cache_def monotonic_ok_def list_all_iff)

interpretation disk: collector disk_init disk_destroy disk_collect_api disk_push_api disk_inv
  "\<lambda>s. s \<noteq> None" clock_ok
proof unfold_locales
  show "\<exists>rc s'. disk_init alloc cfg s = Some (rc, s') \<and> disk_inv s' \<and>
      (if alloc then rc = 0 \<and> s' \<noteq> None else rc = - 1 \<and> s' = s)"
    if "disk_inv s" for s cfg alloc
    using that by (simp add: disk_init_def disk_inv_def disk_ctx_inv_zero)
  show "disk_inv (disk_destroy s) \<and> \<not> disk_destroy s \<noteq> None" for s
    by (simp add: disk_destroy_def disk_inv_def)
  show "\<exists>rc sctx' s'. disk_collect_api os cfg sctx s = Some (rc, sctx', s') \<and> disk_inv s' \<and>
      (sctx' = None \<longleftrightarrow> sctx = None) \<and> (s' \<noteq> None \<longleftrightarrow> s \<noteq> None)"
    if "disk_inv s" "clock_ok os" for s cfg os sctx
    using that disk_collect_inv [of _ os cfg]
    by (cases s) (fastforce simp: disk_collect_api_def disk_inv_def)+
  show "\<exists>rc w' s' ts. disk_push_api s (Some w) = Some (rc, Some w', s') \<and> disk_inv s' \<and>
      (s' \<noteq> None \<longleftrightarrow> s \<noteq> None) \<and> appends_tlvs w w' ts" if "disk_inv s" "wf_writer w" for s w
  proof (cases s)
    case None
    then show ?thesis using that by (auto simp: disk_push_api_def intro: appends_nothing)
  next
    case (Some ctx)
    from tlv_put_payload [OF that(2)] obtain rc w' ts where "tlv_put (Some w) TF_TYPE_DISK
      (Some (disk_payload ctx)) (of_nat (length (disk_payload ctx))) = Some (rc, Some w')" "appends_tlvs w w' ts"
      by metis
    then show ?thesis
      using Some that appends_nothing [of w]
      by (cases "disk_count ctx = 0") (auto simp: disk_push_api_def disk_push_eq disk_inv_def)
  qed
  show "disk_push_api s wrt = Some (- 1, wrt, s)" if "\<not> s \<noteq> None" for s wrt
    using that by (simp add: disk_push_api_def)
qed

section \<open>The table of /proc/diskstats\<close>

text \<open>A line: major and minor number, the device name and at least eleven counters.\<close>

type_synonym diskstats_entry = "(nat \<times> nat) \<times> (nat \<times> nat) \<times> string \<times> (nat \<times> nat) list"

definition ds_name :: "diskstats_entry \<Rightarrow> string" where
  "ds_name e = (case e of (major, minor, name, nums) \<Rightarrow> name)"

definition ds_columns :: "diskstats_entry \<Rightarrow> u64 list" where
  "ds_columns e = (case e of (major, minor, name, nums) \<Rightarrow> map (\<lambda>(p, v). of_nat v) (take 11 nums))"

definition diskstats_line :: "diskstats_entry \<Rightarrow> string" where
  "diskstats_line e = (case e of (major, minor, name, nums) \<Rightarrow>
     num_fields [major, minor] @ '' '' @ name @ num_fields nums @ [NEWLINE])"

definition diskstats_entry_ok :: "diskstats_entry \<Rightarrow> bool" where
  "diskstats_entry_ok e = (case e of (major, minor, name, nums) \<Rightarrow>
     name \<noteq> [] \<and> length name \<le> 15 \<and> list_all (\<lambda>c. \<not> isspace c \<and> c \<noteq> NUL) name \<and>
     11 \<le> length nums \<and> list_all (\<lambda>(p, v). v \<le> ULLONG_MAX) (major # minor # nums) \<and>
     full_line TF_LINE_BUF_SMALL (diskstats_line e))"

text \<open>A whole disk: no loop, RAM, device mapper or compressed RAM device, and no partition, which is a
  name with a \<open>p\<close> for NVMe and MMC devices and a name that ends in a digit for all others.\<close>

definition whole_disk :: "diskstats_entry \<Rightarrow> bool" where
  "whole_disk e \<longleftrightarrow> (let n = ds_name e
     in take 4 n \<noteq> ''loop'' \<and> take 3 n \<noteq> ''ram'' \<and> take 3 n \<noteq> ''dm-'' \<and> take 4 n \<noteq> ''zram'' \<and>
        (if take 4 n = ''nvme'' \<or> take 6 n = ''mmcblk'' then CHR ''p'' \<notin> set n
         else last n \<notin> set ''0123456789''))"

lemma isdigit_digits: "isdigit c \<longleftrightarrow> c \<in> set ''0123456789''"
proof -
  have "''0123456789'' = map char_of [48..<58 :: nat]"
    by code_simp
  then have "c \<in> set ''0123456789'' \<longleftrightarrow> c \<in> char_of ` {48..<58 :: nat}"
    by (simp only: set_map set_upt)
  then show ?thesis
    by (auto simp: isdigit_def Let_def image_iff intro: bexI [of _ "of_char c"])
qed

lemma whole_disk_iff: "ds_name e \<noteq> [] \<Longrightarrow> whole_disk e \<longleftrightarrow> \<not> is_partition_name (Some (ds_name e))"
proof -
  assume "ds_name e \<noteq> []"
  moreover have "has_prefix n ''loop'' \<longleftrightarrow> take 4 n = ''loop''" "has_prefix n ''ram'' \<longleftrightarrow> take 3 n = ''ram''"
    "has_prefix n ''dm-'' \<longleftrightarrow> take 3 n = ''dm-''" "has_prefix n ''zram'' \<longleftrightarrow> take 4 n = ''zram''"
    "has_prefix n ''nvme'' \<longleftrightarrow> take 4 n = ''nvme''" "has_prefix n ''mmcblk'' \<longleftrightarrow> take 6 n = ''mmcblk''" for n
    by (simp_all add: has_prefix_def numeral_eq_Suc)
  ultimately show ?thesis
    by (simp add: whole_disk_def is_partition_name_def isdigit_digits last_conv_nth Let_def del: list.set)
qed

lemma scanf_diskstats_line:
  assumes "diskstats_entry_ok e"
  shows "\<exists>major minor. fst (scanf disk_fmt (cstr (diskstats_line e))) =
    [A_u32 major, A_u32 minor, A_str (ds_name e)] @ map A_u64 (ds_columns e)"
proof -
  obtain pa major pi minor name nums where e: "e = ((pa, major), (pi, minor), name, nums)"
    by (metis prod.exhaust)
  have ok: "name \<noteq> []" "length name \<le> 31" "list_all (\<lambda>c. \<not> isspace c) name" "NUL \<notin> set name"
    "11 \<le> length nums" "list_all (\<lambda>(p, v). v \<le> ULLONG_MAX) nums" "major \<le> ULLONG_MAX" "minor \<le> ULLONG_MAX"
    using assms by (auto simp: e diskstats_entry_ok_def list_all_iff)
  let ?cols = "num_fields nums @ [NEWLINE]"
  let ?text = "num_fields [(pa, major), (pi, minor)] @ CHR '' '' # name @ ?cols"
  have "cstr (diskstats_line e) = diskstats_line e"
    using ok(4) num_fields_no_nul by (intro cstr_id) (auto simp: e diskstats_line_def)
  then have line: "cstr (diskstats_line e) = ?text"
    by (simp add: e diskstats_line_def)
  have word: "scanf (C_ws # C_s 31 # fs) (CHR '' '' # name @ ?cols) = (A_str name # fst (scanf fs ?cols), snd (scanf fs ?cols))" for fs
    using ok num_fields_blank [of nums "[NEWLINE]"] by (intro scanf_blank_word) (cases nums; simp)+
  have cols: "fst (scanf (concat (replicate 11 [C_ws, C_llu])) ?cols) = map A_u64 (ds_columns e)"
    using scanf_columns [OF ok(5,6), of "[NEWLINE]"] by (auto simp: e ds_columns_def)
  have blank: "CHR '' '' # name @ ?cols = [] \<or> \<not> isdigit (hd (CHR '' '' # name @ ?cols))"
    by simp
  have "fst (scanf (C_ws # disk_fmt) ?text) =
      [A_u32 (of_nat major), A_u32 (of_nat minor), A_str name] @ map A_u64 (ds_columns e)"
    using scanf_field_simps(3) [OF blank] word cols ok(7,8) unfolding disk_fmt_def
    by (simp add: num_fields_Cons(1) del: scanf.simps)
  moreover have "fst (scanf (C_ws # disk_fmt) ?text) = fst (scanf disk_fmt ?text)"
    by (simp add: disk_fmt_def scanf_skips_blank del: scanf.simps)
  ultimately have "fst (scanf disk_fmt ?text) =
      [A_u32 (of_nat major), A_u32 (of_nat minor), A_str name] @ map A_u64 (ds_columns e)"
    by simp
  then show ?thesis
    unfolding line by (auto simp: e ds_name_def)
qed

text \<open>The devices that find no slot need a free one each.\<close>

definition disk_room :: "disk_cache list \<Rightarrow> string list \<Rightarrow> bool" where
  "disk_room cache names \<longleftrightarrow> length (filter (\<lambda>n. \<not> disk_cached cache n) names) \<le> disk_free cache"

lemma disk_loop_table:
  assumes "elapsed_ms \<noteq> 0" "length cache = TF_MAX_DISKS" "list_all disk_slot_inv cache"
    "length entries = TF_MAX_DISKS" "list_all diskstats_entry_ok es"
    "idx + length (filter whole_disk es) \<le> TF_MAX_DISKS"
    "distinct (map ds_name (filter whole_disk es))" "disk_room cache (map ds_name (filter whole_disk es))"
  shows "\<exists>cache' entries' rest.
    disk_loop elapsed_ms cache entries idx (map diskstats_line es) =
      Some (cache', entries', idx + length (filter whole_disk es), rest) \<and>
    length entries' = TF_MAX_DISKS \<and>
    take (idx + length (filter whole_disk es)) entries' = take idx entries @
      map (\<lambda>e. disk_report elapsed_ms (ds_name e) (ds_columns e) (disk_prev cache (ds_name e))) (filter whole_disk es) \<and>
    (\<forall>n. n \<noteq> [] \<and> n \<notin> ds_name ` set (filter whole_disk es) \<longrightarrow> disk_prev cache' n = disk_prev cache n) \<and>
    (\<forall>e \<in> set (filter whole_disk es). \<exists>slot. disk_prev cache' (ds_name e) = disk_store (ds_columns e) slot)"
  using assms(2-8)
proof (induction es arbitrary: cache entries idx)
  case Nil
  then show ?case by simp
next
  case (Cons e es)
  let ?n = "ds_name e" and ?v = "ds_columns e"
  obtain major minor where scan: "fst (scanf disk_fmt (cstr (diskstats_line e))) =
      [A_u32 major, A_u32 minor, A_str ?n] @ map A_u64 ?v"
    using scanf_diskstats_line [of e] Cons.prems(4) by auto
  have n: "?n \<noteq> []" "length ?n \<le> 15" "cstr ?n = ?n" and len: "length ?v = 11"
    using Cons.prems(4) by (auto simp: diskstats_entry_ok_def ds_name_def ds_columns_def list_all_iff intro!: cstr_id)
  consider (full) "idx = TF_MAX_DISKS" | (part) "idx < TF_MAX_DISKS" "\<not> whole_disk e" | (disk) "whole_disk e"
    using Cons.prems(5) by fastforce
  then show ?case
  proof cases
    case full
    then have "filter whole_disk (e # es) = []" using Cons.prems(5) by simp
    then show ?thesis using full Cons.prems(3) by (simp only:) simp
  next
    case part
    then have "disk_loop elapsed_ms cache entries idx (map diskstats_line (e # es)) =
        disk_loop elapsed_ms cache entries idx (map diskstats_line es)"
      using scan len n(1) by (simp add: Let_def whole_disk_iff)
    then show ?thesis
      using part Cons.IH [of cache entries idx] Cons.prems by simp
  next
    case True: disk
    have "disk_cached cache ?n \<or> 0 < disk_free cache"
      using Cons.prems(7) True by (auto simp: disk_room_def split: if_splits)
    then obtain s nm where slot: "disk_cache_slot cache (Some ?n) =
        (Some s, cache[s := (disk_prev cache ?n)\<lparr>dc_name := nm\<rparr>])" "disk_slot_at cache ?n s"
      "s < length cache" "terminated 16 nm" "cstr nm = ?n"
      using Cons.prems(2) n by (auto elim!: disk_cache_slot_some)
    let ?slot = "disk_store ?v ((disk_prev cache ?n)\<lparr>dc_name := nm\<rparr>)"
    let ?cache = "cache[s := ?slot]"
    let ?e = "disk_report elapsed_ms ?n ?v (disk_prev cache ?n)"
    have nm: "cstr (dc_name ?slot) = ?n" "dc_name ?slot ! 0 \<noteq> NUL"
      using slot(4,5) n(1) cstr_empty_iff [of 16 nm] by auto
    note inv = Cons.prems(2) slot(2,3)
    have inv': "list_all disk_slot_inv ?cache"
      using Cons.prems(2) slot(4,5) n(1) by (intro list_all_update disk_store_inv) auto
    have names: "ds_name d \<noteq> [] \<and> ds_name d \<noteq> ?n" if "d \<in> set (filter whole_disk es)" for d
      using that True Cons.prems(4,6) by (auto simp: list_all_iff diskstats_entry_ok_def ds_name_def)
    have "disk_cached ?cache n \<longleftrightarrow> disk_cached cache n" if "n \<in> set (map ds_name (filter whole_disk es))" for n
      using that names disk_cached_update [OF inv _ nm(1)] by auto
    then have "filter (\<lambda>n. \<not> disk_cached ?cache n) (map ds_name (filter whole_disk es)) =
        filter (\<lambda>n. \<not> disk_cached cache n) (map ds_name (filter whole_disk es))"
      by (intro filter_cong) simp_all
    then have room: "disk_room ?cache (map ds_name (filter whole_disk es))"
      using Cons.prems(7) True disk_free_update [OF inv n(1) nm(2)] by (auto simp: disk_room_def split: if_splits)
    have step: "disk_loop elapsed_ms cache entries idx (map diskstats_line (e # es)) =
        disk_loop elapsed_ms ?cache (entries[idx := ?e]) (Suc idx) (map diskstats_line es)"
      using True Cons.prems scan len slot(1,3) assms(1) n(1) by (simp add: disk_sample_eq whole_disk_iff Let_def comp_def)
    have entry: "take (Suc idx) (entries[idx := ?e]) = take idx entries @ [?e]"
      using True Cons.prems by (intro take_list_update_append) simp
    have other: "disk_prev ?cache (ds_name d) = disk_prev cache (ds_name d)"
      if "d \<in> set (filter whole_disk es)" for d
      using names [OF that] nm(1) by (intro disk_prev_other [OF inv]) auto
    have same: "disk_prev ?cache ?n = ?slot"
      using slot(2,3) nm(1) by (rule disk_prev_same)
    have "idx + length (filter whole_disk (e # es)) = Suc idx + length (filter whole_disk es)"
      using True by simp
    moreover obtain cache' entries' rest where
      "disk_loop elapsed_ms ?cache (entries[idx := ?e]) (Suc idx) (map diskstats_line es) =
        Some (cache', entries', Suc idx + length (filter whole_disk es), rest)" "length entries' = 16"
      and report: "take (Suc idx + length (filter whole_disk es)) entries' = take (Suc idx) (entries[idx := ?e]) @
        map (\<lambda>d. disk_report elapsed_ms (ds_name d) (ds_columns d) (disk_prev ?cache (ds_name d))) (filter whole_disk es)"
      and frame: "\<forall>n. n \<noteq> [] \<and> n \<notin> ds_name ` set (filter whole_disk es) \<longrightarrow> disk_prev cache' n = disk_prev ?cache n"
      and stored: "\<forall>d \<in> set (filter whole_disk es). \<exists>slot. disk_prev cache' (ds_name d) = disk_store (ds_columns d) slot"
      using Cons.IH [of ?cache "entries[idx := ?e]" "Suc idx"] Cons.prems True inv' room by auto
    moreover have "disk_prev cache' ?n = ?slot"
      using frame names n(1) same by fastforce
    moreover have "disk_prev cache' m = disk_prev cache m"
      if "m \<noteq> []" "m \<notin> ds_name ` set (filter whole_disk (e # es))" for m
      using that frame True disk_prev_other [OF inv _ _ nm(1)] by auto
    moreover have "map (\<lambda>d. disk_report elapsed_ms (ds_name d) (ds_columns d) (disk_prev ?cache (ds_name d))) (filter whole_disk es) =
        map (\<lambda>d. disk_report elapsed_ms (ds_name d) (ds_columns d) (disk_prev cache (ds_name d))) (filter whole_disk es)"
      using other by (intro map_cong) auto
    ultimately show ?thesis
      unfolding step using True entry by (intro exI [of _ cache'] exI [of _ entries'] exI [of _ rest]) auto
  qed
qed

section \<open>Properties\<close>

text \<open>C8: on a \<^verbatim>\<open>/proc/diskstats\<close> in the kernel's format with at most sixteen whole disks, whose
  distinct names have at most fifteen characters and for which the cache has room, a collection reports exactly
  the whole disks in order, each with the counters of its line and, if it was seen before, the differences to
  the counters remembered of it and the busy share of the time since the last collection (at most 100.0
  percent); and it remembers the new counters under the device's name without disturbing those of other
  devices.\<close>

theorem disk_collect_table:
  assumes "disk_ctx_inv ctx" "clock_ok os"
    "os_file os ''/proc/diskstats'' = Some (concat (map diskstats_line es))"
    "list_all diskstats_entry_ok es" "distinct (map ds_name (filter whole_disk es))"
    "length (filter whole_disk es) \<le> TF_MAX_DISKS"
    "disk_room (disk_slots ctx) (map ds_name (filter whole_disk es))"
  shows "\<exists>ctx'. disk_collect os cfg ctx = Some (0, ctx') \<and>
    take (disk_count ctx') (disk_entries ctx') =
      map (\<lambda>e. disk_report (of_int (sample_ms (interval_sec cfg) (os_monotonic os) ctx)) (ds_name e) (ds_columns e) (disk_prev (disk_slots ctx) (ds_name e)))
        (filter whole_disk es) \<and>
    (\<forall>n. n \<noteq> [] \<and> n \<notin> ds_name ` set (filter whole_disk es) \<longrightarrow>
       disk_prev (disk_slots ctx') n = disk_prev (disk_slots ctx) n) \<and>
    (\<forall>e \<in> set (filter whole_disk es). \<exists>slot.
       disk_prev (disk_slots ctx') (ds_name e) = disk_store (ds_columns e) slot)"
proof -
  define ms :: u64 where "ms = of_int (sample_ms (interval_sec cfg) (os_monotonic os) ctx)"
  have ms: "disk_elapsed_ms (interval_sec cfg) (os_monotonic os) ctx = Some ms" "ms \<noteq> 0"
    using assms(1,2) disk_elapsed_defined [of ctx "os_monotonic os" "interval_sec cfg"]
      disk_elapsed_sample_ms [of ctx "os_monotonic os" "interval_sec cfg"]
    by (simp_all add: ms_def clock_ok_def disk_ctx_inv_def)
  have "list_all (full_line TF_LINE_BUF_SMALL) (map diskstats_line es)"
    using assms(4) by (auto simp: list_all_iff diskstats_entry_ok_def)
  then have lines: "file_lines TF_LINE_BUF_SMALL (concat (map diskstats_line es)) = map diskstats_line es"
    by (rule file_lines_concat)
  obtain cache' entries' rest where "disk_loop ms (disk_slots ctx) (disk_entries ctx) 0 (map diskstats_line es) =
      Some (cache', entries', length (filter whole_disk es), rest)"
    "take (length (filter whole_disk es)) entries' =
      map (\<lambda>e. disk_report ms (ds_name e) (ds_columns e) (disk_prev (disk_slots ctx) (ds_name e))) (filter whole_disk es)"
    "\<forall>n. n \<noteq> [] \<and> n \<notin> ds_name ` set (filter whole_disk es) \<longrightarrow> disk_prev cache' n = disk_prev (disk_slots ctx) n"
    "\<forall>e \<in> set (filter whole_disk es). \<exists>slot. disk_prev cache' (ds_name e) = disk_store (ds_columns e) slot"
    using disk_loop_table [OF ms(2) _ _ _ assms(4), of "disk_slots ctx" "disk_entries ctx" 0] assms(1,5-7)
    by (auto simp: disk_ctx_inv_def)
  with ms(1) assms(3) lines show ?thesis
    unfolding ms_def [symmetric] by (cases "os_monotonic os") (simp_all add: disk_collect_def)
qed

definition disk_example :: "diskstats_entry list" where
  "disk_example =
     [((0, 8), (0, 0), ''sda'', [(0,9),(0,0),(0,8),(0,7),(0,6),(0,0),(0,5),(0,4),(0,0),(0,3),(0,0)]),
      ((0, 8), (0, 9), ''sda9'', [(0,9),(0,0),(0,8),(0,7),(0,6),(0,0),(0,5),(0,4),(0,0),(0,3),(0,0)])]"

definition disk_example_os :: os where
  "disk_example_os = os_of_files [(''/proc/diskstats'', concat (map diskstats_line disk_example))]"

lemma show_u_digit: "n < 10 \<Longrightarrow> show_u n = [char_of (48 + n)]"
  by (simp add: show_u.simps)

lemma disk_example_ok: "list_all diskstats_entry_ok disk_example"
  by (simp add: disk_example_def diskstats_entry_ok_def diskstats_line_def full_line_def num_fields_Cons
      show_u_digit isspace_def char_of_def bit_0)

lemma disk_example_whole: "filter whole_disk disk_example = [hd disk_example]"
  by (simp add: disk_example_def whole_disk_def ds_name_def)

theorem disk_collect_table_witness:
  "\<exists>ctx'. disk_collect disk_example_os (undefined\<lparr>interval_sec := 5\<rparr>) zero_disk_ctx = Some (0, ctx') \<and>
    take (disk_count ctx') (disk_entries ctx') =
      [\<lparr>disk_name = ''sda'' @ replicate 5 NUL, reads_completed = 9, writes_completed = 6, sectors_read = 8, sectors_written = 5,
        read_ms = 7, write_ms = 4, read_iops_delta = 0, write_iops_delta = 0, io_util_pct_x10 = 0\<rparr>]"
proof -
  have "os_monotonic disk_example_os = None" "clock_ok disk_example_os"
    "os_file disk_example_os ''/proc/diskstats'' = Some (concat (map diskstats_line disk_example))"
    by (simp_all add: disk_example_os_def os_of_files_def clock_ok_def)
  moreover have "disk_prev (disk_slots zero_disk_ctx) ''sda'' = zero_disk_cache"
    by (simp add: disk_prev_def zero_disk_ctx_def split: option.split) (auto simp: find_idx_Some)
  moreover have "disk_room (disk_slots zero_disk_ctx) [n]" for n
    by (simp add: disk_room_def disk_free_def zero_disk_ctx_def zero_disk_cache_def)
  moreover have "ds_name (hd disk_example) = ''sda''"
    "ds_columns (hd disk_example) = [9, 0, 8, 7, 6, 0, 5, 4, 0, 3, 0]"
    by (simp_all add: disk_example_def ds_name_def ds_columns_def)
  moreover have "strncpy (replicate 8 NUL) ''sda'' 7 = ''sda'' @ replicate 5 NUL"
    by (simp add: strncpy_def cstr_def numeral_eq_Suc)
  then have "disk_report ms ''sda'' [9, 0, 8, 7, 6, 0, 5, 4, 0, 3, 0] zero_disk_cache =
      \<lparr>disk_name = ''sda'' @ replicate 5 NUL, reads_completed = 9, writes_completed = 6, sectors_read = 8, sectors_written = 5,
        read_ms = 7, write_ms = 4, read_iops_delta = 0, write_iops_delta = 0, io_util_pct_x10 = 0\<rparr>" for ms
    by (simp add: disk_report_def disk_seen_def zero_disk_cache_def)
  ultimately show ?thesis
    using disk_collect_table [OF disk_ctx_inv_zero, of disk_example_os disk_example "undefined\<lparr>interval_sec := 5\<rparr>"]
      disk_example_ok
    by (auto simp: disk_example_whole)
qed

text \<open>C26: the per-interval figures: for a device seen before whose counters did not run backwards,
  the reported operations are the differences of the counters (modulo the 32 bits of the field) and
  the utilisation is the share of the elapsed time the device was busy, in tenths of a percent,
  capped at 100 percent.\<close>

theorem disk_sample_rates:
  assumes "length v = 11" "elapsed_ms \<noteq> 0"
    and seen: "dc_reads slot \<noteq> 0 \<or> dc_writes slot \<noteq> 0 \<or> dc_sectors_read slot \<noteq> 0 \<or>
      dc_sectors_written slot \<noteq> 0 \<or> dc_io_ticks slot \<noteq> 0"
    and forward: "dc_reads slot \<le> v ! 0" "dc_writes slot \<le> v ! 4" "dc_io_ticks slot \<le> v ! 9"
    and small: "(unat (v ! 9) - unat (dc_io_ticks slot)) * 1000 \<le> ULLONG_MAX"
  shows "\<exists>entry slot'. disk_sample elapsed_ms name v slot = Some (entry, slot') \<and>
    unat (read_iops_delta entry) = (unat (v ! 0) - unat (dc_reads slot)) mod 2 ^ 32 \<and>
    unat (write_iops_delta entry) = (unat (v ! 4) - unat (dc_writes slot)) mod 2 ^ 32 \<and>
    unat (io_util_pct_x10 entry) =
      min 1000 ((unat (v ! 9) - unat (dc_io_ticks slot)) * 1000 div unat elapsed_ms)"
proof -
  define d where "d = v ! 9 - dc_io_ticks slot"
  have delta: "unat (ucast (if 0 < x then x else 0) :: u32) = unat x mod 2 ^ 32" for x :: u64
    by (auto simp: unsigned_ucast_eq take_bit_eq_mod word_gt_0)
  have d: "unat d = unat (v ! 9) - unat (dc_io_ticks slot)"
    unfolding d_def using forward(3) by (rule unat_sub_u64)
  have mult: "unat (d * 1000) = unat d * 1000"
    using small unfolding d [symmetric] by (simp add: unat_word_ariths)
  have util: "unat (ucast (if d * 1000 div elapsed_ms > 1000 then 1000 else d * 1000 div elapsed_ms) :: u16) =
      min 1000 (unat d * 1000 div unat elapsed_ms)"
    by (auto simp: mult unsigned_ucast_eq take_bit_eq_mod word_less_nat_alt unat_div)
  have idle: "v ! 9 = dc_io_ticks slot \<Longrightarrow> unat d = 0"
    by (simp add: d_def)
  show ?thesis
    unfolding d [symmetric]
    using assms(2) seen idle delta [of "v ! 0 - dc_reads slot"] delta [of "v ! 4 - dc_writes slot"] util
      forward(1,2) [THEN unat_sub_u64]
    by (auto simp: disk_sample_def Let_def d_def [symmetric] word_gt_0)
qed

theorem disk_sample_rates_witness:
  "\<exists>entry slot'. disk_sample 5000 ''sda'' [20, 0, 8, 7, 9, 0, 5, 4, 0, 2500, 0]
      (zero_disk_cache\<lparr>dc_reads := 9, dc_writes := 9, dc_io_ticks := 500\<rparr>) = Some (entry, slot') \<and>
    unat (read_iops_delta entry) = 11 \<and> unat (write_iops_delta entry) = 0 \<and> unat (io_util_pct_x10 entry) = 400"
  using disk_sample_rates [of "[20, 0, 8, 7, 9, 0, 5, 4, 0, 2500, 0]" 5000
      "zero_disk_cache\<lparr>dc_reads := 9, dc_writes := 9, dc_io_ticks := 500\<rparr>" "''sda''"]
  by simp

text \<open>C34: a push of \<open>n\<close> disks announces \<open>n\<close> entries of 66 bytes in the payload, but the TLV it
  appends carries the payload length modulo 256: with up to three disks the TLV is the whole
  payload, with four or more it is cut.\<close>

theorem disk_push_payload:
  assumes "disk_ctx_inv ctx" "wf_writer w" "0 < disk_count ctx" "wlen w + 257 \<le> cap w"
  shows "\<exists>w'. disk_push ctx (Some w) = Some (0, Some w') \<and>
    appends_tlvs w w' [(TF_TYPE_DISK, take ((1 + 66 * disk_count ctx) mod 256) (disk_payload ctx))] \<and>
    (disk_count ctx \<le> 3 \<longrightarrow> take ((1 + 66 * disk_count ctx) mod 256) (disk_payload ctx) = disk_payload ctx)"
  using tlv_put_payload_room [OF assms(2,4), of TF_TYPE_DISK "disk_payload ctx"] assms(1,3)
  by (auto simp: disk_push_eq length_disk_payload)

theorem disk_push_payload_witness:
  "\<exists>w'. disk_push (zero_disk_ctx\<lparr>disk_count := 4\<rparr>) (Some (writer_of_size 1400)) = Some (0, Some w') \<and>
    appends_tlvs (writer_of_size 1400) w' [(TF_TYPE_DISK, take 9 (disk_payload (zero_disk_ctx\<lparr>disk_count := 4\<rparr>)))]"
proof -
  have "disk_ctx_inv (zero_disk_ctx\<lparr>disk_count := 4\<rparr>)"
    using disk_ctx_inv_zero by (simp add: disk_ctx_inv_def)
  then show ?thesis
    using disk_push_payload [of "zero_disk_ctx\<lparr>disk_count := 4\<rparr>" "writer_of_size 1400"] by simp
qed

text \<open>C40: a device whose name is longer than the fifteen characters a cache slot holds is never
  found again: each lookup takes a fresh slot with zero counters, until no slot is free.\<close>

theorem disk_cache_slot_long_name:
  assumes "list_all disk_slot_inv cache" "15 < length name" "NUL \<notin> set name" "0 < disk_free cache"
  shows "\<exists>s cache' nm. disk_cache_slot cache (Some name) = (Some s, cache') \<and> s < length cache' \<and>
    cache' ! s = zero_disk_cache\<lparr>dc_name := nm\<rparr> \<and> disk_free cache' = disk_free cache - 1"
proof -
  have "cstr (dc_name c) \<noteq> name" if "c \<in> set cache" for c
    using that assms(1,2) cstr_terminated [of 16 "dc_name c"] by (auto simp: list_all_iff disk_slot_inv_def)
  then have new: "\<not> disk_cached cache name"
    by (auto simp: disk_cached_def)
  then have "disk_prev cache name = zero_disk_cache"
    by (simp add: disk_prev_def disk_cached_iff)
  moreover obtain s nm where slot: "disk_cache_slot cache (Some name) =
      (Some s, cache[s := (disk_prev cache name)\<lparr>dc_name := nm\<rparr>])" "disk_slot_at cache name s" "s < length cache"
    "terminated 16 nm" "cstr nm = take 15 (cstr name)"
    using assms(1,4) new by (auto elim!: disk_cache_slot_some)
  moreover have "nm ! 0 \<noteq> NUL"
    using slot(4,5) assms(2,3) cstr_empty_iff [of 16 nm] by (cases name) (auto simp: cstr_id)
  ultimately show ?thesis
    using new disk_free_update [OF assms(1) slot(2,3), of "zero_disk_cache\<lparr>dc_name := nm\<rparr>"] assms(2)
    by (cases name) auto
qed

theorem disk_cache_slot_long_name_witness:
  "\<exists>s cache' nm. disk_cache_slot (disk_slots zero_disk_ctx) (Some ''mmcblk0verylongname'') = (Some s, cache') \<and>
    s < length cache' \<and> cache' ! s = zero_disk_cache\<lparr>dc_name := nm\<rparr> \<and> disk_free cache' = 15"
proof -
  have "disk_free (disk_slots zero_disk_ctx) = 16"
    by (simp add: disk_free_def zero_disk_ctx_def zero_disk_cache_def)
  moreover have "list_all disk_slot_inv (disk_slots zero_disk_ctx)"
    using disk_ctx_inv_zero by (simp add: disk_ctx_inv_def)
  ultimately show ?thesis
    using disk_cache_slot_long_name [of "disk_slots zero_disk_ctx" "''mmcblk0verylongname''"] by simp
qed

end
