(* ===== verification/Fs.thy ===== *)
theory Fs
  imports Collector
begin

text \<open>
  \<^verbatim>\<open>agent/src/fs.c\<close>: size and usage of up to sixteen mounted file systems of the types in a
  white list, from \<^verbatim>\<open>/proc/mounts\<close> and \<^verbatim>\<open>statvfs\<close>. The \<^verbatim>\<open>fscanf\<close> loop is shown to end, and
  to report the table of mounts as long as every field fits its buffer.
\<close>

section \<open>State\<close>

record fs_entry =
  fs_mount :: "char list"
  fs_total_kb :: u64
  fs_used_pct_x10 :: u16

record fs_ctx =
  fs_entries :: "fs_entry list"
  fs_count :: nat
  fs_truncated :: bool

type_synonym fs_col = "fs_ctx option"

definition zero_fs_entry :: fs_entry where
  "zero_fs_entry = \<lparr>fs_mount = replicate TF_FS_MOUNT_SIZE NUL, fs_total_kb = 0, fs_used_pct_x10 = 0\<rparr>"

definition zero_fs_ctx :: fs_ctx where
  "zero_fs_ctx = \<lparr>fs_entries = replicate TF_MAX_FS zero_fs_entry, fs_count = 0, fs_truncated = False\<rparr>"

section \<open>Operations\<close>

definition fs_whitelist :: "string list" where
  "fs_whitelist = [''ext4'', ''ext3'', ''ext2'', ''f2fs'', ''btrfs'', ''xfs'', ''vfat'', ''ntfs'', ''exfat'']"

definition fs_type_allowed :: "string \<Rightarrow> bool" where
  "fs_type_allowed type = list_ex (\<lambda>t. strcmp type t = 0) fs_whitelist"

definition fs_init :: "bool \<Rightarrow> agent_config \<Rightarrow> fs_col \<Rightarrow> (int \<times> fs_col) option" where
  "fs_init alloc cfg col = (if \<not> alloc then Some (- 1, col) else Some (0, Some zero_fs_ctx))"

definition fs_destroy :: "fs_col \<Rightarrow> fs_col" where
  "fs_destroy col = None"

text \<open>\<^verbatim>\<open>"%15s %127s %31s %127s %d %d"\<close>\<close>

definition mounts_fmt :: "conv list" where
  "mounts_fmt = [C_s 15, C_ws, C_s 127, C_ws, C_s 31, C_ws, C_s 127, C_ws, C_d, C_ws, C_d]"

text \<open>The assignments to one slot of \<^verbatim>\<open>ctx->entries\<close>; all arithmetic is on 64-bit words.\<close>

definition fs_fill :: "string \<Rightarrow> statvfs \<Rightarrow> fs_entry" where
  "fs_fill mount svfs =
     (let entry = zero_fs_entry;
          entry = entry\<lparr>fs_mount := strncpy (fs_mount entry) mount (TF_FS_MOUNT_SIZE - 1)\<rparr>;
          entry = entry\<lparr>fs_mount := (fs_mount entry)[TF_FS_MOUNT_SIZE - 1 := NUL]\<rparr>;
          totalb = f_blocks svfs * f_frsize svfs div 1024;
          freeb = f_bavail svfs * f_frsize svfs div 1024;
          entry = entry\<lparr>fs_total_kb := totalb\<rparr>
      in if totalb = 0 then entry\<lparr>fs_used_pct_x10 := 0\<rparr>
         else let used = (if totalb > freeb then totalb - freeb else 0);
                  pct10 = used * 1000 div totalb;
                  pct10 = (if pct10 > 1000 then 1000 else pct10)
              in entry\<lparr>fs_used_pct_x10 := ucast pct10\<rparr>)"

text \<open>\<^verbatim>\<open>fscanf(mounts_fp, TF_FSCANF_MOUNTS_FMT, dev, mount, type, opts, &freq, &passno) == 6\<close>: the
  mount point and the type that were read and the rest of the stream. (The stream is not read again
  after a scan that fails.)\<close>

definition mounts_read :: "string \<Rightarrow> (string \<times> string \<times> string) option" where
  "mounts_read fp = (let (args, rest) = scanf mounts_fmt fp
     in if length args = 6 then Some (cstr (arg_str (args ! 1)), cstr (arg_str (args ! 2)), rest) else None)"

lemma mounts_read_shrinks:
  assumes "mounts_read fp = Some (mount, type, rest)"
  shows "length rest < length fp"
proof -
  from assms obtain a as where "scanf mounts_fmt fp = (a # as, rest)"
    by (cases "fst (scanf mounts_fmt fp)"; cases "scanf mounts_fmt fp")
      (auto simp: mounts_read_def Let_def split: if_splits)
  then show ?thesis
    unfolding mounts_fmt_def by (rule scanf_word_shrinks)
qed

text \<open>The loop; the results are the slots, \<^verbatim>\<open>idx\<close> and the rest of the stream.\<close>

function fs_loop :: "(string \<Rightarrow> statvfs option) \<Rightarrow> fs_entry list \<Rightarrow> nat \<Rightarrow> string
  \<Rightarrow> (fs_entry list \<times> nat \<times> string) option" where
  "fs_loop vfs entries idx fp =
     (if \<not> idx < TF_MAX_FS then Some (entries, idx, fp)
      else case mounts_read fp of
          None \<Rightarrow> Some (entries, idx, fp)
        | Some (mount, type, rest) \<Rightarrow>
            if \<not> fs_type_allowed type then fs_loop vfs entries idx rest
            else (case vfs mount of
                None \<Rightarrow> fs_loop vfs entries idx rest
              | Some svfs \<Rightarrow> do {
                  entries \<leftarrow> arr_set entries idx (fs_fill mount svfs);
                  fs_loop vfs entries (idx + 1) rest }))"
  by pat_completeness auto
termination
  by (relation "measure (\<lambda>(vfs, entries, idx, fp). length fp)") (auto dest: mounts_read_shrinks)

declare fs_loop.simps [simp del]

definition fs_collect :: "os \<Rightarrow> agent_config \<Rightarrow> fs_ctx \<Rightarrow> (int \<times> fs_ctx) option" where
  "fs_collect os cfg ctx =
     (case os_file os ''/proc/mounts'' of
        None \<Rightarrow> Some (- 1, ctx\<lparr>fs_count := 0\<rparr>)
      | Some mounts_fp \<Rightarrow>
          do { (entries, idx, fp) \<leftarrow> fs_loop (os_statvfs os) (fs_entries ctx) 0 mounts_fp;
               let truncated =
                 (if TF_MAX_FS \<le> idx \<and> \<not> fs_truncated ctx
                  then (case mounts_read fp of
                      Some (mount, type, rest) \<Rightarrow> fs_type_allowed type
                    | None \<Rightarrow> False)
                  else fs_truncated ctx);
               Some (0, ctx\<lparr>fs_entries := entries, fs_truncated := truncated, fs_count := idx\<rparr>) })"

definition fs_entry_bytes :: "fs_entry \<Rightarrow> u8 list" where
  "fs_entry_bytes entry =
     (let name = strncpy (replicate TF_FS_MOUNT_SIZE NUL) (fs_mount entry) (TF_FS_MOUNT_SIZE - 1);
          cursor = map byte_of_char name;
          cursor = buf_put_be_u64 cursor (fs_total_kb entry)
      in buf_put_be_u16 cursor (fs_used_pct_x10 entry))"

fun fs_payload_loop :: "fs_entry list \<Rightarrow> nat \<Rightarrow> nat \<Rightarrow> u8 list \<Rightarrow> u8 list option" where
  "fs_payload_loop entries 0 idx cursor = Some cursor"
| "fs_payload_loop entries (Suc n) idx cursor =
     do { entry \<leftarrow> arr_get entries idx;
          fs_payload_loop entries n (idx + 1) (cursor @ fs_entry_bytes entry) }"

definition fs_push :: "fs_ctx \<Rightarrow> tlv_writer option \<Rightarrow> (int \<times> tlv_writer option) option" where
  "fs_push ctx wrt =
     (if fs_count ctx = 0 then Some (0, wrt)
      else do {
        payload \<leftarrow> fs_payload_loop (fs_entries ctx) (fs_count ctx) 0 [of_nat (fs_count ctx)];
        tlv_put wrt TF_TYPE_FS (Some payload) (of_nat (length payload)) })"

definition fs_collect_api ::
  "os \<Rightarrow> agent_config \<Rightarrow> sample_context option \<Rightarrow> fs_col \<Rightarrow> (int \<times> sample_context option \<times> fs_col) option"
where
  "fs_collect_api os cfg sctx col =
     (case col of
        None \<Rightarrow> Some (- 1, sctx, col)
      | Some ctx \<Rightarrow> do { (rc, ctx') \<leftarrow> fs_collect os cfg ctx; Some (rc, sctx, Some ctx') })"

definition fs_push_api ::
  "fs_col \<Rightarrow> tlv_writer option \<Rightarrow> (int \<times> tlv_writer option \<times> fs_col) option" where
  "fs_push_api col wrt =
     (case col of
        None \<Rightarrow> Some (- 1, wrt, col)
      | Some ctx \<Rightarrow> do { (rc, wrt') \<leftarrow> fs_push ctx wrt; Some (rc, wrt', col) })"

definition fs_print_entry :: "fs_entry \<Rightarrow> string" where
  "fs_print_entry e = ''  - '' @ cstr (fs_mount e) @ '': total='' @ show_u (unat (fs_total_kb e)) @
     '' kB used='' @ show_u (unat (fs_used_pct_x10 e) div 10) @ ''.'' @
     show_u (unat (fs_used_pct_x10 e) mod 10) @ ''%%'' @ [NEWLINE]"

definition fs_print :: "fs_col \<Rightarrow> string" where
  "fs_print col =
     (case col of
        None \<Rightarrow> []
      | Some ctx \<Rightarrow> ''FS  : count='' @ show_u (fs_count ctx) @ [NEWLINE] @
          concat (map fs_print_entry (take (fs_count ctx) (fs_entries ctx))))"

section \<open>Invariant\<close>

definition fs_entry_inv :: "fs_entry \<Rightarrow> bool" where
  "fs_entry_inv e \<longleftrightarrow> terminated TF_FS_MOUNT_SIZE (fs_mount e) \<and> fs_used_pct_x10 e \<le> 1000"

definition fs_ctx_inv :: "fs_ctx \<Rightarrow> bool" where
  "fs_ctx_inv ctx \<longleftrightarrow> length (fs_entries ctx) = TF_MAX_FS \<and> list_all fs_entry_inv (fs_entries ctx) \<and>
     fs_count ctx \<le> TF_MAX_FS"

definition fs_inv :: "fs_col \<Rightarrow> bool" where
  "fs_inv col \<longleftrightarrow> (case col of None \<Rightarrow> True | Some ctx \<Rightarrow> fs_ctx_inv ctx)"

lemma fs_fill_mount:
  "terminated TF_FS_MOUNT_SIZE (fs_mount (fs_fill mount svfs))"
  "cstr (fs_mount (fs_fill mount svfs)) = take 15 (cstr mount)"
proof -
  let ?n = "strncpy (replicate 16 NUL) mount 15"
  have t: "terminated 16 ?n"
    using terminated_strncpy [of 15 "replicate 16 NUL" mount] by simp
  then have "?n[15 := NUL] = ?n"
    by (simp add: terminated_def list_update_same_conv)
  then have n: "fs_mount (fs_fill mount svfs) = ?n"
    by (simp add: fs_fill_def zero_fs_entry_def Let_def)
  then show "terminated TF_FS_MOUNT_SIZE (fs_mount (fs_fill mount svfs))"
    using t by simp
  show "cstr (fs_mount (fs_fill mount svfs)) = take 15 (cstr mount)"
    unfolding n by (rule cstr_strncpy) simp_all
qed

lemma fs_fill_inv: "fs_entry_inv (fs_fill mount svfs)"
proof -
  have "(ucast x :: u16) \<le> 1000" if "x \<le> 1000" for x :: u64
    using that by (simp add: word_le_nat_alt unsigned_ucast_eq take_bit_eq_mod)
  then have "fs_used_pct_x10 (fs_fill mount svfs) \<le> 1000"
    by (simp add: fs_fill_def zero_fs_entry_def Let_def)
  then show ?thesis
    using fs_fill_mount(1) by (simp add: fs_entry_inv_def)
qed

lemma fs_loop_inv:
  assumes "length entries = TF_MAX_FS" "list_all fs_entry_inv entries" "idx \<le> TF_MAX_FS"
  shows "\<exists>entries' idx' rest. fs_loop vfs entries idx fp = Some (entries', idx', rest) \<and>
    length entries' = TF_MAX_FS \<and> list_all fs_entry_inv entries' \<and> idx' \<le> TF_MAX_FS"
  using assms
proof (induction vfs entries idx fp rule: fs_loop.induct)
  case (1 vfs entries idx fp)
  have "list_all fs_entry_inv (entries[idx := fs_fill m v])" for m v
    using 1(5) fs_fill_inv by (intro list_all_update)
  then show ?case
    using 1
    by (subst fs_loop.simps) (auto split: option.split)
qed

lemma fs_collect_inv:
  assumes "fs_ctx_inv ctx"
  shows "\<exists>rc ctx'. fs_collect os cfg ctx = Some (rc, ctx') \<and> fs_ctx_inv ctx'"
proof (cases "os_file os ''/proc/mounts''")
  case None
  with assms show ?thesis by (simp add: fs_collect_def fs_ctx_inv_def)
next
  case (Some fp)
  obtain entries idx rest where "fs_loop (os_statvfs os) (fs_entries ctx) 0 fp = Some (entries, idx, rest)"
    "length entries = 16" "list_all fs_entry_inv entries" "idx \<le> 16"
    using fs_loop_inv [of "fs_entries ctx" 0] assms by (fastforce simp: fs_ctx_inv_def)
  with Some show ?thesis by (simp add: fs_collect_def fs_ctx_inv_def)
qed

section \<open>Payload\<close>

lemma length_fs_entry_bytes [simp, len_simps]: "length (fs_entry_bytes e) = 26"
  by (simp add: fs_entry_bytes_def Let_def)

lemma fs_payload_loop_eq:
  "idx + n \<le> length entries \<Longrightarrow> fs_payload_loop entries n idx cursor =
     Some (cursor @ concat (map fs_entry_bytes (take n (drop idx entries))))"
  by (induction n arbitrary: idx cursor) (simp_all add: Cons_nth_drop_Suc [symmetric])

definition fs_payload :: "fs_ctx \<Rightarrow> u8 list" where
  "fs_payload ctx = of_nat (fs_count ctx) # concat (map fs_entry_bytes (take (fs_count ctx) (fs_entries ctx)))"

lemma length_fs_payload: "fs_ctx_inv ctx \<Longrightarrow> length (fs_payload ctx) = 1 + 26 * fs_count ctx"
  by (simp add: fs_payload_def length_concat_const len_simps fs_ctx_inv_def)

lemma fs_push_eq:
  assumes "fs_ctx_inv ctx"
  shows "fs_push ctx wrt = (if fs_count ctx = 0 then Some (0, wrt) else
    tlv_put wrt TF_TYPE_FS (Some (fs_payload ctx)) (of_nat (length (fs_payload ctx))))"
  using assms by (simp add: fs_push_def fs_payload_loop_eq fs_payload_def fs_ctx_inv_def)

lemma fs_ctx_inv_zero: "fs_ctx_inv zero_fs_ctx"
  by (simp add: zero_fs_ctx_def fs_ctx_inv_def fs_entry_inv_def zero_fs_entry_def list_all_iff)

interpretation fs: collector fs_init fs_destroy fs_collect_api fs_push_api fs_inv
  "\<lambda>s. s \<noteq> None" "\<lambda>_. True"
proof unfold_locales
  show "\<exists>rc s'. fs_init alloc cfg s = Some (rc, s') \<and> fs_inv s' \<and>
      (if alloc then rc = 0 \<and> s' \<noteq> None else rc = - 1 \<and> s' = s)"
    if "fs_inv s" for s cfg alloc
    using that by (simp add: fs_init_def fs_inv_def fs_ctx_inv_zero)
  show "fs_inv (fs_destroy s) \<and> \<not> fs_destroy s \<noteq> None" for s
    by (simp add: fs_destroy_def fs_inv_def)
  show "\<exists>rc sctx' s'. fs_collect_api os cfg sctx s = Some (rc, sctx', s') \<and> fs_inv s' \<and>
      (sctx' = None \<longleftrightarrow> sctx = None) \<and> (s' \<noteq> None \<longleftrightarrow> s \<noteq> None)"
    if "fs_inv s" for s cfg os sctx
    using that fs_collect_inv [of _ os cfg] by (cases s) (fastforce simp: fs_collect_api_def fs_inv_def)+
  show "\<exists>rc w' s' ts. fs_push_api s (Some w) = Some (rc, Some w', s') \<and> fs_inv s' \<and>
      (s' \<noteq> None \<longleftrightarrow> s \<noteq> None) \<and> appends_tlvs w w' ts" if "fs_inv s" "wf_writer w" for s w
  proof (cases s)
    case None
    then show ?thesis using that by (auto simp: fs_push_api_def intro: appends_nothing)
  next
    case (Some ctx)
    from tlv_put_payload [OF that(2)] obtain rc w' ts where "tlv_put (Some w) TF_TYPE_FS
      (Some (fs_payload ctx)) (of_nat (length (fs_payload ctx))) = Some (rc, Some w')" "appends_tlvs w w' ts"
      by metis
    then show ?thesis
      using Some that appends_nothing [of w]
      by (cases "fs_count ctx = 0") (auto simp: fs_push_api_def fs_push_eq fs_inv_def)
  qed
  show "fs_push_api s wrt = Some (- 1, wrt, s)" if "\<not> s \<noteq> None" for s wrt
    using that by (simp add: fs_push_api_def)
qed

section \<open>The table of /proc/mounts\<close>

text \<open>A line: device, mount point, type, options and two numbers.\<close>

type_synonym mount_entry = "string \<times> string \<times> string \<times> string \<times> nat \<times> nat"

definition mount_line :: "mount_entry \<Rightarrow> string" where
  "mount_line e = (case e of (dev, mount, type, opts, freq, passno) \<Rightarrow>
     dev @ '' '' @ mount @ '' '' @ type @ '' '' @ opts @ '' '' @ show_u freq @ '' '' @ show_u passno @ [NEWLINE])"

definition mount_word :: "nat \<Rightarrow> string \<Rightarrow> bool" where
  "mount_word n w \<longleftrightarrow> w \<noteq> [] \<and> length w \<le> n \<and> list_all (\<lambda>c. \<not> isspace c) w \<and> NUL \<notin> set w"

definition mount_entry_ok :: "mount_entry \<Rightarrow> bool" where
  "mount_entry_ok e \<longleftrightarrow> (case e of (dev, mount, type, opts, freq, passno) \<Rightarrow>
     mount_word 15 dev \<and> mount_word 127 mount \<and> mount_word 31 type \<and> mount_word 127 opts)"

lemma mount_word_cstr: "mount_word n w \<Longrightarrow> cstr w = w"
  by (simp add: mount_word_def cstr_id)

lemma scanf_mount_word:
  "mount_word n w \<Longrightarrow> scanf (C_ws # C_s n # fs) (CHR '' '' # w @ CHR '' '' # rest) =
     (A_str w # fst (scanf fs (CHR '' '' # rest)), snd (scanf fs (CHR '' '' # rest)))"
  unfolding mount_word_def by (rule scanf_blank_word) auto

lemma scanf_first_word:
  "mount_word n w \<Longrightarrow> list_all isspace ws \<Longrightarrow> scanf (C_s n # fs) (ws @ w @ CHR '' '' # rest) =
     (A_str w # fst (scanf fs (CHR '' '' # rest)), snd (scanf fs (CHR '' '' # rest)))"
  using scan_word [of ws w n "CHR '' '' # rest"] by (simp add: mount_word_def case_prod_beta)

lemma mounts_read_line:
  assumes "mount_entry_ok (dev, mount, type, opts, freq, passno)" "list_all isspace ws"
  shows "mounts_read (ws @ mount_line (dev, mount, type, opts, freq, passno) @ rest) = Some (mount, type, NEWLINE # rest)"
proof -
  have ok: "mount_word 15 dev" "mount_word 127 mount" "mount_word 31 type" "mount_word 127 opts"
    using assms(1) by (simp_all add: mount_entry_ok_def)
  obtain x where x: "scanf [C_ws, C_d, C_ws, C_d] (CHR '' '' # show_u freq @ CHR '' '' # show_u passno @ NEWLINE # rest) =
      (A_int x # fst (scanf [C_ws, C_d] (CHR '' '' # show_u passno @ NEWLINE # rest)),
       snd (scanf [C_ws, C_d] (CHR '' '' # show_u passno @ NEWLINE # rest)))"
    using scanf_number_d [of "CHR '' '' # show_u passno @ NEWLINE # rest" "[C_ws, C_d]" freq] by auto
  obtain y where y: "scanf [C_ws, C_d] (CHR '' '' # show_u passno @ NEWLINE # rest) = ([A_int y], NEWLINE # rest)"
    using scanf_number_d [of "NEWLINE # rest" "[]" passno] by auto
  have "ws @ mount_line (dev, mount, type, opts, freq, passno) @ rest = ws @ dev @ CHR '' '' # mount @ CHR '' '' # type @
      CHR '' '' # opts @ CHR '' '' # show_u freq @ CHR '' '' # show_u passno @ NEWLINE # rest"
    by (simp add: mount_line_def)
  then have "scanf mounts_fmt (ws @ mount_line (dev, mount, type, opts, freq, passno) @ rest) =
      ([A_str dev, A_str mount, A_str type, A_str opts, A_int x, A_int y], NEWLINE # rest)"
    unfolding mounts_fmt_def
    by (simp only: scanf_first_word [OF ok(1) assms(2)] scanf_mount_word [OF ok(2)] scanf_mount_word [OF ok(3)]
        scanf_mount_word [OF ok(4)] x y fst_conv snd_conv)
  then show ?thesis
    using ok(2,3) by (simp add: mounts_read_def mount_word_cstr)
qed

text \<open>What the loop computes, on the table.\<close>

definition fs_report :: "string \<Rightarrow> statvfs \<Rightarrow> fs_entry" where
  "fs_report mount svfs =
     (let size_kb = f_blocks svfs * f_frsize svfs div 1024; avail_kb = f_bavail svfs * f_frsize svfs div 1024
      in \<lparr>fs_mount = strncpy (replicate TF_FS_MOUNT_SIZE NUL) mount 15, fs_total_kb = size_kb,
          fs_used_pct_x10 = (if size_kb = 0 then 0 else ucast (min 1000 ((size_kb - min size_kb avail_kb) * 1000 div size_kb)))\<rparr>)"

definition mount_report :: "(string \<Rightarrow> statvfs option) \<Rightarrow> mount_entry \<Rightarrow> fs_entry option" where
  "mount_report vfs e = (case e of (dev, mount, type, opts, freq, passno) \<Rightarrow>
     if type \<in> {''ext2'', ''ext3'', ''ext4'', ''f2fs'', ''btrfs'', ''xfs'', ''vfat'', ''exfat'', ''ntfs''}
     then map_option (fs_report mount) (vfs mount) else None)"

lemma fs_type_allowed_iff:
  "fs_type_allowed type \<longleftrightarrow> type \<in> {''ext2'', ''ext3'', ''ext4'', ''f2fs'', ''btrfs'', ''xfs'', ''vfat'', ''exfat'', ''ntfs''}"
  by (auto simp: fs_type_allowed_def fs_whitelist_def strcmp_0_iff)

lemma fs_fill_report: "fs_fill mount svfs = fs_report mount svfs"
proof -
  let ?n = "strncpy (replicate 16 NUL) mount 15"
  have "terminated 16 ?n"
    using terminated_strncpy [of 15 "replicate 16 NUL" mount] by simp
  then have "?n[15 := NUL] = ?n"
    by (simp add: terminated_def list_update_same_conv)
  moreover have "(if x > 1000 then 1000 else x) = min 1000 x" "(if y > z then y - z else 0) = y - min y z" for x y z :: u64
    by (auto simp: min_def not_less)
  ultimately show ?thesis
    by (simp add: fs_fill_def fs_report_def zero_fs_entry_def Let_def)
qed

lemma fs_loop_table:
  assumes "list_all mount_entry_ok es" "list_all isspace ws" "length entries = TF_MAX_FS" "idx \<le> TF_MAX_FS"
  shows "\<exists>entries' rest. fs_loop vfs entries idx (ws @ concat (map mount_line es)) =
      Some (entries', min TF_MAX_FS (idx + length (List.map_filter (mount_report vfs) es)), rest) \<and>
    length entries' = TF_MAX_FS \<and>
    take (min TF_MAX_FS (idx + length (List.map_filter (mount_report vfs) es))) entries' =
      take idx entries @ take (TF_MAX_FS - idx) (List.map_filter (mount_report vfs) es)"
  using assms
proof (induction es arbitrary: ws entries idx)
  case Nil
  have "dropWhile isspace ws = []"
    using Nil.prems(2) by (simp add: list_all_iff)
  then have "scan1 (C_s 15) ws = None"
    by (simp add: Let_def del: dropWhile_eq_Nil_conv)
  then have "scanf mounts_fmt ws = ([], ws)"
    by (simp add: mounts_fmt_def del: scan1.simps)
  then have "mounts_read ws = None"
    by (simp add: mounts_read_def)
  with Nil show ?case
    by (subst fs_loop.simps) (auto simp: List.map_filter_def)
next
  case (Cons e es)
  obtain dev mount type opts freq passno where e: "e = (dev, mount, type, opts, freq, passno)"
    by (cases e)
  have read: "mounts_read (ws @ concat (map mount_line (e # es))) = Some (mount, type, NEWLINE # concat (map mount_line es))"
    using Cons.prems(1,2) mounts_read_line [of dev mount type opts freq passno ws] by (simp add: e)
  have nl: "list_all isspace [NEWLINE]" by simp
  consider "idx = 16" | "idx < 16" "mount_report vfs e = None" | r where "idx < 16" "mount_report vfs e = Some r"
    using Cons.prems(4) by fastforce
  then show ?case
  proof cases
    case 1
    then show ?thesis using Cons.prems(3) by (subst fs_loop.simps) simp
  next
    case 2
    then have "fs_loop vfs entries idx (ws @ concat (map mount_line (e # es))) =
        fs_loop vfs entries idx ([NEWLINE] @ concat (map mount_line es))"
      using read by (subst fs_loop.simps) (auto simp: mount_report_def e fs_type_allowed_iff fs_fill_report split: if_splits)
    then show ?thesis
      using 2 Cons.IH [OF _ nl, of entries idx] Cons.prems by (simp add: List.map_filter_simps)
  next
    case 3
    then have "fs_loop vfs entries idx (ws @ concat (map mount_line (e # es))) =
        fs_loop vfs (entries[idx := r]) (Suc idx) ([NEWLINE] @ concat (map mount_line es))"
      using read Cons.prems(3) by (subst fs_loop.simps) (auto simp: mount_report_def e fs_type_allowed_iff fs_fill_report split: if_splits)
    moreover have "take (Suc idx) (entries[idx := r]) = take idx entries @ [r]"
      using 3 Cons.prems by (intro take_list_update_append) simp
    moreover have "16 - idx = Suc (16 - Suc idx)" using 3 by simp
    ultimately show ?thesis
      using 3 Cons.IH [OF _ nl, of "entries[idx := r]" "Suc idx"] Cons.prems by (simp add: List.map_filter_simps)
  qed
qed

section \<open>Properties\<close>

text \<open>C11: on a \<^verbatim>\<open>/proc/mounts\<close> whose fields all fit the buffers (device at most 15 characters, mount point and
  options 127, type 31), a collection reports, in order, the first sixteen mounts of the nine supported types
  which \<^verbatim>\<open>statvfs\<close> can read, each with its mount point cut to 15 characters, its size in kB and the share of it
  that is not available.\<close>

theorem fs_collect_table:
  assumes "fs_ctx_inv ctx" "os_file os ''/proc/mounts'' = Some (concat (map mount_line es))"
    "list_all mount_entry_ok es"
  shows "\<exists>ctx'. fs_collect os cfg ctx = Some (0, ctx') \<and>
    take (fs_count ctx') (fs_entries ctx') = take TF_MAX_FS (List.map_filter (mount_report (os_statvfs os)) es)"
proof -
  obtain entries' rest where "fs_loop (os_statvfs os) (fs_entries ctx) 0 (concat (map mount_line es)) =
      Some (entries', min 16 (length (List.map_filter (mount_report (os_statvfs os)) es)), rest)"
    "take (min 16 (length (List.map_filter (mount_report (os_statvfs os)) es))) entries' =
      take 16 (List.map_filter (mount_report (os_statvfs os)) es)"
    using fs_loop_table [OF assms(3), of "[]" "fs_entries ctx" 0 "os_statvfs os"] assms(1)
    by (auto simp: fs_ctx_inv_def)
  with assms(2) show ?thesis
    by (simp add: fs_collect_def)
qed

definition fs_example :: "mount_entry list" where
  "fs_example = [(''proc'', ''/proc'', ''proc'', ''rw'', 0, 0), (''/dev/sda1'', ''/'', ''ext4'', ''rw'', 0, 1)]"

definition fs_example_os :: "string \<Rightarrow> os" where
  "fs_example_os m = (os_of_files [(''/proc/mounts'', m)])\<lparr>os_statvfs := (\<lambda>_. Some
     \<lparr>f_blocks = 1000, f_bavail = 250, f_frsize = 4096\<rparr>)\<rparr>"

theorem fs_collect_table_witness:
  "\<exists>ctx'. fs_collect (fs_example_os (concat (map mount_line fs_example))) undefined zero_fs_ctx = Some (0, ctx') \<and>
    take (fs_count ctx') (fs_entries ctx') =
      [\<lparr>fs_mount = ''/'' @ replicate 15 NUL, fs_total_kb = 4000, fs_used_pct_x10 = 750\<rparr>]"
proof -
  have "strncpy (replicate 16 NUL) ''/'' 15 = ''/'' @ replicate 15 NUL"
    by (simp add: strncpy_def cstr_def numeral_eq_Suc)
  then have "fs_report ''/'' \<lparr>f_blocks = 1000, f_bavail = 250, f_frsize = 4096\<rparr> =
      \<lparr>fs_mount = ''/'' @ replicate 15 NUL, fs_total_kb = 4000, fs_used_pct_x10 = 750\<rparr>"
    by (simp add: fs_report_def)
  note report = this
  have "list_all mount_entry_ok fs_example"
    by (simp add: fs_example_def mount_entry_ok_def mount_word_def isspace_def)
  moreover have "List.map_filter (mount_report (os_statvfs (fs_example_os m))) fs_example =
      [\<lparr>fs_mount = ''/'' @ replicate 15 NUL, fs_total_kb = 4000, fs_used_pct_x10 = 750\<rparr>]" for m
    using report by (simp add: fs_example_def fs_example_os_def mount_report_def List.map_filter_simps)
  ultimately show ?thesis
    using fs_collect_table [OF fs_ctx_inv_zero, of "fs_example_os (concat (map mount_line fs_example))" fs_example undefined]
    by (simp add: fs_example_os_def os_of_files_def)
qed





text \<open>C38: a device name of more than fifteen characters ends the scan: the loop returns what it has and
  reads none of the mounts from that line on.\<close>

theorem fs_loop_long_device:
  assumes "mount_word 15 dev" "length dev = 15" "mount_word 127 tail" "mount_word 31 mount" "mount_word 127 type"
    "mount_word 127 opts" "\<not> isdigit (hd opts)" "hd opts \<noteq> CHR ''-''" "hd opts \<noteq> CHR ''+''"
    "idx < TF_MAX_FS" "list_all isspace ws"
  shows "\<exists>rest. fs_loop vfs entries idx (ws @ mount_line (dev @ tail, mount, type, opts, freq, passno) @ es) =
    Some (entries, idx, rest)"
proof -
  let ?close = "CHR '' '' # opts @ CHR '' '' # show_u freq @ CHR '' '' # show_u passno @ NEWLINE # es"
  let ?input = "ws @ dev @ tail @ CHR '' '' # mount @ CHR '' '' # type @ ?close"
  have d: "dropWhile isspace (w @ r) = w @ r" if "mount_word n w" for n w r
    using that by (cases w) (auto simp: mount_word_def)
  have t: "takeWhile (\<lambda>c. \<not> isspace c) (w @ r) = w @ takeWhile (\<lambda>c. \<not> isspace c) r" if "mount_word n w" for n w r
    using that by (simp add: mount_word_def list_all_iff)
  have "dropWhile isspace ?input = dev @ tail @ CHR '' '' # mount @ CHR '' '' # type @ ?close"
    using assms(11) d [OF assms(1)] by (simp add: dropWhile_append list_all_iff)
  then have first: "scan1 (C_s 15) ?input = Some ([A_str dev], tail @ CHR '' '' # mount @ CHR '' '' # type @ ?close)"
    using assms(1,2) t [OF assms(1)] t [OF assms(3)] by (auto simp: Let_def mount_word_def)
  have second: "scanf (C_ws # C_s 127 # fs) (tail @ CHR '' '' # r) =
      (A_str tail # fst (scanf fs (CHR '' '' # r)), snd (scanf fs (CHR '' '' # r)))" for fs r
    using scanf_first_word [OF assms(3), of "[]"] d [OF assms(3)] by simp
  have "scan_integer (dropWhile isspace ?close) = None"
    using assms(6-9) d [OF assms(6)] by (cases opts) (auto simp: scan_integer_def scan_sign_def mount_word_def)
  then have last: "fst (scanf [C_ws, C_d, C_ws, C_d] ?close) = []"
    by (simp add: case_prod_beta)
  have "fst (scanf mounts_fmt ?input) = [A_str dev, A_str tail, A_str mount, A_str type]"
    unfolding mounts_fmt_def using first last
    by (simp add: second scanf_mount_word [OF assms(4)] scanf_mount_word [OF assms(5)] case_prod_beta
        del: scanf.simps scan1.simps add: scanf.simps(2) [of "C_s 15"])
  then have "mounts_read ?input = None"
    by (simp add: mounts_read_def case_prod_beta)
  then show ?thesis
    using assms(10) by (subst fs_loop.simps) (simp add: mount_line_def)
qed

theorem fs_loop_long_device_witness:
  "\<exists>rest. fs_loop (\<lambda>_. None) (fs_entries zero_fs_ctx) 0
      (mount_line (''/dev/mapper/ubuntu--vg-root'', ''/'', ''ext4'', ''rw'', 0, 0) @
       mount_line (''/dev/sda1'', ''/boot'', ''ext4'', ''rw'', 0, 0)) = Some (fs_entries zero_fs_ctx, 0, rest)"
  using fs_loop_long_device [of "''/dev/mapper/ubu''" "''ntu--vg-root''" "''/''" "''ext4''" "''rw''" 0 "[]" "\<lambda>_. None"
      "fs_entries zero_fs_ctx" 0 0 "mount_line (''/dev/sda1'', ''/boot'', ''ext4'', ''rw'', 0, 0)"]
  by (simp add: mount_word_def isspace_def isdigit_def)

text \<open>C35: a push of \<open>n\<close> file systems announces \<open>n\<close> entries of 26 bytes, but the TLV it appends
  carries the payload length modulo 256: up to nine file systems the TLV is the whole payload, with
  ten or more it is cut.\<close>

theorem fs_push_payload:
  assumes "fs_ctx_inv ctx" "wf_writer w" "0 < fs_count ctx" "wlen w + 257 \<le> cap w"
  shows "\<exists>w'. fs_push ctx (Some w) = Some (0, Some w') \<and>
    appends_tlvs w w' [(TF_TYPE_FS, take ((1 + 26 * fs_count ctx) mod 256) (fs_payload ctx))] \<and>
    (fs_count ctx \<le> 9 \<longrightarrow> take ((1 + 26 * fs_count ctx) mod 256) (fs_payload ctx) = fs_payload ctx)"
  using tlv_put_payload_room [OF assms(2,4), of TF_TYPE_FS "fs_payload ctx"] assms(1,3)
  by (auto simp: fs_push_eq length_fs_payload)

theorem fs_push_payload_witness:
  "\<exists>w'. fs_push (zero_fs_ctx\<lparr>fs_count := 10\<rparr>) (Some (writer_of_size 1400)) = Some (0, Some w') \<and>
    appends_tlvs (writer_of_size 1400) w' [(TF_TYPE_FS, take 5 (fs_payload (zero_fs_ctx\<lparr>fs_count := 10\<rparr>)))]"
proof -
  have "fs_ctx_inv (zero_fs_ctx\<lparr>fs_count := 10\<rparr>)"
    using fs_ctx_inv_zero by (simp add: fs_ctx_inv_def)
  then show ?thesis
    using fs_push_payload [of "zero_fs_ctx\<lparr>fs_count := 10\<rparr>" "writer_of_size 1400"] by simp
qed

end
