(* ===== verification/Proc_Tables.thy ===== *)
theory Proc_Tables
  imports Collector
begin

text \<open>
  The data of \<^verbatim>\<open>agent/src/proc.c\<close> and its two history tables: the open hash table of process
  CPU times (\<^verbatim>\<open>find_slot\<close>, \<^verbatim>\<open>history_gc\<close>) and that of thread CPU times
  (\<^verbatim>\<open>find_thread_slot\<close>, \<^verbatim>\<open>thread_history_gc\<close>). A \<^verbatim>\<open>long\<close> that holds a process or thread
  number is an \<open>int\<close>; a pointer to a slot is its index.
\<close>

section \<open>State\<close>

record pid_list =
  pids :: "int list"
  pid_count :: nat

record watch_group =
  wg_name :: "char list"
  wg_list :: pid_list

record proc_prev =
  pp_pid :: int
  pp_ticks :: u64

record task_stat =
  ts_id :: int
  ts_comm :: "char list"
  ts_state :: char
  ts_ticks :: u64
  ts_starttime :: u64

record thread_prev =
  tp_pid :: int
  tp_tid :: int
  tp_starttime :: u64
  tp_ticks :: u64
  tp_generation :: u32

record thread_candidate =
  cand_name :: "char list"
  cand_pid :: u32
  cand_tid :: u32
  cand_inst_count :: u32
  cand_cpu_pct_x10 :: u64

record proc_group_entry =
  pg_name :: "char list"
  pg_inst_count :: u16
  pg_cpu_pct_x10 :: u16
  pg_rss_kb_sum :: u32

record proc_payload =
  pr_group_count :: u8
  pr_groups :: "proc_group_entry list"

record thread_top_entry =
  te_name :: "char list"
  te_inst_count :: u16
  te_cpu_pct_x10 :: u16
  te_pid :: u32
  te_tid :: u32

record thread_group_entry =
  tg_name :: "char list"
  tg_total_threads :: u16
  tg_flags :: u8
  tg_state_counts :: "u16 list"
  tg_top_count :: u8
  tg_top :: "thread_top_entry list"

record thread_payload =
  th_group_count :: u8
  th_groups :: "thread_group_entry list"

record proc_ctx =
  history :: "proc_prev list"
  thread_history :: "thread_prev list"
  thread_candidates :: "thread_candidate list"
  watch_groups :: "watch_group list"
  disabled :: bool
  thread_frame_warned :: bool
  cpu_count :: nat
  watch_group_count :: nat
  thread_generation :: u32
  ctx_thread_mode :: u8
  ctx_thread_top_n :: u8
  ctx_thread_include_tid :: u8
  last_scan_time :: int
  ctx_cpu_total_diff :: u64
  last_payload :: proc_payload
  last_thread_payload :: thread_payload

abbreviation (input) TF_THREAD_FLAG_INCLUDE_TID :: u8 where "TF_THREAD_FLAG_INCLUDE_TID \<equiv> 1"
abbreviation (input) TF_THREAD_FLAG_TRUNCATED :: u8 where "TF_THREAD_FLAG_TRUNCATED \<equiv> 2"

text \<open>The contents of zeroed memory.\<close>

definition zero_proc_prev :: proc_prev where
  "zero_proc_prev = \<lparr>pp_pid = 0, pp_ticks = 0\<rparr>"

definition zero_thread_prev :: thread_prev where
  "zero_thread_prev = \<lparr>tp_pid = 0, tp_tid = 0, tp_starttime = 0, tp_ticks = 0, tp_generation = 0\<rparr>"

definition zero_thread_candidate :: thread_candidate where
  "zero_thread_candidate = \<lparr>cand_name = replicate TF_PROC_NAME_SIZE NUL, cand_pid = 0, cand_tid = 0,
     cand_inst_count = 0, cand_cpu_pct_x10 = 0\<rparr>"

definition zero_watch_group :: watch_group where
  "zero_watch_group = \<lparr>wg_name = replicate TF_COMM_PREFIX_LEN NUL,
     wg_list = \<lparr>pids = replicate TF_PROC_TRACK 0, pid_count = 0\<rparr>\<rparr>"

definition zero_proc_group :: proc_group_entry where
  "zero_proc_group = \<lparr>pg_name = replicate TF_PROC_NAME_SIZE NUL, pg_inst_count = 0, pg_cpu_pct_x10 = 0,
     pg_rss_kb_sum = 0\<rparr>"

definition zero_thread_top :: thread_top_entry where
  "zero_thread_top = \<lparr>te_name = replicate TF_PROC_NAME_SIZE NUL, te_inst_count = 0, te_cpu_pct_x10 = 0,
     te_pid = 0, te_tid = 0\<rparr>"

definition zero_thread_group :: thread_group_entry where
  "zero_thread_group = \<lparr>tg_name = replicate TF_PROC_NAME_SIZE NUL, tg_total_threads = 0, tg_flags = 0,
     tg_state_counts = replicate TF_THREAD_STATE_COUNT 0, tg_top_count = 0,
     tg_top = replicate TF_MAX_THREAD_TOP_N zero_thread_top\<rparr>"

definition zero_proc_payload :: proc_payload where
  "zero_proc_payload = \<lparr>pr_group_count = 0, pr_groups = replicate TF_MAX_PROC_GROUPS zero_proc_group\<rparr>"

definition zero_thread_payload :: thread_payload where
  "zero_thread_payload = \<lparr>th_group_count = 0, th_groups = replicate TF_MAX_PROC_GROUPS zero_thread_group\<rparr>"

definition zero_proc_ctx :: proc_ctx where
  "zero_proc_ctx = \<lparr>history = replicate TF_PROC_TRACK zero_proc_prev,
     thread_history = replicate TF_THREAD_TRACK zero_thread_prev,
     thread_candidates = replicate TF_THREAD_CANDIDATES zero_thread_candidate,
     watch_groups = replicate TF_MAX_COMM_PREFIX zero_watch_group, disabled = False,
     thread_frame_warned = False, cpu_count = 0, watch_group_count = 0, thread_generation = 0,
     ctx_thread_mode = 0, ctx_thread_top_n = 0, ctx_thread_include_tid = 0, last_scan_time = 0,
     ctx_cpu_total_diff = 0, last_payload = zero_proc_payload, last_thread_payload = zero_thread_payload\<rparr>"

section \<open>Operations\<close>

definition PID_HASH :: "int \<Rightarrow> nat" where
  "PID_HASH pid = unat ((of_int pid :: u32) * 2654435761) mod TF_PROC_TRACK"

definition THREAD_HASH :: "int \<Rightarrow> int \<Rightarrow> nat" where
  "THREAD_HASH pid tid =
     unat (((ucast (of_int pid :: u32) :: u64) * 11400714819323198485) XOR
           ((ucast (of_int tid :: u32) :: u64) * 14029467366897019727)) mod TF_THREAD_TRACK"

text \<open>\<^verbatim>\<open>find_slot\<close> on \<^verbatim>\<open>ctx->history\<close>.\<close>

definition find_slot :: "proc_prev list \<Rightarrow> int \<Rightarrow> (nat \<times> proc_prev list) option" where
  "find_slot hist pid =
     do { let idx = PID_HASH pid;
          h \<leftarrow> arr_get hist idx;
          if pp_pid h = pid then Some (idx, hist)
          else if pp_pid h = 0 then Some (idx, hist[idx := \<lparr>pp_pid = pid, pp_ticks = 0\<rparr>])
          else case find_idx (\<lambda>h. pp_pid h = pid \<or> pp_pid h = 0) hist of
              Some i \<Rightarrow>
                if pp_pid (hist ! i) = pid then Some (i, hist)
                else Some (i, hist[i := \<lparr>pp_pid = pid, pp_ticks = 0\<rparr>])
            | None \<Rightarrow> Some (idx, hist) }"

text \<open>\<^verbatim>\<open>find_thread_slot\<close> on \<^verbatim>\<open>ctx->thread_history\<close>: the probe sequence starts at the hash and
  wraps around.\<close>

definition thread_probe :: "int \<Rightarrow> int \<Rightarrow> nat list" where
  "thread_probe pid tid = map (\<lambda>probe. (THREAD_HASH pid tid + probe) mod TF_THREAD_TRACK) [0..<TF_THREAD_TRACK]"

definition find_thread_slot ::
  "thread_prev list \<Rightarrow> int \<Rightarrow> int \<Rightarrow> u64 \<Rightarrow> nat option \<times> thread_prev list" where
  "find_thread_slot hist pid tid starttime =
     (case find (\<lambda>i. tp_pid (hist ! i) = pid \<and> tp_tid (hist ! i) = tid \<or> tp_pid (hist ! i) = 0)
         (thread_probe pid tid) of
        None \<Rightarrow> (None, hist)
      | Some i \<Rightarrow>
          let slot = hist ! i
          in if tp_pid slot = pid \<and> tp_tid slot = tid
             then (if tp_starttime slot \<noteq> starttime
                   then (Some i, hist[i := slot\<lparr>tp_starttime := starttime, tp_ticks := 0\<rparr>])
                   else (Some i, hist))
             else (Some i, hist[i := slot\<lparr>tp_pid := pid, tp_tid := tid, tp_starttime := starttime, tp_ticks := 0\<rparr>]))"

definition thread_history_gc :: "u32 \<Rightarrow> thread_prev list \<Rightarrow> thread_prev list" where
  "thread_history_gc generation hist =
     map (\<lambda>s. if tp_pid s \<noteq> 0 \<and> tp_generation s \<noteq> generation then zero_thread_prev else s) hist"

text \<open>The process numbers of the watched groups, and the loop of \<^verbatim>\<open>history_gc\<close> over the
  table.\<close>

definition watched :: "watch_group list \<Rightarrow> nat \<Rightarrow> int \<Rightarrow> bool" where
  "watched groups n pid \<longleftrightarrow>
     list_ex (\<lambda>g. list_ex (\<lambda>p. p = pid) (take (pid_count (wg_list g)) (pids (wg_list g)))) (take n groups)"

definition history_gc :: "watch_group list \<Rightarrow> nat \<Rightarrow> proc_prev list \<Rightarrow> proc_prev list" where
  "history_gc groups n hist =
     map (\<lambda>h. if pp_pid h = 0 then h
              else if watched groups n (pp_pid h) then h else \<lparr>pp_pid = 0, pp_ticks = 0\<rparr>) hist"

section \<open>The process table\<close>

lemma PID_HASH_lt [simp]: "PID_HASH pid < 64"
  by (simp add: PID_HASH_def)

lemma THREAD_HASH_lt [simp]: "THREAD_HASH pid tid < 1024"
  by (simp add: THREAD_HASH_def)

text \<open>Which slot \<^verbatim>\<open>find_slot\<close> uses.\<close>

definition slot_for :: "proc_prev list \<Rightarrow> int \<Rightarrow> nat option" where
  "slot_for hist pid =
     (if pp_pid (hist ! PID_HASH pid) \<in> {pid, 0} then Some (PID_HASH pid)
      else find_idx (\<lambda>h. pp_pid h = pid \<or> pp_pid h = 0) hist)"

lemma find_slot_eq:
  assumes "length hist = TF_PROC_TRACK"
  shows "find_slot hist pid = Some (case slot_for hist pid of
      None \<Rightarrow> (PID_HASH pid, hist)
    | Some i \<Rightarrow> (i, if pp_pid (hist ! i) = pid then hist else hist[i := \<lparr>pp_pid = pid, pp_ticks = 0\<rparr>]))"
  using assms by (auto simp: find_slot_def slot_for_def Let_def split: option.split)

lemma slot_for_Some:
  "slot_for hist pid = Some i \<Longrightarrow> length hist = TF_PROC_TRACK \<Longrightarrow>
     i < TF_PROC_TRACK \<and> (pp_pid (hist ! i) = pid \<or> pp_pid (hist ! i) = 0)"
  by (auto simp: slot_for_def find_idx_Some split: if_splits)

text \<open>The slot stays the slot of its process after it was written.\<close>

lemma slot_for_stable:
  assumes "slot_for hist pid = Some i" "length hist = TF_PROC_TRACK" "pp_pid h = pid" "pid \<noteq> 0"
  shows "slot_for (hist[i := h]) pid = Some i"
proof (cases "pp_pid (hist ! PID_HASH pid) \<in> {pid, 0}")
  case True
  then show ?thesis using assms by (auto simp: slot_for_def)
next
  case False
  then have f: "find_idx (\<lambda>h. pp_pid h = pid \<or> pp_pid h = 0) hist = Some i"
    using assms(1) by (auto simp: slot_for_def)
  then have "i \<noteq> PID_HASH pid" "i < length hist"
    using False by (auto simp: find_idx_Some)
  then show ?thesis
    using f False assms(3) by (auto simp: slot_for_def intro: find_idx_update_hit)
qed

text \<open>C29: as long as the table has a slot of the process or a free one, \<^verbatim>\<open>find_slot\<close> returns a slot that
  belongs to the process, with the ticks stored there or (in a slot it takes over) zero, and leaves
  all other slots alone; what is then stored in the slot is what the next lookup finds.\<close>

theorem find_slot_roundtrip:
  assumes "length hist = TF_PROC_TRACK" "pid \<noteq> 0" "\<exists>h \<in> set hist. pp_pid h = pid \<or> pp_pid h = 0"
  shows "\<exists>i hist'. find_slot hist pid = Some (i, hist') \<and> i < length hist' \<and> pp_pid (hist' ! i) = pid \<and>
    (if pp_pid (hist ! i) = pid then hist' = hist else pp_pid (hist ! i) = 0 \<and> pp_ticks (hist' ! i) = 0) \<and>
    (\<forall>j. j \<noteq> i \<longrightarrow> hist' ! j = hist ! j) \<and>
    (\<forall>t. find_slot (hist'[i := (hist' ! i)\<lparr>pp_ticks := t\<rparr>]) pid =
       Some (i, hist'[i := (hist' ! i)\<lparr>pp_ticks := t\<rparr>]))"
proof -
  obtain i where i: "slot_for hist pid = Some i"
    using assms(3) by (cases "slot_for hist pid") (auto simp: slot_for_def find_idx_None split: if_splits)
  then have i': "i < 64" "pp_pid (hist ! i) = pid \<or> pp_pid (hist ! i) = 0"
    using slot_for_Some assms(1) by auto
  define hist' where "hist' = (if pp_pid (hist ! i) = pid then hist else hist[i := \<lparr>pp_pid = pid, pp_ticks = 0\<rparr>])"
  have h': "pp_pid (hist' ! i) = pid" "length hist' = 64"
    using assms(1) i'(1) by (simp_all add: hist'_def)
  have "find_slot (hist'[i := h]) pid = Some (i, hist'[i := h])" if "pp_pid h = pid" for h
  proof -
    have "hist'[i := h] = hist[i := h]" by (simp add: hist'_def)
    then show ?thesis
      using slot_for_stable [OF i assms(1) that assms(2)] that assms(1) i'(1) by (simp add: find_slot_eq)
  qed
  moreover have "find_slot hist pid = Some (i, hist')"
    using assms(1) i by (simp add: find_slot_eq hist'_def)
  ultimately show ?thesis
    using h' i' by (intro exI [of _ i] exI [of _ hist']) (auto simp: hist'_def)
qed

theorem find_slot_roundtrip_witness:
  "\<exists>i hist'. find_slot (replicate 64 zero_proc_prev) 4711 = Some (i, hist') \<and>
    find_slot (hist'[i := (hist' ! i)\<lparr>pp_ticks := 5\<rparr>]) 4711 = Some (i, hist'[i := (hist' ! i)\<lparr>pp_ticks := 5\<rparr>])"
  using find_slot_roundtrip [of "replicate 64 zero_proc_prev" 4711]
  by (auto simp: zero_proc_prev_def)

text \<open>C39: the table can lose the history of a live process. When a process was placed outside its hash
  slot because that slot was taken, and the slot is then freed, the next lookup takes the freed slot
  with zero ticks although another slot still holds the ticks of the process.\<close>

theorem find_slot_forgets:
  assumes "length hist = TF_PROC_TRACK" "pid \<noteq> 0" "pp_pid (hist ! PID_HASH pid) = 0"
    "j < TF_PROC_TRACK" "hist ! j = \<lparr>pp_pid = pid, pp_ticks = t\<rparr>"
  shows "\<exists>hist'. find_slot hist pid = Some (PID_HASH pid, hist') \<and> PID_HASH pid \<noteq> j \<and>
    hist' ! PID_HASH pid = \<lparr>pp_pid = pid, pp_ticks = 0\<rparr> \<and> hist' ! j = \<lparr>pp_pid = pid, pp_ticks = t\<rparr>"
proof -
  have "PID_HASH pid \<noteq> j" using assms(2,3,5) by auto
  then show ?thesis using assms by (simp add: find_slot_eq slot_for_def)
qed

text \<open>Processes 1 and 65 have the same hash slot; 65 is placed in slot 0, then process 1 ends.\<close>

theorem find_slot_forgets_witness:
  "\<exists>hist hist'. (do { (i, h) \<leftarrow> find_slot (replicate 64 zero_proc_prev) 1;
        (j, h) \<leftarrow> find_slot h 65;
        Some (history_gc [\<lparr>wg_name = [], wg_list = \<lparr>pids = [65], pid_count = 1\<rparr>\<rparr>] 1 (h[j := (h ! j)\<lparr>pp_ticks := 9\<rparr>])) }) =
      Some hist \<and> hist ! 0 = \<lparr>pp_pid = 65, pp_ticks = 9\<rparr> \<and> find_slot hist 65 = Some (49, hist') \<and>
    hist' ! 49 = \<lparr>pp_pid = 65, pp_ticks = 0\<rparr>"
proof -
  let ?z = "replicate 64 zero_proc_prev"
  let ?h1 = "?z[49 := \<lparr>pp_pid = 1, pp_ticks = 0\<rparr>]"
  let ?h2 = "?h1[0 := \<lparr>pp_pid = 65, pp_ticks = 0\<rparr>]"
  let ?h3 = "?z[0 := \<lparr>pp_pid = 65, pp_ticks = 9\<rparr>]"
  have hash: "PID_HASH 1 = 49" "PID_HASH 65 = 49"
    by (simp_all add: PID_HASH_def)
  have "find_idx (\<lambda>h. pp_pid h = 65 \<or> pp_pid h = 0) ?h1 = Some 0"
    by (auto simp: find_idx_Some zero_proc_prev_def)
  then have "find_slot ?z 1 = Some (49, ?h1)" "find_slot ?h1 65 = Some (0, ?h2)"
    by (simp_all add: find_slot_eq slot_for_def hash zero_proc_prev_def)
  moreover have "history_gc [\<lparr>wg_name = [], wg_list = \<lparr>pids = [65], pid_count = 1\<rparr>\<rparr>] 1
      (?h2[0 := (?h2 ! 0)\<lparr>pp_ticks := 9\<rparr>]) = ?h3"
    by (auto simp: history_gc_def watched_def zero_proc_prev_def nth_list_update intro!: nth_equalityI)
  moreover have "\<exists>hist'. find_slot ?h3 65 = Some (PID_HASH 65, hist') \<and> PID_HASH 65 \<noteq> 0 \<and>
      hist' ! PID_HASH 65 = \<lparr>pp_pid = 65, pp_ticks = 0\<rparr> \<and> hist' ! 0 = \<lparr>pp_pid = 65, pp_ticks = 9\<rparr>"
    by (rule find_slot_forgets) (simp_all add: hash zero_proc_prev_def)
  ultimately show ?thesis
    by (auto simp: hash)
qed

text \<open>A table that is full of other processes gives a new process the slot of one of them.\<close>

theorem find_slot_full:
  assumes "length hist = TF_PROC_TRACK" "\<forall>h \<in> set hist. pp_pid h \<noteq> pid \<and> pp_pid h \<noteq> 0"
  shows "find_slot hist pid = Some (PID_HASH pid, hist) \<and> pp_pid (hist ! PID_HASH pid) \<noteq> pid"
proof -
  have "PID_HASH pid < length hist"
    by (simp add: assms(1))
  then have "pp_pid (hist ! PID_HASH pid) \<noteq> pid" "pp_pid (hist ! PID_HASH pid) \<noteq> 0"
    using assms(2) nth_mem by blast+
  moreover have "find_idx (\<lambda>h. pp_pid h = pid \<or> pp_pid h = 0) hist = None"
    using assms(2) by (auto simp: find_idx_None)
  ultimately show ?thesis
    using assms(1) by (simp add: find_slot_eq slot_for_def)
qed

theorem find_slot_full_witness:
  "find_slot (map (\<lambda>n. \<lparr>pp_pid = int n + 1, pp_ticks = 7\<rparr>) [0..<64]) 65 =
    Some (49, map (\<lambda>n. \<lparr>pp_pid = int n + 1, pp_ticks = 7\<rparr>) [0..<64])"
proof -
  have "PID_HASH 65 = 49" by (simp add: PID_HASH_def)
  then show ?thesis
    using find_slot_full [of "map (\<lambda>n. \<lparr>pp_pid = int n + 1, pp_ticks = 7\<rparr>) [0..<64]" 65] by force
qed

section \<open>The thread table\<close>

lemma set_thread_probe: "set (thread_probe pid tid) = {0..<TF_THREAD_TRACK}"
proof -
  have "\<exists>p<1024. (h + p) mod 1024 = i" if "h < 1024" "i < 1024" for h i :: nat
    using that by (intro exI [of _ "(i + 1024 - h) mod 1024"]) (simp add: mod_add_right_eq)
  from this [OF THREAD_HASH_lt] show ?thesis
    unfolding thread_probe_def by (auto simp: image_iff Bex_def eq_commute)
qed

lemma find_thread_slot_bounds:
  assumes "length hist = TF_THREAD_TRACK" "find_thread_slot hist pid tid st = (r, hist')"
  shows "length hist' = TF_THREAD_TRACK" "r = Some i \<Longrightarrow> i < TF_THREAD_TRACK"
proof -
  have "i < 1024" if "find P (thread_probe pid tid) = Some i" for P i
    using that set_thread_probe [of pid tid] by (auto simp: find_Some_iff dest: nth_mem)
  then show "length hist' = TF_THREAD_TRACK" "r = Some i \<Longrightarrow> i < TF_THREAD_TRACK"
    using assms by (auto simp: find_thread_slot_def Let_def split: option.splits if_splits)
qed

text \<open>Open addressing: the slot for probe \<open>k\<close> of a thread.\<close>

definition probe_slot :: "int \<Rightarrow> int \<Rightarrow> nat \<Rightarrow> nat" where
  "probe_slot pid tid k =
     (unat (((ucast (of_int pid :: u32) :: u64) * 11400714819323198485) XOR
            ((ucast (of_int tid :: u32) :: u64) * 14029467366897019727)) + k) mod 1024"

lemma thread_probe_eq: "thread_probe pid tid = map (probe_slot pid tid) [0..<1024]"
  by (simp add: thread_probe_def probe_slot_def THREAD_HASH_def mod_add_left_eq)

lemma find_probe:
  "find P (thread_probe pid tid) = Some i \<longleftrightarrow>
     (\<exists>k < 1024. i = probe_slot pid tid k \<and> P i \<and> (\<forall>j < k. \<not> P (probe_slot pid tid j)))"
  unfolding thread_probe_eq find_Some_iff by auto

text \<open>C30: \<^verbatim>\<open>find_thread_slot\<close> fails only if every slot belongs to another thread. Otherwise it returns the first
  slot, counted from the hash of the thread on and around the table, that is free or belongs to the
  thread; afterwards that slot belongs to the thread incarnation with the given start time; its ticks are the stored ones
  if the slot already belonged to that incarnation and zero if it was free or belonged to an earlier
  thread with the same numbers; no other slot changes.\<close>

theorem find_thread_slot_spec:
  assumes "length hist = TF_THREAD_TRACK" "find_thread_slot hist pid tid st = (r, hist')"
  shows "case r of
      None \<Rightarrow> hist' = hist \<and> (\<forall>s \<in> set hist. tp_pid s \<noteq> 0 \<and> (tp_pid s, tp_tid s) \<noteq> (pid, tid))
    | Some i \<Rightarrow> i < length hist \<and> length hist' = length hist \<and> (\<forall>j. j \<noteq> i \<longrightarrow> hist' ! j = hist ! j) \<and>
        tp_pid (hist' ! i) = pid \<and> tp_tid (hist' ! i) = tid \<and> tp_starttime (hist' ! i) = st \<and>
        tp_ticks (hist' ! i) =
          (if (tp_pid (hist ! i), tp_tid (hist ! i), tp_starttime (hist ! i)) = (pid, tid, st)
           then tp_ticks (hist ! i) else 0) \<and>
        ((tp_pid (hist ! i), tp_tid (hist ! i)) = (pid, tid) \<or> tp_pid (hist ! i) = 0) \<and>
        (\<exists>k < 1024. i = probe_slot pid tid k \<and> (\<forall>j < k. tp_pid (hist ! probe_slot pid tid j) \<noteq> 0 \<and>
           (tp_pid (hist ! probe_slot pid tid j), tp_tid (hist ! probe_slot pid tid j)) \<noteq> (pid, tid)))"
proof (cases "find (\<lambda>i. tp_pid (hist ! i) = pid \<and> tp_tid (hist ! i) = tid \<or> tp_pid (hist ! i) = 0) (thread_probe pid tid)")
  case None
  then have "\<forall>i < 1024. \<not> (tp_pid (hist ! i) = pid \<and> tp_tid (hist ! i) = tid) \<and> tp_pid (hist ! i) \<noteq> 0"
    by (auto simp: find_None_iff set_thread_probe)
  then show ?thesis
    using None assms by (auto simp: find_thread_slot_def in_set_conv_nth)
next
  case (Some i)
  then have "i < 1024" "tp_pid (hist ! i) = pid \<and> tp_tid (hist ! i) = tid \<or> tp_pid (hist ! i) = 0"
    using set_thread_probe [of pid tid] by (auto simp: find_Some_iff dest: nth_mem)
  note i = this
  have first: "\<exists>k < 1024. i = probe_slot pid tid k \<and> (\<forall>j < k. tp_pid (hist ! probe_slot pid tid j) \<noteq> 0 \<and>
      (tp_pid (hist ! probe_slot pid tid j), tp_tid (hist ! probe_slot pid tid j)) \<noteq> (pid, tid))"
    using Some unfolding find_probe by auto
  consider (same) "tp_pid (hist ! i) = pid" "tp_tid (hist ! i) = tid" "tp_starttime (hist ! i) = st"
    | (old) "tp_pid (hist ! i) = pid" "tp_tid (hist ! i) = tid" "tp_starttime (hist ! i) \<noteq> st"
    | (free) "\<not> (tp_pid (hist ! i) = pid \<and> tp_tid (hist ! i) = tid)" "tp_pid (hist ! i) = 0"
    using i(2) by blast
  then show ?thesis
  proof cases
    case same
    then have "r = Some i \<and> hist' = hist"
      using Some assms(2) by (simp add: find_thread_slot_def)
    with same i(1) assms(1) first show ?thesis by simp
  next
    case old
    then have "r = Some i \<and> hist' = hist[i := (hist ! i)\<lparr>tp_starttime := st, tp_ticks := 0\<rparr>]"
      using Some assms(2) by (auto simp: find_thread_slot_def)
    with old i(1) assms(1) first show ?thesis by simp
  next
    case free
    then have "r = Some i \<and> hist' = hist[i := (hist ! i)\<lparr>tp_pid := pid, tp_tid := tid, tp_starttime := st, tp_ticks := 0\<rparr>]"
      using Some assms(2) by (auto simp: find_thread_slot_def Let_def)
    with free i(1) assms(1) first show ?thesis by auto
  qed
qed

theorem find_thread_slot_spec_witness:
  "case find_thread_slot (replicate 1024 zero_thread_prev) 10 12 77 of (r, hist') \<Rightarrow>
    (case r of None \<Rightarrow> False | Some i \<Rightarrow> tp_pid (hist' ! i) = 10 \<and> tp_tid (hist' ! i) = 12 \<and>
       tp_starttime (hist' ! i) = 77 \<and> tp_ticks (hist' ! i) = 0)"
proof -
  obtain r hist' where f: "find_thread_slot (replicate 1024 zero_thread_prev) 10 12 77 = (r, hist')"
    by (cases "find_thread_slot (replicate 1024 zero_thread_prev) 10 12 77")
  have zero: "tp_pid zero_thread_prev = 0"
    by (simp add: zero_thread_prev_def)
  show ?thesis
    using find_thread_slot_spec [OF _ f] by (cases r) (simp_all add: f zero)
qed

end
