(* ===== verification/Proc_Stat.thy ===== *)
theory Proc_Stat
  imports Proc_Tables
begin

text \<open>
  The readers of \<^verbatim>\<open>/proc/<pid>\<close> in \<^verbatim>\<open>agent/src/proc.c\<close>: \<^verbatim>\<open>parse_task_stat\<close> and
  \<^verbatim>\<open>parse_stat\<close> for \<^verbatim>\<open>stat\<close> files, \<^verbatim>\<open>parse_rss_kb\<close> for \<^verbatim>\<open>status\<close> and \<^verbatim>\<open>statm\<close>. They are
  shown to read the kernel's formats, also for command names with blanks and parentheses.
\<close>

section \<open>Operations\<close>

text \<open>The loop over the fields 4 to 22: user time, system time and start time.\<close>

fun task_fields :: "nat list \<Rightarrow> string \<Rightarrow> u64 \<times> u64 \<times> u64 \<Rightarrow> (u64 \<times> u64 \<times> u64) option" where
  "task_fields [] cursor tv = Some tv"
| "task_fields (field # nums) cursor (utime, stime, starttime) =
     (let cursor = dropWhile isspace cursor
      in if cursor = [] then None
         else if field = 14 \<or> field = 15 \<or> field = 22
         then (let (num, err, number_end) = strtoull cursor
               in if err \<or> number_end = cursor then None
                  else task_fields nums (dropWhile (\<lambda>c. \<not> isspace c) cursor)
                    (if field = 14 then (num, stime, starttime)
                     else if field = 15 then (utime, num, starttime)
                     else (utime, stime, num)))
         else task_fields nums (dropWhile (\<lambda>c. \<not> isspace c) cursor) (utime, stime, starttime))"

text \<open>The result \<open>None\<close> stands for the return value -1 (the callers then ignore \<^verbatim>\<open>*task\<close>).\<close>

definition parse_task_stat :: "os \<Rightarrow> string option \<Rightarrow> task_stat option" where
  "parse_task_stat os path =
     do { path \<leftarrow> path;
          stat_fp \<leftarrow> os_file os path;
          (line, _) \<leftarrow> fgets 512 stat_fp;
          let buf = cstr line;
          tid \<leftarrow> (case fst (scanf [C_ld, C_ws] buf) of [A_int i] \<Rightarrow> if i \<le> 0 then None else Some i | _ \<Rightarrow> None);
          left \<leftarrow> strchr buf CHR ''('';
          right \<leftarrow> strrchr buf CHR '')'';
          if right \<le> left then None
          else do {
            let comm_len = right - left - 1;
            let comm_len = (if comm_len \<ge> TF_PROC_NAME_SIZE then TF_PROC_NAME_SIZE - 1 else comm_len);
            let comm = take comm_len (drop (left + 1) buf) @ replicate (TF_PROC_NAME_SIZE - comm_len) NUL;
            let cursor = dropWhile isspace (drop (right + 1) buf);
            if cursor = [] then None
            else do {
              (utime, stime, starttime) \<leftarrow> task_fields [4..<23] (tl cursor) (0, 0, 0);
              Some \<lparr>ts_id = tid, ts_comm = comm, ts_state = hd cursor, ts_ticks = utime + stime,
                    ts_starttime = starttime\<rparr> } } }"

text \<open>The ticks, \<^verbatim>\<open>*pid_out\<close> and \<^verbatim>\<open>comm_out\<close>, which start as zeros at the call site.\<close>

definition parse_stat :: "os \<Rightarrow> string \<Rightarrow> u64 \<times> int \<times> char list" where
  "parse_stat os path =
     (case parse_task_stat os (Some path) of
        None \<Rightarrow> (0, 0, replicate 16 NUL)
      | Some task \<Rightarrow>
        (ts_ticks task, sint (of_int (ts_id task) :: u32),
         (strncpy (replicate 16 NUL) (ts_comm task) 15)[15 := NUL]))"

text \<open>The loop over \<^verbatim>\<open>/proc/<pid>/status\<close>; \<open>Some\<close> is the value \<^verbatim>\<open>parse_rss_kb\<close> returns from it.\<close>

definition status_fmt :: "conv list" where
  "status_fmt = [C_s 63, C_ws, C_llu, C_ws, C_s 15]"

function rss_status :: "string \<Rightarrow> u32 option" where
  "rss_status fp =
     (let (args, rest) = scanf status_fmt fp
      in if length args \<noteq> 3 then None
         else if cstr (arg_str (args ! 0)) = ''VmRSS:''
         then (if arg_u64 (args ! 1) > 0 then Some (ucast (arg_u64 (args ! 1))) else None)
         else rss_status (skip_line rest))"
  by pat_completeness auto
termination
proof (relation "measure length", goal_cases)
  case 1
  show ?case by simp
next
  case (2 fp x args rest)
  then have "scanf status_fmt fp = (args, rest)" "args \<noteq> []"
    by auto
  then obtain a as where "scanf status_fmt fp = (a # as, rest)"
    by (cases args) simp_all
  then show ?case
    unfolding status_fmt_def by (simp only: in_measure) (rule scanf_word_skip)
qed

declare rss_status.simps [simp del]

text \<open>Division of a \<^verbatim>\<open>long\<close> truncates towards zero.\<close>

definition long_div :: "int \<Rightarrow> int \<Rightarrow> int" where
  "long_div a b = (if a < 0 then - ((- a) div b) else a div b)"

definition parse_rss_kb :: "os \<Rightarrow> int \<Rightarrow> u32" where
  "parse_rss_kb os pid =
     (case (case os_file os (''/proc/'' @ show_ld pid @ ''/status'') of None \<Rightarrow> None | Some fp \<Rightarrow> rss_status fp) of
        Some kb \<Rightarrow> kb
      | None \<Rightarrow>
        (case os_file os (''/proc/'' @ show_ld pid @ ''/statm'') of
           None \<Rightarrow> 0
         | Some fp \<Rightarrow>
           (let args = fst (scanf [C_llu, C_ws, C_llu] fp)
            in if length args \<noteq> 2 then 0
               else let page_kb = long_div (os_pagesize os) 1024
                    in ucast (arg_u64 (args ! 1) * of_int page_kb))))"

section \<open>Kernel formats\<close>

text \<open>Words after single blanks.\<close>

definition blank_words :: "string list \<Rightarrow> string" where
  "blank_words ws = concat (map (\<lambda>w. CHR '' '' # w) ws)"

definition stat_word :: "string \<Rightarrow> bool" where
  "stat_word w \<longleftrightarrow> w \<noteq> [] \<and> list_all (\<lambda>c. \<not> isspace c \<and> c \<noteq> CHR '')'' \<and> c \<noteq> NUL) w"

lemma blank_words_simps [simp]:
  "blank_words [] = []" "blank_words (w # ws) = CHR '' '' # w @ blank_words ws"
  by (simp_all add: blank_words_def)

definition blank_start :: "string \<Rightarrow> bool" where
  "blank_start r \<longleftrightarrow> r = [] \<or> isspace (hd r)"

lemma blank_start_words: "blank_start r \<Longrightarrow> blank_start (blank_words ws @ r)"
  by (cases ws) (simp_all add: blank_start_def)

lemma blank_start_Cons [simp]: "blank_start (CHR '' '' # r)"
  by (simp add: blank_start_def)

lemma word_cursor:
  assumes "stat_word w" "blank_start r"
  shows "dropWhile isspace (CHR '' '' # w @ r) = w @ r" "w @ r \<noteq> []"
    "dropWhile (\<lambda>c. \<not> isspace c) (w @ r) = r"
  using assms by (cases w; cases r; auto simp: stat_word_def blank_start_def list_all_iff dropWhile_append)+

lemma task_fields_skip:
  assumes "list_all (\<lambda>f. f \<noteq> 14 \<and> f \<noteq> 15 \<and> f \<noteq> 22) fs" "length ws = length fs" "list_all stat_word ws" "blank_start r"
  shows "task_fields (fs @ gs) (blank_words ws @ r) tv = task_fields gs r tv"
  using assms(1-3)
proof (induction fs arbitrary: ws)
  case Nil
  then show ?case by simp
next
  case (Cons f fs)
  then obtain w ws' where ws: "ws = w # ws'" by (cases ws) auto
  obtain u s st where t: "tv = (u, s, st)" by (cases tv)
  have "blank_start (blank_words ws' @ r)"
    using assms(4) by (rule blank_start_words)
  then show ?case
    using Cons word_cursor [of w "blank_words ws' @ r"] by (auto simp: ws t Let_def)
qed

lemma show_u_stat_word: "stat_word (show_u n)"
  using show_u_digits [of n] by (auto simp: stat_word_def list_all_iff isdigit_def isspace_def Let_def)

lemma strtoull_show_u:
  assumes "n \<le> ULLONG_MAX" "blank_start r"
  shows "strtoull (show_u n @ r) = (of_nat n, False, r)"
proof -
  have "r = [] \<or> \<not> isdigit (hd r)"
    using assms(2) isdigit_not_special(1) by (auto simp: blank_start_def)
  then show ?thesis
    using assms(1) scan_integer_show_u [of "[]" r n] by (simp add: strtoull_def to_ull_def)
qed

lemma task_fields_number:
  assumes "f \<in> {14, 15, 22}" "n \<le> ULLONG_MAX" "blank_start r"
  shows "task_fields (f # fs) (CHR '' '' # show_u n @ r) (u, s, st) =
    task_fields fs r (if f = 14 then (of_nat n, s, st) else if f = 15 then (u, of_nat n, st) else (u, s, of_nat n))"
  using assms word_cursor [OF show_u_stat_word assms(3), of n] strtoull_show_u [OF assms(2,3)]
  by (auto simp: Let_def)

text \<open>A line of a \<^verbatim>\<open>stat\<close> file: the number, the command in parentheses, the state, ten fields, user
  and system time, six fields, the start time and the rest of the line.\<close>

definition stat_line :: "nat \<Rightarrow> string \<Rightarrow> char \<Rightarrow> string list \<Rightarrow> nat \<Rightarrow> nat \<Rightarrow> string list \<Rightarrow> nat \<Rightarrow> string \<Rightarrow> string" where
  "stat_line n comm state ws1 ut st ws2 start rest =
     show_u n @ '' ('' @ comm @ '') '' @ [state] @ blank_words (ws1 @ [show_u ut, show_u st] @ ws2 @ [show_u start]) @
     rest @ [NEWLINE]"

definition stat_line_ok :: "nat \<Rightarrow> string \<Rightarrow> char \<Rightarrow> string list \<Rightarrow> nat \<Rightarrow> nat \<Rightarrow> string list \<Rightarrow> nat \<Rightarrow> string \<Rightarrow> bool" where
  "stat_line_ok n comm state ws1 ut st ws2 start rest \<longleftrightarrow>
     0 < n \<and> int n \<le> LONG_MAX \<and> length comm \<le> 15 \<and> NUL \<notin> set comm \<and> \<not> isspace state \<and> state \<noteq> CHR '')'' \<and> state \<noteq> NUL \<and>
     length ws1 = 10 \<and> list_all stat_word ws1 \<and> length ws2 = 6 \<and> list_all stat_word ws2 \<and>
     ut \<le> ULLONG_MAX \<and> st \<le> ULLONG_MAX \<and> start \<le> ULLONG_MAX \<and>
     blank_start rest \<and> CHR '')'' \<notin> set rest \<and> NUL \<notin> set rest \<and>
     full_line 512 (stat_line n comm state ws1 ut st ws2 start rest)"

lemma blank_words_chars:
  assumes "list_all stat_word ws" "c \<in> set (blank_words ws)"
  shows "c \<noteq> CHR '')'' \<and> c \<noteq> NUL"
proof -
  consider "c = CHR '' ''" | w where "w \<in> set ws" "c \<in> set w"
    using assms(2) by (auto simp: blank_words_def split: if_splits)
  then show ?thesis
    using assms(1) by cases (auto simp: list_all_iff stat_word_def)
qed

lemma task_fields_line:
  assumes "length ws1 = 10" "list_all stat_word ws1" "length ws2 = 6" "list_all stat_word ws2"
    "ut \<le> ULLONG_MAX" "st \<le> ULLONG_MAX" "start \<le> ULLONG_MAX" "blank_start r"
  shows "task_fields [4..<23] (blank_words (ws1 @ [show_u ut, show_u st] @ ws2 @ [show_u start]) @ r) (0, 0, 0) =
    Some (of_nat ut, of_nat st, of_nat start)"
proof -
  have f: "[4..<23] = [4..<14] @ 14 # 15 # [16..<22] @ [22]"
    by (simp add: upt_rec)
  have b: "blank_words (xs @ ys) = blank_words xs @ blank_words ys" for xs ys
    by (simp add: blank_words_def)
  let ?r3 = "CHR '' '' # show_u start @ r"
  let ?r2 = "blank_words ws2 @ ?r3"
  let ?r1 = "CHR '' '' # show_u ut @ CHR '' '' # show_u st @ ?r2"
  have r2: "blank_start ?r2"
    by (intro blank_start_words) simp
  have "task_fields [4..<23] (blank_words ws1 @ ?r1) (0, 0, 0) = task_fields (14 # 15 # [16..<22] @ [22]) ?r1 (0, 0, 0)"
    unfolding f using assms(1,2) by (intro task_fields_skip) (simp_all add: list_all_iff)
  also have "\<dots> = task_fields (15 # [16..<22] @ [22]) (CHR '' '' # show_u st @ ?r2) (of_nat ut, 0, 0)"
    using assms(5) by (subst task_fields_number) simp_all
  also have "\<dots> = task_fields ([16..<22] @ [22]) ?r2 (of_nat ut, of_nat st, 0)"
    using assms(6) r2 by (subst task_fields_number) simp_all
  also have "\<dots> = task_fields [22] ?r3 (of_nat ut, of_nat st, 0)"
    using assms(3,4) by (intro task_fields_skip) (simp_all add: list_all_iff)
  also have "\<dots> = Some (of_nat ut, of_nat st, of_nat start)"
    using assms(7,8) by (subst task_fields_number) simp_all
  finally show ?thesis
    by (simp add: b)
qed

lemma scan_id:
  assumes "int n \<le> LONG_MAX"
  shows "fst (scanf [C_ld, C_ws] (show_u n @ CHR '' '' # r)) = [A_int (int n)]"
  using assms scan_integer_show_u [of "[]" "CHR '' '' # r" n] by (simp add: to_long_def)

lemma parse_task_stat_eq:
  assumes "stat_line_ok n comm state ws1 ut st ws2 start rest"
    "os_file os path = Some (stat_line n comm state ws1 ut st ws2 start rest @ file_rest)"
  shows "parse_task_stat os (Some path) = Some \<lparr>ts_id = int n, ts_comm = comm @ replicate (16 - length comm) NUL,
    ts_state = state, ts_ticks = of_nat ut + of_nat st, ts_starttime = of_nat start\<rparr>"
proof -
  let ?words = "blank_words (ws1 @ [show_u ut, show_u st] @ ws2 @ [show_u start])"
  let ?buf = "stat_line n comm state ws1 ut st ws2 start rest"
  have n: "0 < n" "int n \<le> LONG_MAX" and comm_ok: "length comm \<le> 15" "NUL \<notin> set comm"
    and state: "\<not> isspace state" "state \<noteq> CHR '')''" "state \<noteq> NUL"
    and ws: "length ws1 = 10" "list_all stat_word ws1" "length ws2 = 6" "list_all stat_word ws2"
    and nums: "ut \<le> ULLONG_MAX" "st \<le> ULLONG_MAX" "start \<le> ULLONG_MAX"
    and rest: "blank_start rest" "CHR '')'' \<notin> set rest" "NUL \<notin> set rest" and line: "full_line 512 ?buf"
    using assms(1) unfolding stat_line_ok_def by blast+
  have "list_all stat_word (ws1 @ [show_u ut, show_u st] @ ws2 @ [show_u start])"
    using ws(2,4) by (simp add: show_u_stat_word)
  from blank_words_chars [OF this] have words: "CHR '')'' \<notin> set ?words" "NUL \<notin> set ?words"
    by blast+
  have dig: "CHR ''('' \<notin> set (show_u n)" "NUL \<notin> set (show_u n)"
    using show_u_digits [of n] by (auto simp: list_all_iff isdigit_def Let_def)
  have buf: "cstr ?buf = ?buf"
    using comm_ok(2) state(3) rest(3) words dig by (intro cstr_id) (auto simp: stat_line_def)
  have gets: "fgets 512 (?buf @ file_rest) = Some (?buf, file_rest)"
    using line by (rule fgets_full_line)
  have left: "strchr ?buf CHR ''('' = Some (length (show_u n) + 1)"
    using strchr_first [of "CHR ''(''" "show_u n @ '' ''" "comm @ '') '' @ [state] @ ?words @ rest @ [NEWLINE]"] dig(1)
    by (simp add: stat_line_def)
  have right: "strrchr ?buf CHR '')'' = Some (length (show_u n) + 2 + length comm)"
    using strrchr_last [of "CHR '')''" "'' '' @ [state] @ ?words @ rest @ [NEWLINE]" "show_u n @ '' ('' @ comm"] state(2) rest(2) words(1)
    by (simp add: stat_line_def)
  have comm: "take (length comm) (drop (length (show_u n) + 2) ?buf) = comm"
    by (simp add: stat_line_def)
  have tail: "dropWhile isspace (drop (length (show_u n) + 3 + length comm) ?buf) = state # ?words @ rest @ [NEWLINE]"
  proof -
    let ?p = "show_u n @ '' ('' @ comm @ '')''"
    have "drop (length ?p) (?p @ q) = q" for q
      by (rule append_eq_conv_conj [THEN iffD1, THEN conjunct2, symmetric]) (rule refl)
    from this [of "'' '' @ [state] @ ?words @ rest @ [NEWLINE]"]
    have "drop (length (show_u n) + 3 + length comm) ?buf = '' '' @ [state] @ ?words @ rest @ [NEWLINE]"
      by (simp add: stat_line_def)
    then show ?thesis using state(1) by simp
  qed
  have "blank_start (rest @ [NEWLINE])"
    using rest(1) by (cases rest) (auto simp: blank_start_def)
  then have parsed: "task_fields [4..<23] (?words @ rest @ [NEWLINE]) (0, 0, 0) = Some (of_nat ut, of_nat st, of_nat start)"
    using ws nums by (intro task_fields_line)
  have scan: "fst (scanf [C_ld, C_ws] ?buf) = [A_int (int n)]"
    using scan_id [OF n(2)] by (simp add: stat_line_def)
  define L R where "L = length (show_u n) + 1" and "R = length (show_u n) + 2 + length comm"
  have LR: "\<not> R \<le> L" "R - L - 1 = length comm" "L + 1 = length (show_u n) + 2" "R + 1 = length (show_u n) + 3 + length comm"
    by (simp_all add: L_def R_def)
  have id: "(case [A_int (int n)] of [A_int i] \<Rightarrow> if i \<le> 0 then None else Some i | _ \<Rightarrow> None) = Some (int n)"
    using n(1) by simp
  show ?thesis
    using comm_ok(1) n(1) unfolding parse_task_stat_def
    by (simp only: bind.bind_lunit assms(2) gets buf left [folded L_def] right [folded R_def] scan id prod.case Let_def
        LR if_False comm tail list.simps parsed not_le list.sel split: if_split) simp
qed

text \<open>C14: on a \<^verbatim>\<open>stat\<close> file in the kernel's format \<^verbatim>\<open>parse_task_stat\<close> returns the number, the command
  name (which may itself hold blanks and parentheses), the state, the sum of user and system time and
  the start time.\<close>

theorem parse_task_stat_line:
  assumes "stat_line_ok n comm state ws1 ut st ws2 start rest"
    "os_file os path = Some (stat_line n comm state ws1 ut st ws2 start rest @ file_rest)"
  shows "\<exists>task. parse_task_stat os (Some path) = Some task \<and> ts_id task = int n \<and>
    length (ts_comm task) = TF_PROC_NAME_SIZE \<and> cstr (ts_comm task) = comm \<and> ts_state task = state \<and>
    ts_ticks task = of_nat (ut + st) \<and> ts_starttime task = of_nat start"
proof -
  have "length comm \<le> 15" "NUL \<notin> set comm"
    using assms(1) unfolding stat_line_ok_def by blast+
  moreover have "cstr (comm @ replicate k NUL) = comm" if "NUL \<notin> set comm" for k
    using that unfolding cstr_def by (intro takeWhile_all_replicate) auto
  ultimately show ?thesis
    using parse_task_stat_eq [OF assms] by simp
qed

definition stat_example :: string where
  "stat_example = stat_line 7 ''a) (b'' CHR ''S'' [''1'',''7'',''7'',''0'',''-1'',''4'',''0'',''0'',''0'',''0'']
     3 4 [''0'',''0'',''20'',''0'',''1'',''0''] 9 '' 8 8''"

lemma stat_example_ok:
  "stat_line_ok 7 ''a) (b'' CHR ''S'' [''1'',''7'',''7'',''0'',''-1'',''4'',''0'',''0'',''0'',''0''] 3 4
     [''0'',''0'',''20'',''0'',''1'',''0''] 9 '' 8 8''"
  (is "stat_line_ok _ _ _ ?ws1 _ _ ?ws2 _ _")
proof -
  have digits: "show_u 7 = ''7''" "show_u 3 = ''3''" "show_u 4 = ''4''" "show_u 9 = ''9''"
    by (simp_all add: show_u.simps char_of_def bit_0)
  have line: "stat_line 7 ''a) (b'' CHR ''S'' ?ws1 3 4 ?ws2 9 '' 8 8'' =
      ''7 (a) (b) S 1 7 7 0 -1 4 0 0 0 0 3 4 0 0 20 0 1 0 9 8 8'' @ [NEWLINE]"
    by (simp add: stat_line_def digits)
  have full: "full_line 512 (''7 (a) (b) S 1 7 7 0 -1 4 0 0 0 0 3 4 0 0 20 0 1 0 9 8 8'' @ [NEWLINE])"
    by (simp add: full_line_def)
  have words: "list_all stat_word ?ws1" "list_all stat_word ?ws2"
    by (simp_all add: stat_word_def isspace_def)
  show ?thesis
    unfolding stat_line_ok_def line using words full by (simp add: blank_start_def isspace_def)
qed

theorem parse_task_stat_line_witness:
  "\<exists>task. parse_task_stat (os_of_files [(''/proc/7/stat'', stat_example)]) (Some ''/proc/7/stat'') = Some task \<and>
    ts_id task = 7 \<and> cstr (ts_comm task) = ''a) (b'' \<and> ts_state task = CHR ''S'' \<and> ts_ticks task = 7 \<and>
    ts_starttime task = 9"
  using parse_task_stat_line [OF stat_example_ok, of "os_of_files [(''/proc/7/stat'', stat_example)]" "''/proc/7/stat''" "[]"]
  by (auto simp: os_of_files_def stat_example_def)

lemma parse_stat_example:
  assumes "os_file os path = Some stat_example"
  shows "\<exists>comm. parse_stat os path = (7, 7, comm)"
  using parse_task_stat_eq [OF stat_example_ok, of os path "[]"] assms
  by (simp add: parse_stat_def stat_example_def)

text \<open>C32: for a command whose name starts with neither a digit nor a sign the resident size comes from
  \<^verbatim>\<open>statm\<close>: the scan of \<^verbatim>\<open>/proc/<pid>/status\<close> stops at its first line, whose second word is that name
  and not a number, so the \<^verbatim>\<open>VmRSS:\<close> line is never reached; the result is the number of resident
  pages times the page size in kB, modulo the 32 bits of the field. (A name such as \<^verbatim>\<open>7z\<close> starts with a
  number, and the scan goes on.)\<close>

theorem parse_rss_kb_statm:
  assumes "os_file os (''/proc/'' @ show_ld pid @ ''/status'') = Some (''Name:'' @ [CHR 0x09] @ c # status)"
    "\<not> isspace c" "\<not> isdigit c" "c \<noteq> CHR ''-''" "c \<noteq> CHR ''+''"
    "os_file os (''/proc/'' @ show_ld pid @ ''/statm'') = Some (show_u pages @ num_fields [(0, rss)] @ statm)"
    "statm = [] \<or> \<not> isdigit (hd statm)" "pages \<le> ULLONG_MAX" "rss \<le> ULLONG_MAX" "0 \<le> os_pagesize os"
  shows "parse_rss_kb os pid = of_nat (rss * (nat (os_pagesize os) div 1024))"
proof -
  have "scanf (C_s 63 # fs) (''Name:'' @ [CHR 0x09] @ c # status) =
      (A_str ''Name:'' # fst (scanf fs (CHR 0x09 # c # status)), snd (scanf fs (CHR 0x09 # c # status)))" for fs
    using scan_word [of "[]" "''Name:''" 63 "CHR 0x09 # c # status"]
    by (simp add: isspace_def case_prod_beta del: scan1.simps)
  moreover have "fst (scanf [C_ws, C_llu, C_ws, C_s 15] (CHR 0x09 # c # status)) = []"
    using assms(2-5) by (simp add: isspace_def scan_integer_def scan_sign_def)
  ultimately have "fst (scanf status_fmt (''Name:'' @ [CHR 0x09] @ c # status)) = [A_str ''Name:'']"
    unfolding status_fmt_def by (simp del: scanf.simps)
  then have status: "rss_status (''Name:'' @ [CHR 0x09] @ c # status) = None"
    by (subst rss_status.simps) (simp add: case_prod_beta Let_def)
  have "fst (scanf [C_llu, C_ws, C_llu] (show_u pages @ num_fields [(0, rss)] @ statm)) = [A_u64 (of_nat pages), A_u64 (of_nat rss)]"
    using scan_integer_show_u [of "[]" "num_fields [(0, rss)] @ statm" pages] num_fields_end [OF assms(7), of "[(0, rss)]"]
      scanf_field_simps(1) [OF assms(7,9), of "[]" 0 "[]"] assms(8)
    by (simp add: to_ull_def case_prod_beta scanf.simps(2) [of C_llu] num_fields_Cons(1) del: scanf.simps(2))
  moreover have "(ucast (of_nat rss * of_int (os_pagesize os div 1024) :: u64) :: u32) = of_nat (rss * (nat (os_pagesize os) div 1024))"
  proof -
    have "(of_int (os_pagesize os div 1024) :: u64) = of_nat (nat (os_pagesize os) div 1024)"
      using assms(10) by (metis nat_div_distrib nat_numeral of_int_of_nat_eq of_nat_nat pos_imp_zdiv_nonneg_iff zero_less_numeral zero_le_numeral)
    then have "of_nat rss * of_int (os_pagesize os div 1024) = (of_nat (rss * (nat (os_pagesize os) div 1024)) :: u64)"
      by simp
    then show ?thesis by (simp only: ucast_of_nat_u64_u32)
  qed
  ultimately show ?thesis
    using assms(1,6,10) status by (simp add: parse_rss_kb_def long_div_def Let_def del: scanf.simps)
qed

theorem parse_rss_kb_statm_witness:
  "parse_rss_kb (os_of_files [(''/proc/7/status'', ''Name:'' @ [CHR 0x09] @ ''sh'' @ [NEWLINE] @ ''VmRSS: 999 kB'' @ [NEWLINE]),
      (''/proc/7/statm'', show_u 500 @ num_fields [(0, 120)] @ '' 9'')]) 7 = of_nat 480"
  (is "parse_rss_kb ?os 7 = _")
proof -
  have "show_ld 7 = ''7''"
    by (simp add: show_ld_def show_u.simps char_of_def bit_0)
  then show ?thesis
    using parse_rss_kb_statm [of ?os 7 "CHR ''s''" "''h'' @ [NEWLINE] @ ''VmRSS: 999 kB'' @ [NEWLINE]" 500 120 "'' 9''"]
    by (simp add: os_of_files_def isspace_def isdigit_def)
qed

end
