(* ===== verification/Proc_Threads.thy ===== *)
theory Proc_Threads
  imports Proc_Stat "HOL-Library.Multiset"
begin

text \<open>
  The thread part of \<^verbatim>\<open>agent/src/proc.c\<close>: counting the threads of a watched group by state,
  collecting and ranking the busiest threads (\<^verbatim>\<open>collect_thread_group\<close>), and packing the result
  into the space that is left in the frame (\<^verbatim>\<open>thread_push\<close>).
\<close>

section \<open>Operations\<close>

definition get_cpu_count :: "os \<Rightarrow> proc_ctx \<Rightarrow> nat \<times> proc_ctx" where
  "get_cpu_count os ctx =
     (if cpu_count ctx = 0
      then let n = nat (os_nprocessors os mod 18446744073709551616);
               n = (if n = 0 then 1 else n)
           in (n, ctx\<lparr>cpu_count := n\<rparr>)
      else (cpu_count ctx, ctx))"

definition thread_state_index :: "char \<Rightarrow> nat" where
  "thread_state_index state =
     (if state = CHR ''R'' then 0 else if state = CHR ''S'' then 1 else if state = CHR ''D'' then 2
      else if state = CHR ''T'' \<or> state = CHR ''t'' then 3 else if state = CHR ''Z'' then 4
      else if state = CHR ''I'' then 5 else 6)"

definition increment_u16 :: "u16 \<Rightarrow> u8 \<Rightarrow> u16 \<times> u8" where
  "increment_u16 v flags = (if v < of_nat UINT16_MAX then (v + 1, flags) else (v, flags OR TF_THREAD_FLAG_TRUNCATED))"

definition same_candidate :: "proc_ctx \<Rightarrow> task_stat \<Rightarrow> int \<Rightarrow> thread_candidate \<Rightarrow> bool" where
  "same_candidate ctx task pid c \<longleftrightarrow>
     (if ctx_thread_include_tid ctx \<noteq> 0
      then cand_pid c = of_int pid \<and> cand_tid c = of_int (ts_id task)
      else strcmp (cstr (cand_name c)) (cstr (ts_comm task)) = 0)"

text \<open>The result is the return value, \<^verbatim>\<open>*candidate_count\<close> and the context.\<close>

definition add_thread_candidate ::
  "proc_ctx \<Rightarrow> nat \<Rightarrow> task_stat \<Rightarrow> int \<Rightarrow> u64 \<Rightarrow> (int \<times> nat \<times> proc_ctx) option" where
  "add_thread_candidate ctx cnt task pid cpu_pct_x10 =
     (case find_idx (same_candidate ctx task pid) (take cnt (thread_candidates ctx)) of
        Some i \<Rightarrow>
          do { c \<leftarrow> arr_get (thread_candidates ctx) i;
               let c = (if cand_inst_count c < of_nat UINT32_MAX
                        then c\<lparr>cand_inst_count := cand_inst_count c + 1\<rparr> else c);
               let c = c\<lparr>cand_cpu_pct_x10 := cand_cpu_pct_x10 c + cpu_pct_x10\<rparr>;
               cs \<leftarrow> arr_set (thread_candidates ctx) i c;
               Some (0, cnt, ctx\<lparr>thread_candidates := cs\<rparr>) }
      | None \<Rightarrow>
          if cnt \<ge> TF_THREAD_CANDIDATES \<or> pid \<le> 0 \<or> ts_id task \<le> 0 \<or> pid > int UINT32_MAX \<or>
             ts_id task > int UINT32_MAX
          then Some (- 1, cnt, ctx)
          else do {
            let c = zero_thread_candidate;
            let c = c\<lparr>cand_name := strncpy (cand_name c) (ts_comm task) (TF_PROC_NAME_SIZE - 1)\<rparr>;
            let c = c\<lparr>cand_pid := (if ctx_thread_include_tid ctx \<noteq> 0 then of_int pid else 0),
                      cand_tid := (if ctx_thread_include_tid ctx \<noteq> 0 then of_int (ts_id task) else 0),
                      cand_inst_count := 1, cand_cpu_pct_x10 := cpu_pct_x10\<rparr>;
            cs \<leftarrow> arr_set (thread_candidates ctx) cnt c;
            Some (0, cnt + 1, ctx\<lparr>thread_candidates := cs\<rparr>) })"

definition compare_thread_candidates :: "thread_candidate \<Rightarrow> thread_candidate \<Rightarrow> int" where
  "compare_thread_candidates lhs rhs =
     (if cand_cpu_pct_x10 lhs > cand_cpu_pct_x10 rhs then - 1
      else if cand_cpu_pct_x10 lhs < cand_cpu_pct_x10 rhs then 1
      else strcmp (cstr (cand_name lhs)) (cstr (cand_name rhs)))"

text \<open>\<^verbatim>\<open>qsort\<close> of the first \<open>n\<close> elements. (The order of elements the comparison does not
  separate is unspecified in C; here they keep their order.)\<close>

fun insert_by :: "('a \<Rightarrow> 'a \<Rightarrow> int) \<Rightarrow> 'a \<Rightarrow> 'a list \<Rightarrow> 'a list" where
  "insert_by cmp x [] = [x]"
| "insert_by cmp x (y # ys) = (if cmp x y \<le> 0 then x # y # ys else y # insert_by cmp x ys)"

definition qsort :: "('a \<Rightarrow> 'a \<Rightarrow> int) \<Rightarrow> nat \<Rightarrow> 'a list \<Rightarrow> 'a list" where
  "qsort cmp n xs = foldr (insert_by cmp) (take n xs) [] @ drop n xs"

definition copy_thread_candidate :: "thread_candidate \<Rightarrow> thread_top_entry" where
  "copy_thread_candidate src =
     (let dst = zero_thread_top;
          dst = dst\<lparr>te_name := strncpy (te_name dst) (cand_name src) (TF_PROC_NAME_SIZE - 1)\<rparr>
      in dst\<lparr>te_inst_count := (if cand_inst_count src > of_nat UINT16_MAX then of_nat UINT16_MAX
                              else ucast (cand_inst_count src)),
             te_cpu_pct_x10 := (if cand_cpu_pct_x10 src > of_nat UINT16_MAX then of_nat UINT16_MAX
                               else ucast (cand_cpu_pct_x10 src)),
             te_pid := cand_pid src, te_tid := cand_tid src\<rparr>)"

definition truncate_flag :: "thread_group_entry \<Rightarrow> thread_group_entry" where
  "truncate_flag out = out\<lparr>tg_flags := tg_flags out OR TF_THREAD_FLAG_TRUNCATED\<rparr>"

text \<open>The two counters a thread adds to.\<close>

definition count_thread :: "task_stat \<Rightarrow> thread_group_entry \<Rightarrow> thread_group_entry option" where
  "count_thread task out =
     do { let (n, flags) = increment_u16 (tg_total_threads out) (tg_flags out);
          let out = out\<lparr>tg_total_threads := n, tg_flags := flags\<rparr>;
          let i = thread_state_index (ts_state task);
          v \<leftarrow> arr_get (tg_state_counts out) i;
          let (v, flags) = increment_u16 v (tg_flags out);
          counts \<leftarrow> arr_set (tg_state_counts out) i v;
          Some (out\<lparr>tg_state_counts := counts, tg_flags := flags\<rparr>) }"

text \<open>The CPU share of one thread in mode TOP, in tenths of a percent.\<close>

definition thread_share ::
  "os \<Rightarrow> int \<Rightarrow> int \<Rightarrow> task_stat \<Rightarrow> proc_ctx \<Rightarrow> thread_group_entry \<Rightarrow> (u64 \<times> proc_ctx \<times> thread_group_entry) option" where
  "thread_share os pid tid task ctx out =
     (case find_thread_slot (thread_history ctx) pid tid (ts_starttime task) of
        (None, hist) \<Rightarrow> Some (0, ctx\<lparr>thread_history := hist\<rparr>, truncate_flag out)
      | (Some i, hist) \<Rightarrow>
          do { slot \<leftarrow> arr_get hist i;
               let previous_ticks = tp_ticks slot;
               hist \<leftarrow> arr_set hist i (slot\<lparr>tp_ticks := ts_ticks task, tp_generation := thread_generation ctx\<rparr>);
               let ctx = ctx\<lparr>thread_history := hist\<rparr>;
               if previous_ticks \<noteq> 0 \<and> ts_ticks task \<ge> previous_ticks
               then do {
                 let delta = ts_ticks task - previous_ticks;
                 let total_diff = (if ctx_cpu_total_diff ctx = 0 then 1 else ctx_cpu_total_diff ctx);
                 let (n, ctx) = get_cpu_count os ctx;
                 let scaled = delta * 1000 * of_nat n;
                 pct \<leftarrow> u64_div scaled total_diff;
                 Some (pct, ctx, out) }
               else Some (0, ctx, out) })"

text \<open>One thread in mode TOP: its share and its entry among the candidates.\<close>

definition thread_sample ::
  "os \<Rightarrow> int \<Rightarrow> int \<Rightarrow> task_stat \<Rightarrow> proc_ctx \<Rightarrow> thread_group_entry \<Rightarrow> nat
     \<Rightarrow> (proc_ctx \<times> thread_group_entry \<times> nat) option" where
  "thread_sample os pid tid task ctx out cnt =
     do { (cpu_pct_x10, ctx, out) \<leftarrow> thread_share os pid tid task ctx out;
          (rc, cnt, ctx) \<leftarrow> add_thread_candidate ctx cnt task pid cpu_pct_x10;
          Some (ctx, if rc \<noteq> 0 then truncate_flag out else out, cnt) }"

definition digit_name :: "string \<Rightarrow> bool" where
  "digit_name d = (case d of c # _ \<Rightarrow> isdigit c | [] \<Rightarrow> False)"

text \<open>The loop over \<^verbatim>\<open>/proc/<pid>/task\<close>.\<close>

fun thread_dir :: "os \<Rightarrow> int \<Rightarrow> string list \<Rightarrow> nat \<Rightarrow> proc_ctx \<Rightarrow> thread_group_entry \<Rightarrow> nat
  \<Rightarrow> (proc_ctx \<times> thread_group_entry \<times> nat) option" where
  "thread_dir os pid [] scanned ctx out cnt = Some (ctx, out, cnt)"
| "thread_dir os pid (d # ds) scanned ctx out cnt =
     (if \<not> digit_name d then thread_dir os pid ds scanned ctx out cnt
      else if scanned \<ge> TF_THREAD_SCAN_LIMIT_PER_PID then Some (ctx, truncate_flag out, cnt)
      else let (tid, err, rest) = strtol d
      in if err \<or> tid \<le> 0 \<or> rest \<noteq> [] then thread_dir os pid ds scanned ctx out cnt
      else (case parse_task_stat os (Some (''/proc/'' @ show_ld pid @ ''/task/'' @ show_ld tid @ ''/stat'')) of
          None \<Rightarrow> thread_dir os pid ds scanned ctx out cnt
        | Some task \<Rightarrow>
            if ts_id task \<noteq> tid then thread_dir os pid ds scanned ctx out cnt
            else do {
              out \<leftarrow> count_thread task out;
              if ctx_thread_mode ctx \<noteq> TF_THREAD_MODE_TOP
              then thread_dir os pid ds (scanned + 1) ctx out cnt
              else do {
                (ctx, out, cnt) \<leftarrow> thread_sample os pid tid task ctx out cnt;
                thread_dir os pid ds (scanned + 1) ctx out cnt } }))"

text \<open>The loop over the processes of a group.\<close>

fun thread_pids :: "os \<Rightarrow> int list \<Rightarrow> proc_ctx \<Rightarrow> thread_group_entry \<Rightarrow> nat
  \<Rightarrow> (proc_ctx \<times> thread_group_entry \<times> nat) option" where
  "thread_pids os [] ctx out cnt = Some (ctx, out, cnt)"
| "thread_pids os (pid # ps) ctx out cnt =
     (case os_dir os (''/proc/'' @ show_ld pid @ ''/task'') of
        None \<Rightarrow> thread_pids os ps ctx out cnt
      | Some names \<Rightarrow>
          do { (ctx, out, cnt) \<leftarrow> thread_dir os pid names 0 ctx out cnt;
               thread_pids os ps ctx out cnt })"

definition group_pids :: "watch_group \<Rightarrow> int list" where
  "group_pids g = take (pid_count (wg_list g)) (pids (wg_list g))"

text \<open>The result is \<^verbatim>\<open>*out\<close> and the context.\<close>

definition collect_thread_group ::
  "os \<Rightarrow> proc_ctx \<Rightarrow> watch_group \<Rightarrow> (thread_group_entry \<times> proc_ctx) option" where
  "collect_thread_group os ctx grp =
     do { let out = zero_thread_group\<lparr>tg_name := strncpy (tg_name zero_thread_group) (wg_name grp) (TF_PROC_NAME_SIZE - 1)\<rparr>;
          let out = (if ctx_thread_include_tid ctx \<noteq> 0
                     then out\<lparr>tg_flags := tg_flags out OR TF_THREAD_FLAG_INCLUDE_TID\<rparr> else out);
          let ctx = ctx\<lparr>thread_candidates := replicate TF_THREAD_CANDIDATES zero_thread_candidate\<rparr>;
          (ctx, out, cnt) \<leftarrow> thread_pids os (group_pids grp) ctx out 0;
          if ctx_thread_mode ctx \<noteq> TF_THREAD_MODE_TOP \<or> cnt = 0 then Some (out, ctx)
          else do {
            let ctx = ctx\<lparr>thread_candidates := qsort compare_thread_candidates cnt (thread_candidates ctx)\<rparr>;
            let top_count = cnt;
            let top_count = (if top_count > unat (ctx_thread_top_n ctx) then unat (ctx_thread_top_n ctx) else top_count);
            let top_count = (if top_count > TF_MAX_THREAD_TOP_N then TF_MAX_THREAD_TOP_N else top_count);
            let out = out\<lparr>tg_top_count := of_nat top_count,
              tg_top := map copy_thread_candidate (take top_count (thread_candidates ctx)) @ drop top_count (tg_top out)\<rparr>;
            Some (out, ctx) } }"

text \<open>\<^verbatim>\<open>while (emit_top_count > 0U && 2U + ... > remaining) emit_top_count--;\<close>\<close>

fun thread_emit :: "nat \<Rightarrow> nat \<Rightarrow> nat" where
  "thread_emit remaining 0 = 0"
| "thread_emit remaining (Suc n) =
     (if 2 + TF_THREAD_GROUP_HEADER_PAYLOAD_LEN + Suc n * TF_THREAD_ENTRY_PAYLOAD_LEN > remaining
      then thread_emit remaining n else Suc n)"

definition thread_top_bytes :: "thread_top_entry \<Rightarrow> u8 list" where
  "thread_top_bytes entry =
     (let cursor = map byte_of_char (te_name entry);
          cursor = buf_put_be_u16 cursor (te_inst_count entry);
          cursor = buf_put_be_u16 cursor (te_cpu_pct_x10 entry);
          cursor = buf_put_be_u32 cursor (te_pid entry)
      in buf_put_be_u32 cursor (te_tid entry))"

definition thread_payload_bytes :: "thread_group_entry \<Rightarrow> u8 \<Rightarrow> nat \<Rightarrow> u8 list" where
  "thread_payload_bytes grp flags emit =
     (let cursor = map byte_of_char (tg_name grp);
          cursor = buf_put_be_u16 cursor (tg_total_threads grp);
          cursor = cursor @ [flags];
          cursor = foldl buf_put_be_u16 cursor (tg_state_counts grp);
          cursor = cursor @ [of_nat emit]
      in cursor @ concat (map thread_top_bytes (take emit (tg_top grp))))"

fun thread_push_loop :: "thread_group_entry list \<Rightarrow> proc_ctx \<Rightarrow> tlv_writer \<Rightarrow> (int \<times> proc_ctx \<times> tlv_writer) option"
where
  "thread_push_loop [] ctx wrt = Some (0, ctx, wrt)"
| "thread_push_loop (grp # groups) ctx wrt =
     (let emit = unat (tg_top_count grp);
          capped = (emit > TF_MAX_THREAD_TOP_N);
          emit = (if capped then TF_MAX_THREAD_TOP_N else emit);
          remaining = (if cap wrt > wlen wrt then cap wrt - wlen wrt else 0);
          emit = thread_emit remaining emit
      in if 2 + TF_THREAD_GROUP_HEADER_PAYLOAD_LEN > remaining
         then Some (0, ctx\<lparr>thread_frame_warned := True\<rparr>, wrt)
         else let reduced = (capped \<or> emit < unat (tg_top_count grp));
                  flags = (if reduced then tg_flags grp OR TF_THREAD_FLAG_TRUNCATED else tg_flags grp);
                  ctx = (if reduced then ctx\<lparr>thread_frame_warned := True\<rparr> else ctx);
                  payload = thread_payload_bytes grp flags emit
              in if length payload > 255 then Some (- 1, ctx, wrt)
                 else do { (rc, wrt) \<leftarrow> writer_put wrt TF_TYPE_THREAD payload (of_nat (length payload));
                           if rc \<noteq> 0 then Some (- 1, ctx, wrt) else thread_push_loop groups ctx wrt })"

definition thread_push :: "proc_ctx \<Rightarrow> tlv_writer \<Rightarrow> (int \<times> proc_ctx \<times> tlv_writer) option" where
  "thread_push ctx wrt =
     (let p = last_thread_payload ctx
      in if unat (th_group_count p) > length (th_groups p) then None
         else thread_push_loop (take (unat (th_group_count p)) (th_groups p)) ctx wrt)"

section \<open>Ranking\<close>

text \<open>What the C standard promises of \<^verbatim>\<open>qsort\<close>: the first \<open>n\<close> elements are rearranged, and stand in order
  provided the comparison is consistent. The order of elements that compare equal is not
  specified.\<close>

definition consistent :: "('a \<Rightarrow> 'a \<Rightarrow> int) \<Rightarrow> bool" where
  "consistent cmp \<longleftrightarrow> (\<forall>a b. sgn (cmp b a) = - sgn (cmp a b)) \<and> (\<forall>a b c. cmp a b \<le> 0 \<longrightarrow> cmp b c \<le> 0 \<longrightarrow> cmp a c \<le> 0)"

locale c_qsort =
  fixes sort :: "('a \<Rightarrow> 'a \<Rightarrow> int) \<Rightarrow> nat \<Rightarrow> 'a list \<Rightarrow> 'a list"
  assumes rearranges: "n \<le> length xs \<Longrightarrow> mset (take n (sort cmp n xs)) = mset (take n xs)"
    and keeps_rest: "n \<le> length xs \<Longrightarrow> drop n (sort cmp n xs) = drop n xs"
    and orders: "n \<le> length xs \<Longrightarrow> consistent cmp \<Longrightarrow> sorted_wrt (\<lambda>a b. cmp a b \<le> 0) (take n (sort cmp n xs))"
begin

lemma permutes: "n \<le> length xs \<Longrightarrow> mset (sort cmp n xs) = mset xs"
  using rearranges [of n xs cmp] keeps_rest [of n xs cmp] by (metis append_take_drop_id mset_append)

lemma first_before_rest:
  assumes "n \<le> length xs" "consistent cmp" "a \<in> set (take k (take n (sort cmp n xs)))" "b \<in> set (drop k (take n (sort cmp n xs)))"
  shows "cmp a b \<le> 0"
proof -
  have "sorted_wrt (\<lambda>a b. cmp a b \<le> 0) (take k (take n (sort cmp n xs)) @ drop k (take n (sort cmp n xs)))"
    using orders [OF assms(1,2)] by (simp only: append_take_drop_id)
  then show ?thesis
    using assms(3,4) unfolding sorted_wrt_append by blast
qed

end

lemma consistent_total:
  assumes "consistent cmp"
  shows "cmp a b \<le> 0 \<or> cmp b a \<le> 0"
proof -
  have "sgn (cmp b a) = - sgn (cmp a b)"
    using assms unfolding consistent_def by blast
  then show ?thesis
    by (auto simp: sgn_if split: if_splits)
qed

lemma mset_insert_by [simp]: "mset (insert_by cmp x xs) = add_mset x (mset xs)"
  by (induction xs) auto

lemma mset_foldr_insert_by: "mset (foldr (insert_by cmp) xs []) = mset xs"
  by (induction xs) auto

lemma length_foldr_insert_by: "length (foldr (insert_by cmp) xs []) = length xs"
  by (metis mset_foldr_insert_by size_mset)

lemma sorted_insert_by:
  assumes "consistent cmp" "sorted_wrt (\<lambda>a b. cmp a b \<le> 0) xs"
  shows "sorted_wrt (\<lambda>a b. cmp a b \<le> 0) (insert_by cmp x xs)"
  using assms(2)
proof (induction xs)
  case Nil
  then show ?case by simp
next
  case (Cons y ys)
  show ?case
  proof (cases "cmp x y \<le> 0")
    case True
    then show ?thesis using Cons assms(1) by (auto simp: consistent_def)
  next
    case False
    then have "cmp y x \<le> 0" using consistent_total [OF assms(1)] by blast
    moreover have "set (insert_by cmp x ys) = insert x (set ys)"
      by (metis mset_insert_by set_mset_add_mset_insert set_mset_mset)
    ultimately show ?thesis using False Cons by auto
  qed
qed

lemma sorted_foldr_insert_by: "consistent cmp \<Longrightarrow> sorted_wrt (\<lambda>a b. cmp a b \<le> 0) (foldr (insert_by cmp) xs [])"
  by (induction xs) (auto intro: sorted_insert_by)

lemma length_qsort [simp, len_simps]: "length (qsort cmp n xs) = length xs"
  by (simp add: qsort_def length_foldr_insert_by)

interpretation qs: c_qsort qsort
  by unfold_locales (simp_all add: qsort_def length_foldr_insert_by mset_foldr_insert_by sorted_foldr_insert_by)

text \<open>The comparison of the code: busier first, and by name, character by character, among equals.\<close>

definition name_codes :: "thread_candidate \<Rightarrow> nat list" where
  "name_codes c = map of_char (cstr (cand_name c))"

definition ranks_before :: "thread_candidate \<Rightarrow> thread_candidate \<Rightarrow> bool" where
  "ranks_before a b \<longleftrightarrow> cand_cpu_pct_x10 a > cand_cpu_pct_x10 b \<or>
     cand_cpu_pct_x10 a = cand_cpu_pct_x10 b \<and> lexordp_eq (name_codes a) (name_codes b)"

lemma strcmp_lexordp: "strcmp a b \<le> 0 \<longleftrightarrow> lexordp_eq (map of_char a) (map of_char b :: nat list)"
  by (induction a b rule: strcmp.induct) auto

lemma compare_ranks: "compare_thread_candidates a b \<le> 0 \<longleftrightarrow> ranks_before a b"
  by (auto simp: compare_thread_candidates_def ranks_before_def name_codes_def strcmp_lexordp)

lemma consistent_compare: "consistent compare_thread_candidates"
  unfolding consistent_def
proof (intro conjI allI impI)
  show "sgn (compare_thread_candidates b a) = - sgn (compare_thread_candidates a b)" for a b
    using strcmp_swap [of "cstr (cand_name a)" "cstr (cand_name b)"] by (auto simp: compare_thread_candidates_def)
  show "compare_thread_candidates a b \<le> 0 \<Longrightarrow> compare_thread_candidates b c \<le> 0 \<Longrightarrow> compare_thread_candidates a c \<le> 0" for a b c
    by (auto simp: compare_thread_candidates_def split: if_splits intro: strcmp_trans)
qed

text \<open>C16: with any \<^verbatim>\<open>qsort\<close> that does what the C standard says, ranking the first \<open>n\<close> thread candidates
  rearranges them so that busier threads come first and equally busy ones are in the order of their
  names; in particular the first \<open>k\<close> of them are at least as busy as all the others.\<close>

theorem qsort_ranks:
  assumes "c_qsort srt" "n \<le> length cs"
  shows "mset (srt compare_thread_candidates n cs) = mset cs \<and>
    drop n (srt compare_thread_candidates n cs) = drop n cs \<and>
    sorted_wrt (\<lambda>a b. cand_cpu_pct_x10 a > cand_cpu_pct_x10 b \<or>
        cand_cpu_pct_x10 a = cand_cpu_pct_x10 b \<and> lexordp_eq (name_codes a) (name_codes b))
      (take n (srt compare_thread_candidates n cs)) \<and>
    (\<forall>a \<in> set (take k (take n (srt compare_thread_candidates n cs))).
      \<forall>b \<in> set (drop k (take n (srt compare_thread_candidates n cs))). cand_cpu_pct_x10 b \<le> cand_cpu_pct_x10 a)"
proof -
  have "ranks_before = (\<lambda>a b. cand_cpu_pct_x10 a > cand_cpu_pct_x10 b \<or>
        cand_cpu_pct_x10 a = cand_cpu_pct_x10 b \<and> lexordp_eq (name_codes a) (name_codes b))"
    by (simp add: fun_eq_iff ranks_before_def)
  moreover have "ranks_before a b \<Longrightarrow> cand_cpu_pct_x10 b \<le> cand_cpu_pct_x10 a" for a b
    by (auto simp: ranks_before_def)
  ultimately show ?thesis
    using c_qsort.permutes [OF assms] c_qsort.keeps_rest [OF assms] c_qsort.orders [OF assms consistent_compare]
      c_qsort.first_before_rest [OF assms consistent_compare]
    by (simp add: compare_ranks)
qed

definition cand_example :: "nat \<Rightarrow> char \<Rightarrow> thread_candidate" where
  "cand_example n c = zero_thread_candidate\<lparr>cand_cpu_pct_x10 := of_nat n, cand_name := c # replicate 15 NUL\<rparr>"

theorem qsort_ranks_witness:
  "mset (qsort compare_thread_candidates 3 [cand_example 3 CHR ''b'', cand_example 9 CHR ''c'', cand_example 3 CHR ''a'']) =
      mset [cand_example 3 CHR ''b'', cand_example 9 CHR ''c'', cand_example 3 CHR ''a''] \<and>
    qsort compare_thread_candidates 3 [cand_example 3 CHR ''b'', cand_example 9 CHR ''c'', cand_example 3 CHR ''a''] =
      [cand_example 9 CHR ''c'', cand_example 3 CHR ''a'', cand_example 3 CHR ''b'']"
proof -
  let ?cs = "[cand_example 3 CHR ''b'', cand_example 9 CHR ''c'', cand_example 3 CHR ''a'']"
  have "mset (qsort compare_thread_candidates 3 ?cs) = mset ?cs"
    using qsort_ranks [OF qs.c_qsort_axioms, of 3 ?cs 1] by simp
  moreover have "compare_thread_candidates (cand_example 3 CHR ''b'') (cand_example 9 CHR ''c'') = 1"
    "compare_thread_candidates (cand_example 9 CHR ''c'') (cand_example 3 CHR ''a'') = - 1"
    "compare_thread_candidates (cand_example 3 CHR ''b'') (cand_example 3 CHR ''a'') = 1"
    by (simp_all add: compare_thread_candidates_def cand_example_def cstr_def)
  then have "qsort compare_thread_candidates 3 ?cs = [cand_example 9 CHR ''c'', cand_example 3 CHR ''a'', cand_example 3 CHR ''b'']"
    by (simp add: qsort_def numeral_eq_Suc)
  ultimately show ?thesis ..
qed

section \<open>Packing into the frame\<close>

lemma thread_emit_le: "thread_emit r n \<le> n"
  by (induction n) auto

lemma thread_emit_fits: "36 \<le> r \<Longrightarrow> 36 + 28 * thread_emit r n \<le> r"
  by (induction n) auto

lemma thread_emit_eq: "36 \<le> r \<Longrightarrow> thread_emit r n = min n ((r - 36) div 28)"
  by (induction n) auto

text \<open>How many top entries of each group are sent when \<open>room\<close> bytes are left: an empty group takes 36 bytes
  with its TLV header, an entry 28, and a group is sent as soon as its 36 bytes fit.\<close>

fun thread_fill :: "nat \<Rightarrow> nat list \<Rightarrow> nat list" where
  "thread_fill room [] = []"
| "thread_fill room (n # ns) =
     (if room < 36 then [] else min n ((room - 36) div 28) # thread_fill (room - 36 - 28 * min n ((room - 36) div 28)) ns)"

lemma length_thread_fill: "length (thread_fill room ns) \<le> length ns"
  by (induction room ns rule: thread_fill.induct) auto

lemma thread_fill_all: "36 * length ns + 28 * sum_list ns \<le> room \<Longrightarrow> thread_fill room ns = ns"
proof (induction room ns rule: thread_fill.induct)
  case (2 room n ns)
  then have "n \<le> (room - 36) div 28" "36 \<le> room"
    by auto
  with 2 show ?case by (simp add: min_absorb1)
qed simp

lemma thread_fill_le: "list_all2 (\<lambda>n k. k \<le> n) (take (length (thread_fill room ns)) ns) (thread_fill room ns)"
  by (induction room ns rule: thread_fill.induct) auto

definition thread_group_inv :: "thread_group_entry \<Rightarrow> bool" where
  "thread_group_inv g \<longleftrightarrow> terminated TF_PROC_NAME_SIZE (tg_name g) \<and> length (tg_state_counts g) = TF_THREAD_STATE_COUNT \<and>
     length (tg_top g) = TF_MAX_THREAD_TOP_N \<and> list_all (\<lambda>e. terminated TF_PROC_NAME_SIZE (te_name e)) (tg_top g) \<and>
     unat (tg_top_count g) \<le> TF_MAX_THREAD_TOP_N"

lemma length_foldl_be_u16: "length (foldl buf_put_be_u16 c vs) = length c + 2 * length vs"
  by (induction vs arbitrary: c) auto

lemma length_thread_payload:
  assumes "thread_group_inv g" "emit \<le> TF_MAX_THREAD_TOP_N"
  shows "length (thread_payload_bytes g flags emit) = 34 + 28 * emit"
proof -
  have "length (thread_top_bytes e) = 28" if "e \<in> set (take emit (tg_top g))" for e
    using that assms(1) by (auto simp: thread_group_inv_def list_all_iff terminated_def thread_top_bytes_def
        Let_def dest: in_set_takeD)
  then have "length (concat (map thread_top_bytes (take emit (tg_top g)))) = 28 * length (take emit (tg_top g))"
    by (rule length_concat_const)
  then show ?thesis
    using assms by (simp add: thread_payload_bytes_def thread_group_inv_def terminated_def Let_def length_foldl_be_u16)
qed

text \<open>What a group becomes when \<open>emit\<close> of its top entries are sent.\<close>

definition thread_tlv :: "thread_group_entry \<Rightarrow> nat \<Rightarrow> tlv" where
  "thread_tlv g emit = (TF_TYPE_THREAD, thread_payload_bytes g
     (if emit < unat (tg_top_count g) then tg_flags g OR TF_THREAD_FLAG_TRUNCATED else tg_flags g) emit)"

lemma zip_take_length: "zip (take (length ys) xs) ys = zip xs ys"
  by (induction xs ys rule: list_induct2') auto

lemma thread_push_step:
  assumes "wf_writer w" "thread_group_inv g" "wlen w + 36 \<le> cap w"
  defines "emit \<equiv> thread_emit (cap w - wlen w) (unat (tg_top_count g))"
  shows "\<exists>w' b. appends_tlvs w w' [thread_tlv g emit] \<and>
    thread_push_loop (g # gs) ctx w = thread_push_loop gs (ctx\<lparr>thread_frame_warned := b\<rparr>) w'"
proof -
  let ?p = "snd (thread_tlv g emit)"
  have emit: "emit \<le> unat (tg_top_count g)" "emit \<le> 7" "36 + 28 * emit \<le> cap w - wlen w"
    using assms(2,3) thread_emit_le [of "cap w - wlen w" "unat (tg_top_count g)"]
      thread_emit_fits [of "cap w - wlen w" "unat (tg_top_count g)"]
    by (simp_all add: emit_def thread_group_inv_def)
  have len: "length ?p = 34 + 28 * emit"
    using assms(2) emit(2) by (simp add: thread_tlv_def length_thread_payload)
  then have n: "unat (of_nat (length ?p) :: u8) = length ?p"
    using emit(2) by (simp only: unat_of_nat_u8) simp
  have room: "unat (of_nat (length ?p) :: u8) \<le> length ?p" "wlen w + 2 + unat (of_nat (length ?p) :: u8) \<le> cap w"
    unfolding n using emit(3) assms(3) len by simp_all
  obtain w' where put: "tlv_put (Some w) TF_TYPE_THREAD (Some ?p) (of_nat (length ?p)) = Some (0, Some w')"
    and app: "appends_tlvs w w' [(TF_TYPE_THREAD, ?p)]"
    using tlv_put_room [OF assms(1) room, of TF_TYPE_THREAD] unfolding n by auto
  have "writer_put w TF_TYPE_THREAD ?p (of_nat (length ?p)) = Some (0, w')"
    using put by (simp add: writer_put_def)
  moreover have "thread_emit (if wlen w < cap w then cap w - wlen w else 0) (unat (tg_top_count g)) = emit"
    using assms(3) by (simp add: emit_def)
  moreover have "\<not> 7 < unat (tg_top_count g)" "length ?p \<le> 255" "\<not> cap w - wlen w < 36"
    using assms(2,3) len emit(2) by (simp_all add: thread_group_inv_def)
  ultimately have "thread_push_loop (g # gs) ctx w = thread_push_loop gs
      (if emit < unat (tg_top_count g) then ctx\<lparr>thread_frame_warned := True\<rparr> else ctx) w'"
    using assms(3) by (auto simp: Let_def thread_tlv_def)
  moreover have "(if emit < unat (tg_top_count g) then ctx\<lparr>thread_frame_warned := True\<rparr> else ctx) =
      ctx\<lparr>thread_frame_warned := (emit < unat (tg_top_count g) \<or> thread_frame_warned ctx)\<rparr>"
    by simp
  moreover have "appends_tlvs w w' [thread_tlv g emit]"
    using app by (simp add: thread_tlv_def)
  ultimately show ?thesis
    by metis
qed

lemma thread_push_loop_whole:
  assumes "wf_writer w" "list_all thread_group_inv gs"
  defines "emits \<equiv> thread_fill (cap w - wlen w) (map (\<lambda>g. unat (tg_top_count g)) gs)"
  shows "\<exists>ctx' w'. thread_push_loop gs ctx w = Some (0, ctx', w') \<and> appends_tlvs w w' (map2 thread_tlv gs emits) \<and>
    (\<exists>b. ctx' = ctx\<lparr>thread_frame_warned := b\<rparr>) \<and> (length emits < length gs \<longrightarrow> cap w' < wlen w' + 36)"
  using assms(1,2) unfolding emits_def
proof (induction gs arbitrary: ctx w)
  case Nil
  have "ctx = ctx\<lparr>thread_frame_warned := thread_frame_warned ctx\<rparr>" by simp
  with Nil show ?case using appends_nothing by fastforce
next
  case (Cons g gs)
  show ?case
  proof (cases "wlen w + 36 \<le> cap w")
    case False
    then have "2 + 34 > (if wlen w < cap w then cap w - wlen w else 0)"
      by auto
    then have "thread_push_loop (g # gs) ctx w = Some (0, ctx\<lparr>thread_frame_warned := True\<rparr>, w)"
      by (simp only: thread_push_loop.simps Let_def if_True)
    with False Cons.prems(1) show ?thesis
      using appends_nothing by (intro exI [of _ w] exI) auto
  next
    case True
    let ?e = "min (unat (tg_top_count g)) ((cap w - wlen w - 36) div 28)"
    have e: "thread_emit (cap w - wlen w) (unat (tg_top_count g)) = ?e"
      using True by (intro thread_emit_eq) simp
    obtain w1 b where 1: "appends_tlvs w w1 [thread_tlv g ?e]"
      "thread_push_loop (g # gs) ctx w = thread_push_loop gs (ctx\<lparr>thread_frame_warned := b\<rparr>) w1"
      using thread_push_step [of w g gs ctx] True Cons.prems unfolding e by auto
    have "length (snd (thread_tlv g ?e)) = 34 + 28 * ?e"
      unfolding thread_tlv_def snd_conv using Cons.prems(2)
      by (intro length_thread_payload) (simp_all add: thread_group_inv_def min.coboundedI1)
    then have w1: "wf_writer w1" "cap w1 - wlen w1 = cap w - wlen w - 36 - 28 * ?e"
      using appends_wlen [OF Cons.prems(1) 1(1)] by (simp_all add: add.assoc)
    let ?fill = "thread_fill (cap w1 - wlen w1) (map (\<lambda>g. unat (tg_top_count g)) gs)"
    obtain ctx' w' b' where 2: "thread_push_loop gs (ctx\<lparr>thread_frame_warned := b\<rparr>) w1 = Some (0, ctx', w')"
      "appends_tlvs w1 w' (map2 thread_tlv gs ?fill)" "ctx' = ctx\<lparr>thread_frame_warned := b, thread_frame_warned := b'\<rparr>"
      "length ?fill < length gs \<longrightarrow> cap w' < wlen w' + 36"
      using Cons.IH [OF w1(1), of "ctx\<lparr>thread_frame_warned := b\<rparr>"] Cons.prems(2) by auto
    have fill: "thread_fill (cap w - wlen w) (map (\<lambda>g. unat (tg_top_count g)) (g # gs)) = ?e # ?fill"
      using True w1(2) by (simp del: One_nat_def)
    have "appends_tlvs w w' (map2 thread_tlv (g # gs) (?e # ?fill))"
      using appends_trans [OF 1(1) 2(2)] by simp
    then show ?thesis
      using 1(2) 2 unfolding fill by auto
  qed
qed

text \<open>C15: \<^verbatim>\<open>thread_push\<close> never fails and never writes past the frame: it appends one whole TLV for each of the
  first groups of the payload, each with as many of the group's top entries as fit into the space that
  is left (36 bytes for a group, 28 for an entry) and marked as truncated when that is not all of them,
  and stops only when less than an empty group fits.\<close>

theorem thread_push_whole:
  assumes "wf_writer w" "length (th_groups (last_thread_payload ctx)) = TF_MAX_PROC_GROUPS"
    "unat (th_group_count (last_thread_payload ctx)) \<le> TF_MAX_PROC_GROUPS"
    "list_all thread_group_inv (th_groups (last_thread_payload ctx))"
  shows "\<exists>ctx' w' ts emits. thread_push ctx w = Some (0, ctx', w') \<and> appends_tlvs w w' ts \<and>
    (\<exists>b. ctx' = ctx\<lparr>thread_frame_warned := b\<rparr>) \<and>
    length emits \<le> unat (th_group_count (last_thread_payload ctx)) \<and>
    ts = map2 thread_tlv (take (length emits) (th_groups (last_thread_payload ctx))) emits \<and>
    list_all2 (\<lambda>g k. k \<le> unat (tg_top_count g)) (take (length emits) (th_groups (last_thread_payload ctx))) emits \<and>
    (length emits < unat (th_group_count (last_thread_payload ctx)) \<longrightarrow> cap w' < wlen w' + 36) \<and>
    emits = thread_fill (cap w - wlen w) (map (\<lambda>g. unat (tg_top_count g))
      (take (unat (th_group_count (last_thread_payload ctx))) (th_groups (last_thread_payload ctx))))"
proof -
  let ?n = "unat (th_group_count (last_thread_payload ctx))" and ?gs = "th_groups (last_thread_payload ctx)"
  let ?ns = "map (\<lambda>g. unat (tg_top_count g)) (take ?n ?gs)"
  let ?emits = "thread_fill (cap w - wlen w) ?ns"
  have "list_all thread_group_inv (take ?n ?gs)"
    using assms(4) by (auto simp: list_all_iff dest: in_set_takeD)
  from thread_push_loop_whole [OF assms(1) this, of ctx] obtain ctx' w' where
    run: "thread_push_loop (take ?n ?gs) ctx w = Some (0, ctx', w')" "appends_tlvs w w' (map2 thread_tlv (take ?n ?gs) ?emits)"
    "\<exists>b. ctx' = ctx\<lparr>thread_frame_warned := b\<rparr>" "length ?emits < length (take ?n ?gs) \<longrightarrow> cap w' < wlen w' + 36"
    by blast
  have len: "length ?emits \<le> ?n" "length (take ?n ?gs) = ?n"
    using length_thread_fill [of "cap w - wlen w" ?ns] assms(2,3) by simp_all
  then have cut: "take (length ?emits) (take ?n ?gs) = take (length ?emits) ?gs"
    by (simp add: min_def)
  have "map2 thread_tlv (take ?n ?gs) ?emits = map2 thread_tlv (take (length ?emits) ?gs) ?emits"
    unfolding cut [symmetric] zip_take_length ..
  moreover have "list_all2 (\<lambda>g k. k \<le> unat (tg_top_count g)) (take (length ?emits) ?gs) ?emits"
    using thread_fill_le [of "cap w - wlen w" ?ns] unfolding cut [symmetric] take_map list.rel_map by simp
  ultimately show ?thesis
    using run len assms(2,3)
    by (intro exI [of _ ctx'] exI [of _ w'] exI [of _ "map2 thread_tlv (take ?n ?gs) ?emits"] exI [of _ ?emits])
      (simp add: thread_push_def)
qed

theorem thread_push_whole_witness:
  "\<exists>ctx' w'. thread_push (zero_proc_ctx\<lparr>last_thread_payload :=
        zero_thread_payload\<lparr>th_group_count := 2, th_groups := replicate 8 (zero_thread_group\<lparr>tg_top_count := 2\<rparr>)\<rparr>\<rparr>)
      (writer_of_size 70) = Some (0, ctx', w') \<and>
    appends_tlvs (writer_of_size 70) w' [thread_tlv (zero_thread_group\<lparr>tg_top_count := 2\<rparr>) 1]"
proof -
  let ?g = "zero_thread_group\<lparr>tg_top_count := 2\<rparr>"
  let ?ctx = "zero_proc_ctx\<lparr>last_thread_payload := zero_thread_payload\<lparr>th_group_count := 2, th_groups := replicate 8 ?g\<rparr>\<rparr>"
  have inv: "list_all thread_group_inv (th_groups (last_thread_payload ?ctx))"
    by (simp add: zero_thread_payload_def zero_thread_group_def thread_group_inv_def zero_thread_top_def list_all_iff)
  have len: "length (th_groups (last_thread_payload ?ctx)) = 8" and two: "unat (th_group_count (last_thread_payload ?ctx)) = 2"
    by (simp_all add: zero_thread_payload_def)
  then have n: "unat (th_group_count (last_thread_payload ?ctx)) \<le> 8"
    by simp
  have gs: "th_groups (last_thread_payload ?ctx) = replicate 8 ?g"
    by simp
  have two_gs: "take 2 (replicate 8 ?g) = [?g, ?g]" and one_g: "take 1 (replicate 8 ?g) = [?g]"
    by (simp_all add: numeral_eq_Suc)
  have fill: "thread_fill (70 - 0) (map (\<lambda>g. unat (tg_top_count g)) [?g, ?g]) = [1]"
    by simp
  from thread_push_whole [OF writer_of_size(1) [of 70] len n inv] obtain ctx' w' ts emits where
    run: "thread_push ?ctx (writer_of_size 70) = Some (0, ctx', w')" "appends_tlvs (writer_of_size 70) w' ts"
    and ts: "ts = map2 thread_tlv (take (length emits) (replicate 8 ?g)) emits" and emits: "emits = [1]"
    unfolding two gs two_gs writer_of_size fill by blast
  have "ts = [thread_tlv ?g 1]"
    unfolding ts emits by (simp add: one_g [simplified])
  with run show ?thesis by blast
qed

section \<open>Collecting a group\<close>

text \<open>As long as nothing was cut off, the counts by state add up to the number of threads.\<close>

definition thread_out_inv :: "thread_group_entry \<Rightarrow> bool" where
  "thread_out_inv out \<longleftrightarrow> thread_group_inv out \<and>
     (tg_flags out AND TF_THREAD_FLAG_TRUNCATED = 0 \<longrightarrow>
        sum_list (map unat (tg_state_counts out)) = unat (tg_total_threads out))"

text \<open>Before the ranking there are no top entries.\<close>

definition thread_stage_inv :: "thread_group_entry \<Rightarrow> bool" where
  "thread_stage_inv out \<longleftrightarrow> thread_out_inv out \<and> tg_top_count out = 0"

definition thread_ctx_inv :: "proc_ctx \<Rightarrow> bool" where
  "thread_ctx_inv ctx \<longleftrightarrow> length (thread_history ctx) = TF_THREAD_TRACK \<and>
     length (thread_candidates ctx) = TF_THREAD_CANDIDATES \<and>
     list_all (\<lambda>c. terminated TF_PROC_NAME_SIZE (cand_name c)) (thread_candidates ctx)"

text \<open>What a thread collection may change of the context.\<close>

definition thread_frame :: "proc_ctx \<Rightarrow> proc_ctx \<Rightarrow> bool" where
  "thread_frame ctx ctx' \<longleftrightarrow> ctx' = ctx\<lparr>thread_history := thread_history ctx',
     thread_candidates := thread_candidates ctx', cpu_count := cpu_count ctx'\<rparr>"

lemma thread_frame_refl [simp]: "thread_frame ctx ctx"
  by (simp add: thread_frame_def)

lemma thread_frame_trans [trans]: "thread_frame a b \<Longrightarrow> thread_frame b c \<Longrightarrow> thread_frame a c"
  unfolding thread_frame_def by (metis (no_types, lifting) proc_ctx.surjective proc_ctx.update_convs(2,3,7))

lemma truncated_flag: "(f OR 2) AND 2 \<noteq> (0 :: u8)"
proof
  assume "(f OR 2) AND 2 = 0"
  then have "bit ((f OR 2) AND 2) 1 = bit (0 :: u8) 1" by simp
  then show False by (simp add: bit_and_iff bit_or_iff)
qed

lemma thread_state_index_lt [simp]: "thread_state_index s < 7"
  by (simp add: thread_state_index_def)

lemma truncate_flag_inv: "thread_stage_inv out \<Longrightarrow> thread_stage_inv (truncate_flag out)"
  by (simp add: thread_stage_inv_def thread_out_inv_def truncate_flag_def thread_group_inv_def truncated_flag)

lemma count_thread_inv:
  assumes "thread_stage_inv out"
  shows "\<exists>out'. count_thread task out = Some out' \<and> thread_stage_inv out'"
proof -
  let ?i = "thread_state_index (ts_state task)"
  let ?v = "tg_state_counts out ! ?i"
  have i: "?i < length (tg_state_counts out)"
    using assms by (simp add: thread_stage_inv_def thread_out_inv_def thread_group_inv_def)
  have inc: "unat (v + 1) = unat v + 1" if "v < 65535" for v :: u16
    using that by (simp add: word_less_nat_alt unat_word_ariths)
  have up: "sum_list (map unat ((tg_state_counts out)[?i := ?v + 1])) = sum_list (map unat (tg_state_counts out)) + 1"
    if "?v < 65535"
    using i inc [OF that] elem_le_sum_list [of ?i "map unat (tg_state_counts out)"]
    by (simp add: map_update sum_list_update)
  show ?thesis
    using assms i up inc
    by (auto simp: count_thread_def increment_u16_def Let_def thread_stage_inv_def thread_out_inv_def thread_group_inv_def truncated_flag)
qed

lemma add_thread_candidate_inv:
  assumes "thread_ctx_inv ctx" "cnt \<le> TF_THREAD_CANDIDATES"
  shows "\<exists>rc cnt' ctx'. add_thread_candidate ctx cnt task pid pct = Some (rc, cnt', ctx') \<and>
    thread_ctx_inv ctx' \<and> cnt' \<le> TF_THREAD_CANDIDATES \<and> thread_frame ctx ctx'"
proof (cases "find_idx (same_candidate ctx task pid) (take cnt (thread_candidates ctx))")
  case (Some i)
  then have i: "i < length (thread_candidates ctx)"
    by (simp add: find_idx_Some)
  then have "terminated 16 (cand_name (thread_candidates ctx ! i))"
    using assms(1) by (simp add: thread_ctx_inv_def list_all_length)
  with i Some assms show ?thesis
    by (auto simp: add_thread_candidate_def Let_def thread_ctx_inv_def thread_frame_def intro!: list_all_update)
next
  case None
  have "terminated 16 (strncpy (replicate 16 NUL) (ts_comm task) 15)"
    using terminated_strncpy [of 15 "replicate 16 NUL"] by simp
  with None assms show ?thesis
    by (auto simp: add_thread_candidate_def Let_def thread_ctx_inv_def thread_frame_def zero_thread_candidate_def
        intro!: list_all_update)
qed

lemma thread_share_inv:
  assumes "thread_ctx_inv ctx" "thread_stage_inv out"
  shows "\<exists>pct ctx' out'. thread_share os pid tid task ctx out = Some (pct, ctx', out') \<and>
    thread_ctx_inv ctx' \<and> thread_stage_inv out' \<and> thread_frame ctx ctx'"
proof -
  obtain r hist where f: "find_thread_slot (thread_history ctx) pid tid (ts_starttime task) = (r, hist)"
    by (cases "find_thread_slot (thread_history ctx) pid tid (ts_starttime task)")
  have len: "length hist = 1024" and i: "r = Some i \<Longrightarrow> i < 1024" for i
    using find_thread_slot_bounds [OF _ f] assms(1) by (simp_all add: thread_ctx_inv_def)
  have cpus: "thread_frame c (snd (get_cpu_count os c)) \<and> thread_history (snd (get_cpu_count os c)) = thread_history c \<and>
      thread_candidates (snd (get_cpu_count os c)) = thread_candidates c" for c
    by (simp add: get_cpu_count_def thread_frame_def Let_def)
  have set: "thread_frame ctx (ctx\<lparr>thread_history := h\<rparr>)" for h
    by (simp add: thread_frame_def)
  show ?thesis
  proof (cases r)
    case None
    have "thread_stage_inv (truncate_flag out)"
      using assms(2) by (rule truncate_flag_inv)
    with None f len assms(1) set show ?thesis
      by (simp add: thread_share_def thread_ctx_inv_def)
  next
    case (Some k)
    let ?h = "hist[k := (hist ! k)\<lparr>tp_ticks := ts_ticks task, tp_generation := thread_generation ctx\<rparr>]"
    let ?c = "ctx\<lparr>thread_history := ?h\<rparr>"
    have "thread_ctx_inv ?c" "thread_ctx_inv (snd (get_cpu_count os ?c))" "thread_frame ctx (snd (get_cpu_count os ?c))"
      using assms(1) len cpus [of ?c] thread_frame_trans [OF set] by (auto simp: thread_ctx_inv_def)
    with Some f i len assms(2) set [of ?h] show ?thesis
      by (simp add: thread_share_def case_prod_beta Let_def)
  qed
qed

lemma thread_sample_inv:
  assumes "thread_ctx_inv ctx" "thread_stage_inv out" "cnt \<le> TF_THREAD_CANDIDATES"
  shows "\<exists>ctx' out' cnt'. thread_sample os pid tid task ctx out cnt = Some (ctx', out', cnt') \<and>
    thread_ctx_inv ctx' \<and> thread_stage_inv out' \<and> cnt' \<le> TF_THREAD_CANDIDATES \<and> thread_frame ctx ctx'"
proof -
  obtain pct ctx1 out1 where 1: "thread_share os pid tid task ctx out = Some (pct, ctx1, out1)"
    "thread_ctx_inv ctx1" "thread_stage_inv out1" "thread_frame ctx ctx1"
    using thread_share_inv [OF assms(1,2)] by blast
  obtain rc cnt2 ctx2 where 2: "add_thread_candidate ctx1 cnt task pid pct = Some (rc, cnt2, ctx2)"
    "thread_ctx_inv ctx2" "cnt2 \<le> 512" "thread_frame ctx1 ctx2"
    using add_thread_candidate_inv [OF 1(2) assms(3)] by blast
  have "thread_stage_inv (truncate_flag out1)"
    using 1(3) by (rule truncate_flag_inv)
  with 1 2 thread_frame_trans [OF 1(4) 2(4)] show ?thesis
    by (simp add: thread_sample_def)
qed

lemma thread_dir_inv:
  assumes "thread_ctx_inv ctx" "thread_stage_inv out" "cnt \<le> TF_THREAD_CANDIDATES"
  shows "\<exists>ctx' out' cnt'. thread_dir os pid names scanned ctx out cnt = Some (ctx', out', cnt') \<and>
    thread_ctx_inv ctx' \<and> thread_stage_inv out' \<and> cnt' \<le> TF_THREAD_CANDIDATES \<and> thread_frame ctx ctx'"
  using assms
proof (induction names arbitrary: scanned ctx out cnt)
  case Nil
  then show ?case by simp
next
  case (Cons d ds)
  obtain tid err rest where st: "strtol d = (tid, err, rest)" by (cases "strtol d")
  let ?path = "''/proc/'' @ show_ld pid @ ''/task/'' @ show_ld tid @ ''/stat''"
  consider (skip) "\<not> digit_name d \<or> scanned < 512 \<and> (err \<or> tid \<le> 0 \<or> rest \<noteq> [] \<or>
      parse_task_stat os (Some ?path) = None \<or> ts_id (the (parse_task_stat os (Some ?path))) \<noteq> tid)"
    | (limit) "digit_name d" "512 \<le> scanned"
    | (task) task where "digit_name d" "scanned < 512" "\<not> err" "0 < tid" "rest = []"
      "parse_task_stat os (Some ?path) = Some task" "ts_id task = tid"
    by force
  then show ?case
  proof cases
    case skip
    then have "thread_dir os pid (d # ds) scanned ctx out cnt = thread_dir os pid ds scanned ctx out cnt"
      using st by (auto split: option.split)
    then show ?thesis using Cons by presburger
  next
    case limit
    have "thread_stage_inv (truncate_flag out)"
      using Cons.prems(2) by (rule truncate_flag_inv)
    then show ?thesis using limit Cons.prems by simp
  next
    case task
    obtain out1 where 1: "count_thread task out = Some out1" "thread_stage_inv out1"
      using count_thread_inv [OF Cons.prems(2)] by blast
    obtain ctx2 out2 cnt2 where 2: "thread_sample os pid tid task ctx out1 cnt = Some (ctx2, out2, cnt2)"
      "thread_ctx_inv ctx2" "thread_stage_inv out2" "cnt2 \<le> 512" "thread_frame ctx ctx2"
      using thread_sample_inv [OF Cons.prems(1) 1(2) Cons.prems(3)] by blast
    show ?thesis
    proof (cases "ctx_thread_mode ctx = TF_THREAD_MODE_TOP")
      case True
      then have "thread_dir os pid (d # ds) scanned ctx out cnt = thread_dir os pid ds (scanned + 1) ctx2 out2 cnt2"
        using task st 1(1) 2(1) by simp
      then show ?thesis
        using Cons.IH [OF 2(2-4), of "scanned + 1"] thread_frame_trans [OF 2(5)] by auto
    next
      case False
      then have "thread_dir os pid (d # ds) scanned ctx out cnt = thread_dir os pid ds (scanned + 1) ctx out1 cnt"
        using task st 1(1) by simp
      then show ?thesis
        using Cons.IH [OF Cons.prems(1) 1(2) Cons.prems(3), of "scanned + 1"] by auto
    qed
  qed
qed

lemma thread_pids_inv:
  assumes "thread_ctx_inv ctx" "thread_stage_inv out" "cnt \<le> TF_THREAD_CANDIDATES"
  shows "\<exists>ctx' out' cnt'. thread_pids os ps ctx out cnt = Some (ctx', out', cnt') \<and>
    thread_ctx_inv ctx' \<and> thread_stage_inv out' \<and> cnt' \<le> TF_THREAD_CANDIDATES \<and> thread_frame ctx ctx'"
  using assms
proof (induction ps arbitrary: ctx out cnt)
  case Nil
  then show ?case by simp
next
  case (Cons pid ps)
  show ?case
  proof (cases "os_dir os (''/proc/'' @ show_ld pid @ ''/task'')")
    case None
    then show ?thesis using Cons by simp
  next
    case (Some names)
    obtain ctx1 out1 cnt1 where 1: "thread_dir os pid names 0 ctx out cnt = Some (ctx1, out1, cnt1)"
      "thread_ctx_inv ctx1" "thread_stage_inv out1" "cnt1 \<le> 512" "thread_frame ctx ctx1"
      using thread_dir_inv [OF Cons.prems] by blast
    then show ?thesis
      using Some Cons.IH [OF 1(2-4)] thread_frame_trans [OF 1(5)] by auto
  qed
qed

lemma set_qsort: "set (qsort cmp n xs) = set xs"
proof -
  have "set (foldr (insert_by cmp) ys []) = set ys" for ys
    by (metis mset_foldr_insert_by set_mset_mset)
  then show ?thesis
    by (simp add: qsort_def) (metis append_take_drop_id set_append)
qed

lemma copy_thread_candidate_name: "terminated TF_PROC_NAME_SIZE (te_name (copy_thread_candidate c))"
  using terminated_strncpy [of 15 "replicate 16 NUL"] by (simp add: copy_thread_candidate_def zero_thread_top_def Let_def)

lemma collect_thread_group_inv:
  assumes "thread_ctx_inv ctx"
  shows "\<exists>out ctx'. collect_thread_group os ctx g = Some (out, ctx') \<and> thread_ctx_inv ctx' \<and> thread_frame ctx ctx' \<and>
    thread_out_inv out \<and> unat (tg_top_count out) \<le> unat (ctx_thread_top_n ctx)"
proof -
  let ?o = "zero_thread_group\<lparr>tg_name := strncpy (replicate 16 NUL) (wg_name g) 15\<rparr>"
  let ?out = "if ctx_thread_include_tid ctx \<noteq> 0 then ?o\<lparr>tg_flags := tg_flags ?o OR TF_THREAD_FLAG_INCLUDE_TID\<rparr> else ?o"
  let ?ctx = "ctx\<lparr>thread_candidates := replicate TF_THREAD_CANDIDATES zero_thread_candidate\<rparr>"
  have "terminated 16 (strncpy (replicate 16 NUL) (wg_name g) 15)"
    using terminated_strncpy [of 15 "replicate 16 NUL"] by simp
  then have out: "thread_stage_inv ?out"
    by (simp add: thread_stage_inv_def thread_out_inv_def thread_group_inv_def zero_thread_group_def zero_thread_top_def list_all_iff)
  have ctx: "thread_ctx_inv ?ctx" "thread_frame ctx ?ctx"
    using assms by (simp_all add: thread_ctx_inv_def zero_thread_candidate_def list_all_iff thread_frame_def)
  obtain ctx1 out1 cnt1 where 1: "thread_pids os (group_pids g) ?ctx ?out 0 = Some (ctx1, out1, cnt1)"
    "thread_ctx_inv ctx1" "thread_stage_inv out1" "cnt1 \<le> 512" "thread_frame ctx ctx1"
    using thread_pids_inv [OF ctx(1) out, of 0] thread_frame_trans [OF ctx(2)] by blast
  have n: "ctx_thread_top_n ctx1 = ctx_thread_top_n ctx"
    using 1(5) unfolding thread_frame_def by (metis (no_types, lifting) proc_ctx.ext_inject proc_ctx.surjective
        proc_ctx.update_convs(2,3,7))
  let ?cs = "qsort compare_thread_candidates cnt1 (thread_candidates ctx1)"
  let ?k = "min (min cnt1 (unat (ctx_thread_top_n ctx))) 7"
  let ?r = "out1\<lparr>tg_top_count := of_nat ?k, tg_top := map copy_thread_candidate (take ?k ?cs) @ drop ?k (tg_top out1)\<rparr>"
  have run: "collect_thread_group os ctx g = (if ctx_thread_mode ctx1 \<noteq> TF_THREAD_MODE_TOP \<or> cnt1 = 0 then Some (out1, ctx1)
      else Some (?r, ctx1\<lparr>thread_candidates := ?cs\<rparr>))"
  proof -
    have sel: "ctx_thread_top_n (ctx1\<lparr>thread_candidates := c\<rparr>) = ctx_thread_top_n ctx"
      "thread_candidates (ctx1\<lparr>thread_candidates := c\<rparr>) = c" for c
      by (simp_all add: n)
    have name: "tg_name zero_thread_group = replicate 16 NUL" and size: "(16 :: nat) - 1 = 15"
      by (simp_all add: zero_thread_group_def)
    have "(if 7 < (if unat (ctx_thread_top_n ctx) < cnt1 then unat (ctx_thread_top_n ctx) else cnt1) then 7
        else if unat (ctx_thread_top_n ctx) < cnt1 then unat (ctx_thread_top_n ctx) else cnt1) = ?k"
      by auto
    then show ?thesis
      unfolding collect_thread_group_def Let_def name size 1(1) bind.bind_lunit prod.case
      by (simp only: sel)
  qed
  have k: "unat (of_nat ?k :: u8) = ?k"
    by (simp only: unat_of_nat_u8) simp
  have "thread_ctx_inv (ctx1\<lparr>thread_candidates := ?cs\<rparr>)" "thread_frame ctx (ctx1\<lparr>thread_candidates := ?cs\<rparr>)"
    using 1(2) thread_frame_trans [OF 1(5), of "ctx1\<lparr>thread_candidates := ?cs\<rparr>"]
    by (simp_all add: thread_ctx_inv_def list_all_iff set_qsort thread_frame_def)
  moreover have "thread_out_inv ?r \<and> unat (tg_top_count ?r) \<le> unat (ctx_thread_top_n ctx)"
  proof -
    have "list_all (\<lambda>e. terminated 16 (te_name e)) (map copy_thread_candidate (take ?k ?cs) @ drop ?k (tg_top out1))"
      using 1(3) copy_thread_candidate_name
      by (auto simp: thread_stage_inv_def thread_out_inv_def thread_group_inv_def list_all_iff dest: in_set_dropD)
    moreover have "length (take ?k ?cs) = ?k"
      using 1(2,4) by (simp add: thread_ctx_inv_def)
    moreover have "?k \<le> unat (ctx_thread_top_n ctx)"
      by simp
    ultimately show ?thesis
      using 1(3) k by (simp add: thread_stage_inv_def thread_out_inv_def thread_group_inv_def)
  qed
  moreover have "thread_out_inv out1 \<and> unat (tg_top_count out1) \<le> unat (ctx_thread_top_n ctx)"
    using 1(3) by (simp add: thread_stage_inv_def)
  ultimately show ?thesis
    using run 1(2,5) by (cases "ctx_thread_mode ctx1 \<noteq> TF_THREAD_MODE_TOP \<or> cnt1 = 0") auto
qed

subsection \<open>The counts\<close>

text \<open>The threads of a process that are counted: the entries of its \<^verbatim>\<open>task\<close> directory whose name is a
  positive number and whose \<^verbatim>\<open>stat\<close> file can be read and is of that thread, the first 512 of them.\<close>

definition dir_task :: "os \<Rightarrow> int \<Rightarrow> string \<Rightarrow> task_stat option" where
  "dir_task os pid d =
     (let (tid, err, rest) = strtol d
      in if \<not> digit_name d \<or> err \<or> tid \<le> 0 \<or> rest \<noteq> [] then None
         else (case parse_task_stat os (Some (''/proc/'' @ show_ld pid @ ''/task/'' @ show_ld tid @ ''/stat'')) of
             None \<Rightarrow> None
           | Some task \<Rightarrow> if ts_id task = tid then Some task else None))"

definition dir_tasks :: "os \<Rightarrow> int \<Rightarrow> task_stat list" where
  "dir_tasks os pid = (case os_dir os (''/proc/'' @ show_ld pid @ ''/task'') of
       None \<Rightarrow> []
     | Some names \<Rightarrow> take TF_THREAD_SCAN_LIMIT_PER_PID (List.map_filter (dir_task os pid) names))"

definition group_tasks :: "os \<Rightarrow> watch_group \<Rightarrow> task_stat list" where
  "group_tasks os g = concat (map (dir_tasks os) (group_pids g))"

text \<open>The counters of a group after the threads \<open>ts\<close>: all of them and those of each state, up to the largest
  value of a counter.\<close>

definition tally :: "thread_group_entry \<Rightarrow> task_stat list \<Rightarrow> bool" where
  "tally out ts \<longleftrightarrow> unat (tg_total_threads out) = min UINT16_MAX (length ts) \<and>
     length (tg_state_counts out) = TF_THREAD_STATE_COUNT \<and>
     (\<forall>i < TF_THREAD_STATE_COUNT. unat (tg_state_counts out ! i) =
        min UINT16_MAX (length (filter (\<lambda>t. thread_state_index (ts_state t) = i) ts)))"

lemma tally_truncate [simp]: "tally (truncate_flag out) ts = tally out ts"
  by (simp add: tally_def truncate_flag_def)

lemma unat_increment_u16: "unat (fst (increment_u16 v flags)) = min UINT16_MAX (unat v + 1)"
proof -
  have "unat v < 65536" by (rule order_less_le_trans [OF unsigned_less]) simp
  then have "unat v < 65535 \<or> unat v = 65535" by linarith
  then show ?thesis
    by (auto simp: increment_u16_def word_less_nat_alt unat_word_ariths)
qed

lemma tally_count_thread:
  assumes "tally out ts" "count_thread task out = Some out'"
  shows "tally out' (ts @ [task])"
proof -
  let ?i = "thread_state_index (ts_state task)"
  let ?v = "tg_state_counts out ! ?i"
  have i: "?i < length (tg_state_counts out)"
    using assms(1) by (simp add: tally_def)
  with assms(2) obtain flags flags' where total: "tg_total_threads out' = fst (increment_u16 (tg_total_threads out) flags)"
    and counts: "tg_state_counts out' = (tg_state_counts out)[?i := fst (increment_u16 ?v flags')]"
    by (auto simp: count_thread_def Let_def case_prod_beta)
  show ?thesis
    unfolding tally_def total counts unat_increment_u16
    using assms(1) i by (auto simp: tally_def nth_list_update unat_increment_u16)
qed

lemma tally_thread_sample:
  assumes "thread_sample os pid tid task ctx out cnt = Some (ctx', out', cnt')"
  shows "tally out' ts = tally out ts"
proof -
  have "tally out1 ts = tally out ts" if "thread_share os pid tid task ctx out = Some (pct, ctx1, out1)" for pct ctx1 out1
    using that by (auto simp: thread_share_def Let_def case_prod_beta split: prod.splits option.splits bind_splits if_splits)
  then show ?thesis
    using assms by (auto simp: thread_sample_def split: bind_splits if_splits)
qed

lemma tally_thread_dir:
  assumes "thread_dir os pid names scanned ctx out cnt = Some (ctx', out', cnt')" "tally out ts" "scanned \<le> 512"
  shows "tally out' (ts @ take (512 - scanned) (List.map_filter (dir_task os pid) names))"
  using assms
proof (induction names arbitrary: scanned ctx out cnt ts)
  case Nil
  then show ?case by (simp add: map_filter_simps)
next
  case (Cons d ds)
  obtain tid err rest where st: "strtol d = (tid, err, rest)" by (cases "strtol d")
  show ?case
  proof (cases "dir_task os pid d")
    case None
    then have "thread_dir os pid ds scanned ctx out cnt = Some (ctx', out', cnt') \<or> scanned = 512 \<and> out' = truncate_flag out"
      using st Cons.prems(1,3) by (auto simp: dir_task_def split: option.splits if_splits)
    then show ?thesis
      using Cons.IH [OF _ Cons.prems(2,3)] Cons.prems(2) None by (auto simp: map_filter_simps)
  next
    case (Some task)
    then have task: "digit_name d" "\<not> err" "0 < tid" "rest = []" "ts_id task = tid"
      "parse_task_stat os (Some (''/proc/'' @ show_ld pid @ ''/task/'' @ show_ld tid @ ''/stat'')) = Some task"
      using st by (auto simp: dir_task_def split: option.splits if_splits)
    show ?thesis
    proof (cases "scanned = 512")
      case True
      then show ?thesis using Cons.prems(1,2) task(1) by auto
    next
      case False
      then have less: "scanned < 512" using Cons.prems(3) by simp
      obtain out1 where 1: "count_thread task out = Some out1"
        using Cons.prems(1) st task less by (auto split: bind_splits)
      obtain ctx2 out2 cnt2 where 2: "thread_dir os pid ds (scanned + 1) ctx2 out2 cnt2 = Some (ctx', out', cnt')"
        and same: "out2 = out1 \<or> thread_sample os pid tid task ctx out1 cnt = Some (ctx2, out2, cnt2)"
        using Cons.prems(1) st task less 1 by (auto split: bind_splits if_splits)
      have "tally out2 (ts @ [task])"
        using tally_count_thread [OF Cons.prems(2) 1] same tally_thread_sample by blast
      moreover have "512 - scanned = Suc (512 - (scanned + 1))"
        using less by simp
      ultimately show ?thesis
        using Cons.IH [OF 2, of "ts @ [task]"] less Some by (simp add: map_filter_simps)
    qed
  qed
qed

lemma tally_thread_pids:
  assumes "thread_pids os ps ctx out cnt = Some (ctx', out', cnt')" "tally out ts"
  shows "tally out' (ts @ concat (map (dir_tasks os) ps))"
  using assms
proof (induction ps arbitrary: ctx out cnt ts)
  case Nil
  then show ?case by simp
next
  case (Cons pid ps)
  show ?case
  proof (cases "os_dir os (''/proc/'' @ show_ld pid @ ''/task'')")
    case None
    then show ?thesis using Cons by (simp add: dir_tasks_def)
  next
    case (Some names)
    then obtain ctx1 out1 cnt1 where 1: "thread_dir os pid names 0 ctx out cnt = Some (ctx1, out1, cnt1)"
      "thread_pids os ps ctx1 out1 cnt1 = Some (ctx', out', cnt')"
      using Cons.prems(1) by (auto split: bind_splits)
    then show ?thesis
      using Cons.IH [OF 1(2) tally_thread_dir [OF 1(1) Cons.prems(2)]] Some by (simp add: dir_tasks_def)
  qed
qed

lemma tally_collect_thread_group:
  assumes "collect_thread_group os ctx g = Some (out, ctx')"
  shows "tally out (group_tasks os g)"
proof -
  define ctx0 where "ctx0 = ctx\<lparr>thread_candidates := replicate TF_THREAD_CANDIDATES zero_thread_candidate\<rparr>"
  define out0 where "out0 = (let o1 = zero_thread_group\<lparr>tg_name := strncpy (tg_name zero_thread_group) (wg_name g) (TF_PROC_NAME_SIZE - 1)\<rparr>
    in if ctx_thread_include_tid ctx \<noteq> 0 then o1\<lparr>tg_flags := tg_flags o1 OR TF_THREAD_FLAG_INCLUDE_TID\<rparr> else o1)"
  have zero: "tally out0 []"
    by (simp add: out0_def tally_def zero_thread_group_def Let_def)
  have run: "do { (ctx, out, cnt) \<leftarrow> thread_pids os (group_pids g) ctx0 out0 0;
      if ctx_thread_mode ctx \<noteq> TF_THREAD_MODE_TOP \<or> cnt = 0 then Some (out, ctx)
      else do {
        let ctx = ctx\<lparr>thread_candidates := qsort compare_thread_candidates cnt (thread_candidates ctx)\<rparr>;
        let top_count = cnt;
        let top_count = (if top_count > unat (ctx_thread_top_n ctx) then unat (ctx_thread_top_n ctx) else top_count);
        let top_count = (if top_count > TF_MAX_THREAD_TOP_N then TF_MAX_THREAD_TOP_N else top_count);
        let out = out\<lparr>tg_top_count := of_nat top_count,
          tg_top := map copy_thread_candidate (take top_count (thread_candidates ctx)) @ drop top_count (tg_top out)\<rparr>;
        Some (out, ctx) } } = Some (out, ctx')"
    using assms unfolding collect_thread_group_def ctx0_def out0_def Let_def .
  then obtain ctx1 out1 cnt1 where 1: "thread_pids os (group_pids g) ctx0 out0 0 = Some (ctx1, out1, cnt1)"
    by (auto split: bind_splits)
  with run have "tg_total_threads out = tg_total_threads out1" "tg_state_counts out = tg_state_counts out1"
    by (auto simp: Let_def split: if_splits)
  then show ?thesis
    using tally_thread_pids [OF 1 zero] by (simp add: tally_def group_tasks_def)
qed

text \<open>The classes of states the protocol reports.\<close>

definition state_classes :: "char set list" where
  "state_classes = [{CHR ''R''}, {CHR ''S''}, {CHR ''D''}, {CHR ''T'', CHR ''t''}, {CHR ''Z''}, {CHR ''I''}, - set ''RSDTtZI'']"

lemma state_class: "i < 7 \<Longrightarrow> s \<in> state_classes ! i \<longleftrightarrow> thread_state_index s = i"
proof -
  assume "i < 7"
  then consider "i = 0" | "i = 1" | "i = 2" | "i = 3" | "i = 4" | "i = 5" | "i = 6" by linarith
  then show ?thesis
    by cases (auto simp: state_classes_def thread_state_index_def)
qed

lemma sum_classes: "(\<Sum>i < (n :: nat). length (filter (\<lambda>t. f t = i) ts)) = length (filter (\<lambda>t. f t < n) ts)"
proof (induction n)
  case (Suc n)
  have "length (filter (\<lambda>t. f t < Suc n) ts) = length (filter (\<lambda>t. f t < n) ts) + length (filter (\<lambda>t. f t = n) ts)"
    by (induction ts) auto
  with Suc show ?case by simp
qed simp

lemma length_group_tasks: "length (group_pids g) \<le> 64 \<Longrightarrow> length (group_tasks os g) \<le> 32768"
proof -
  have "length (dir_tasks os pid) \<le> 512" for pid
    by (simp add: dir_tasks_def split: option.split)
  then have "length (concat (map (dir_tasks os) ps)) \<le> 512 * length ps" for ps
    by (induction ps) (auto intro: add_mono)
  from this [of "group_pids g"] show "length (group_pids g) \<le> 64 \<Longrightarrow> length (group_tasks os g) \<le> 32768"
    unfolding group_tasks_def by linarith
qed

lemma tally_exact:
  assumes "tally out ts" "length ts \<le> UINT16_MAX"
  shows "unat (tg_total_threads out) = length ts"
    "map unat (tg_state_counts out) = map (\<lambda>states. length (filter (\<lambda>t. ts_state t \<in> states) ts)) state_classes"
    "sum_list (map unat (tg_state_counts out)) = length ts"
proof -
  have len: "length (tg_state_counts out) = 7" "length state_classes = 7"
    using assms(1) by (simp_all add: tally_def state_classes_def)
  have fit: "length (filter P ts) \<le> 65535" for P
    using assms(2) length_filter_le [of P ts] by linarith
  show "unat (tg_total_threads out) = length ts"
    using assms by (simp add: tally_def)
  show counts: "map unat (tg_state_counts out) = map (\<lambda>states. length (filter (\<lambda>t. ts_state t \<in> states) ts)) state_classes"
    using assms(1) len fit by (intro nth_equalityI) (auto simp: tally_def state_class min_absorb2)
  have "sum_list (map unat (tg_state_counts out)) = (\<Sum>i < 7. length (filter (\<lambda>t. thread_state_index (ts_state t) = i) ts))"
    using assms(1) len fit by (simp add: sum_list_sum_nth atLeast0LessThan tally_def min_absorb2)
  then show "sum_list (map unat (tg_state_counts out)) = length ts"
    unfolding sum_classes by (simp add: filter_id_conv)
qed

text \<open>C31: collecting a group of at most 64 processes is always defined and keeps the tables. The number of
  threads it reports is the number of readable threads in the \<^verbatim>\<open>task\<close> directories of its processes, at
  most 512 of each; the seven counts are the numbers of those threads in state R, S, D, T or t, Z, I and
  any other, and add up to the total (no counter can saturate); and it lists at most the configured
  number of busiest threads.\<close>

theorem collect_thread_group_counts:
  assumes "thread_ctx_inv ctx" "length (group_pids g) \<le> TF_PROC_TRACK"
  shows "\<exists>out ctx'. collect_thread_group os ctx g = Some (out, ctx') \<and> thread_ctx_inv ctx' \<and> thread_frame ctx ctx' \<and>
    unat (tg_total_threads out) = length (group_tasks os g) \<and>
    map unat (tg_state_counts out) = map (\<lambda>states. length (filter (\<lambda>t. ts_state t \<in> states) (group_tasks os g)))
      [{CHR ''R''}, {CHR ''S''}, {CHR ''D''}, {CHR ''T'', CHR ''t''}, {CHR ''Z''}, {CHR ''I''}, - set ''RSDTtZI''] \<and>
    sum_list (map unat (tg_state_counts out)) = unat (tg_total_threads out) \<and>
    unat (tg_top_count out) \<le> min TF_MAX_THREAD_TOP_N (unat (ctx_thread_top_n ctx))"
proof -
  obtain out ctx' where run: "collect_thread_group os ctx g = Some (out, ctx')" "thread_ctx_inv ctx'" "thread_frame ctx ctx'"
    "thread_out_inv out" "unat (tg_top_count out) \<le> unat (ctx_thread_top_n ctx)"
    using collect_thread_group_inv [OF assms(1), of os g] by blast
  have "length (group_tasks os g) \<le> UINT16_MAX"
    using length_group_tasks [of g os] assms(2) by simp
  note counts = tally_exact [OF tally_collect_thread_group [OF run(1)] this, unfolded state_classes_def]
  show ?thesis
    using run counts by (intro exI [of _ out] exI [of _ ctx'] conjI) (simp_all add: thread_out_inv_def thread_group_inv_def)
qed

definition tasks_example :: os where
  "tasks_example = (os_of_files [(''/proc/7/task/7/stat'', stat_example)])
     \<lparr>os_dir := (\<lambda>p. if p = ''/proc/7/task'' then Some [''.'', ''..'', ''7'', ''8''] else None)\<rparr>"

definition group_example :: watch_group where
  "group_example = zero_watch_group\<lparr>wg_list := \<lparr>pids = 7 # replicate 63 0, pid_count = 1\<rparr>\<rparr>"

lemma tasks_example_states: "map ts_state (group_tasks tasks_example group_example) = ''S''"
proof -
  have "parse_task_stat tasks_example (Some ''/proc/7/task/7/stat'') = Some \<lparr>ts_id = 7, ts_comm = ''a) (b'' @ replicate 11 NUL,
      ts_state = CHR ''S'', ts_ticks = 7, ts_starttime = 9\<rparr>"
    using parse_task_stat_eq [OF stat_example_ok, of tasks_example "''/proc/7/task/7/stat''" "[]"]
    by (simp add: tasks_example_def os_of_files_def stat_example_def)
  moreover have "parse_task_stat tasks_example (Some ''/proc/7/task/8/stat'') = None"
    by (simp add: tasks_example_def os_of_files_def parse_task_stat_def)
  moreover have ld: "show_ld 7 = ''7''" "show_ld 8 = ''8''"
    by (simp_all add: show_ld_def show_u.simps char_of_def bit_0)
  moreover have "strtol ''7'' = (7, False, [])" "strtol ''8'' = (8, False, [])"
    by (simp_all add: strtol_def scan_integer_def scan_sign_def isspace_def isdigit_def to_long_def digits_value_def Let_def)
  ultimately have "map_option ts_state (dir_task tasks_example 7 ''7'') = Some CHR ''S''" "dir_task tasks_example 7 ''8'' = None"
    "dir_task tasks_example 7 ''.'' = None" "dir_task tasks_example 7 ''..'' = None"
    by (simp_all add: dir_task_def digit_name_def isdigit_def case_prod_beta)
  then show ?thesis
    by (auto simp: group_tasks_def group_pids_def group_example_def dir_tasks_def tasks_example_def ld map_filter_simps)
qed

theorem collect_thread_group_counts_witness:
  "\<exists>out ctx'. collect_thread_group tasks_example zero_proc_ctx group_example = Some (out, ctx') \<and>
    tg_total_threads out = 1 \<and> tg_state_counts out = [0, 1, 0, 0, 0, 0, 0]"
proof -
  have inv: "thread_ctx_inv zero_proc_ctx"
    by (simp add: thread_ctx_inv_def zero_proc_ctx_def zero_thread_candidate_def list_all_iff)
  have len: "length (group_pids group_example) \<le> 64"
    by (simp add: group_example_def group_pids_def)
  obtain task where ts: "group_tasks tasks_example group_example = [task]" "ts_state task = CHR ''S''"
    using tasks_example_states by (auto simp: map_eq_Cons_conv)
  from collect_thread_group_counts [OF inv len, of tasks_example] obtain out ctx' where
    run: "collect_thread_group tasks_example zero_proc_ctx group_example = Some (out, ctx')"
    and n: "unat (tg_total_threads out) = 1" "map unat (tg_state_counts out) = [0, 1, 0, 0, 0, 0, 0]"
    unfolding ts by (auto simp: ts)
  have "map unat (tg_state_counts out) = map unat ([0, 1, 0, 0, 0, 0, 0] :: u16 list)" "unat (tg_total_threads out) = unat (1 :: u16)"
    using n by simp_all
  then have "tg_state_counts out = [0, 1, 0, 0, 0, 0, 0]" "tg_total_threads out = 1"
    unfolding inj_map_eq_map [OF inj_unsigned] by (simp_all only: word_unat_eq_iff)
  with run show ?thesis by blast
qed

end
