(* ===== verification/Proc.thy ===== *)
theory Proc
  imports Proc_Threads
begin

text \<open>
  \<^verbatim>\<open>agent/src/proc.c\<close>, the collector itself: the tracker that assigns the processes under
  \<^verbatim>\<open>/proc\<close> to the watched name prefixes every five seconds, the accounting of CPU time and
  memory per group, the payload, and the proof that the collector meets the interface of the main
  loop.
\<close>

section \<open>Configuration and tracking\<close>

type_synonym proc_col = "proc_ctx option"

fun prefix_loop :: "char list list \<Rightarrow> nat \<Rightarrow> watch_group list \<Rightarrow> watch_group list option" where
  "prefix_loop [] i groups = Some groups"
| "prefix_loop (p # ps) i groups =
     do { g \<leftarrow> arr_get groups i;
          let name = (strncpy (wg_name g) p (TF_COMM_PREFIX_LEN - 1))[TF_COMM_PREFIX_LEN - 1 := NUL];
          groups \<leftarrow> arr_set groups i (g\<lparr>wg_name := name, wg_list := (wg_list g)\<lparr>pid_count := 0\<rparr>\<rparr>);
          prefix_loop ps (i + 1) groups }"

definition apply_config_prefixes :: "proc_ctx \<Rightarrow> agent_config \<Rightarrow> proc_ctx option" where
  "apply_config_prefixes ctx cfg =
     do { groups \<leftarrow> prefix_loop (take (min (proc_prefix_count cfg) TF_MAX_COMM_PREFIX) (proc_prefixes cfg)) 0 (watch_groups ctx);
          Some (ctx\<lparr>watch_groups := groups, watch_group_count := proc_prefix_count cfg\<rparr>) }"

definition tracker_reset_lists :: "nat \<Rightarrow> watch_group list \<Rightarrow> watch_group list" where
  "tracker_reset_lists n groups =
     map (\<lambda>g. g\<lparr>wg_list := (wg_list g)\<lparr>pid_count := 0\<rparr>\<rparr>) (take n groups) @ drop n groups"

text \<open>The first watched group whose name is a prefix of the command name takes the process, if its
  list is not full.\<close>

definition tracker_add_pid :: "nat \<Rightarrow> string \<Rightarrow> int \<Rightarrow> watch_group list \<Rightarrow> watch_group list option" where
  "tracker_add_pid n comm pid groups =
     (case find_idx (\<lambda>g. has_prefix comm (cstr (wg_name g))) (take n groups) of
        None \<Rightarrow> Some groups
      | Some i \<Rightarrow>
          do { g \<leftarrow> arr_get groups i;
               let lst = wg_list g;
               if pid_count lst < TF_PROC_TRACK
               then do { ps \<leftarrow> arr_set (pids lst) (pid_count lst) pid;
                         arr_set groups i (g\<lparr>wg_list := \<lparr>pids = ps, pid_count = pid_count lst + 1\<rparr>\<rparr>) }
               else Some groups })"

text \<open>\<^verbatim>\<open>comm\<close> as read from \<^verbatim>\<open>/proc/<pid>/comm\<close>, without its newline.\<close>

definition read_comm :: "os \<Rightarrow> int \<Rightarrow> string option" where
  "read_comm os pid =
     do { f \<leftarrow> os_file os (''/proc/'' @ show_ld pid @ ''/comm'');
          (line, _) \<leftarrow> fgets TF_COMM_PREFIX_LEN f;
          let comm = cstr line;
          Some (if comm \<noteq> [] \<and> last comm = NEWLINE then butlast comm else comm) }"

fun tracker_loop :: "os \<Rightarrow> nat \<Rightarrow> string list \<Rightarrow> watch_group list \<Rightarrow> watch_group list option" where
  "tracker_loop os n [] groups = Some groups"
| "tracker_loop os n (d # ds) groups =
     (if \<not> digit_name d then tracker_loop os n ds groups
      else let pid = fst (strtol d)
      in if pid \<le> 0 then tracker_loop os n ds groups
      else (case read_comm os pid of
          None \<Rightarrow> tracker_loop os n ds groups
        | Some comm \<Rightarrow>
            do { groups \<leftarrow> tracker_add_pid n comm pid groups;
                 tracker_loop os n ds groups }))"

definition tracker_scan_proc :: "os \<Rightarrow> proc_ctx \<Rightarrow> proc_ctx option" where
  "tracker_scan_proc os ctx =
     (case os_dir os ''/proc'' of
        None \<Rightarrow> Some ctx
      | Some names \<Rightarrow>
          do { let n = watch_group_count ctx;
               groups \<leftarrow> tracker_loop os n names (tracker_reset_lists n (watch_groups ctx));
               Some (ctx\<lparr>watch_groups := groups, history := history_gc groups n (history ctx),
                         last_scan_time := os_time_after_scan os\<rparr>) })"

section \<open>The collector\<close>

definition proc_init :: "bool \<Rightarrow> agent_config \<Rightarrow> proc_col \<Rightarrow> (int \<times> proc_col) option" where
  "proc_init alloc cfg col =
     (if \<not> alloc then Some (- 1, col)
      else do {
        ctx \<leftarrow> apply_config_prefixes zero_proc_ctx cfg;
        Some (0, Some (ctx\<lparr>disabled := (proc_prefix_count cfg = 0), ctx_thread_mode := thread_mode cfg,
          ctx_thread_top_n := thread_top_n cfg, ctx_thread_include_tid := thread_include_tid cfg\<rparr>)) })"

definition proc_destroy :: "proc_col \<Rightarrow> proc_col" where
  "proc_destroy col = None"

text \<open>The sums of a collection by group: \<^verbatim>\<open>inst_count\<close>, \<^verbatim>\<open>cpu_sum_x10\<close>, \<^verbatim>\<open>rss_sum_kb\<close>.\<close>

record proc_sums =
  inst_count :: "u32 list"
  cpu_sum_x10 :: "u64 list"
  rss_sum_kb :: "u64 list"

text \<open>The body of the loop over the processes of group \<open>g\<close>.\<close>

definition proc_pid ::
  "os \<Rightarrow> u64 \<Rightarrow> nat \<Rightarrow> int \<Rightarrow> proc_ctx \<times> proc_sums \<Rightarrow> (proc_ctx \<times> proc_sums) option" where
  "proc_pid os total_diff g pid st =
     (let (ctx, sums) = st;
          (ticks, parsed_pid, comm) = parse_stat os (''/proc/'' @ show_ld pid @ ''/stat'')
      in if ticks = 0 \<or> parsed_pid \<noteq> pid then Some (ctx, sums)
         else do {
           (i, hist) \<leftarrow> find_slot (history ctx) pid;
           slot \<leftarrow> arr_get hist i;
           let prev_ticks = pp_ticks slot;
           hist \<leftarrow> arr_set hist i (slot\<lparr>pp_ticks := ticks\<rparr>);
           let ctx = ctx\<lparr>history := hist\<rparr>;
           if prev_ticks = 0 \<or> ticks < prev_ticks then Some (ctx, sums)
           else do {
             let delta = ticks - prev_ticks;
             let (n, ctx) = get_cpu_count os ctx;
             let scaled = delta * 1000 * of_nat n;
             pct \<leftarrow> u64_div scaled total_diff;
             let rss_kb = parse_rss_kb os pid;
             i0 \<leftarrow> arr_get (inst_count sums) g;
             is \<leftarrow> arr_set (inst_count sums) g (i0 + 1);
             c0 \<leftarrow> arr_get (cpu_sum_x10 sums) g;
             cs \<leftarrow> arr_set (cpu_sum_x10 sums) g (c0 + pct);
             r0 \<leftarrow> arr_get (rss_sum_kb sums) g;
             rs \<leftarrow> arr_set (rss_sum_kb sums) g (r0 + ucast rss_kb);
             Some (ctx, \<lparr>inst_count = is, cpu_sum_x10 = cs, rss_sum_kb = rs\<rparr>) } })"

fun proc_pids :: "os \<Rightarrow> u64 \<Rightarrow> nat \<Rightarrow> int list \<Rightarrow> proc_ctx \<times> proc_sums \<Rightarrow> (proc_ctx \<times> proc_sums) option" where
  "proc_pids os total_diff g [] st = Some st"
| "proc_pids os total_diff g (pid # ps) st =
     do { st \<leftarrow> proc_pid os total_diff g pid st; proc_pids os total_diff g ps st }"

fun proc_groups :: "os \<Rightarrow> u64 \<Rightarrow> nat \<Rightarrow> watch_group list \<Rightarrow> proc_ctx \<times> proc_sums \<Rightarrow> (proc_ctx \<times> proc_sums) option" where
  "proc_groups os total_diff g [] st = Some st"
| "proc_groups os total_diff g (grp # grps) st =
     do { st \<leftarrow> proc_pids os total_diff g (group_pids grp) st; proc_groups os total_diff (g + 1) grps st }"

text \<open>The sums of one group, saturated to the widths of the payload.\<close>

definition proc_group_of :: "watch_group \<Rightarrow> u32 \<Rightarrow> u64 \<Rightarrow> u64 \<Rightarrow> proc_group_entry" where
  "proc_group_of grp inst cpu rss =
     \<lparr>pg_name = (strncpy (pg_name zero_proc_group) (wg_name grp) (TF_PROC_NAME_SIZE - 1))[TF_PROC_NAME_SIZE - 1 := NUL],
      pg_inst_count = (if inst > of_nat UINT16_MAX then of_nat UINT16_MAX else ucast inst),
      pg_cpu_pct_x10 = (if cpu > of_nat UINT16_MAX then of_nat UINT16_MAX else ucast cpu),
      pg_rss_kb_sum = (if rss > of_nat UINT32_MAX then of_nat UINT32_MAX else ucast rss)\<rparr>"

fun proc_out :: "watch_group list \<Rightarrow> nat \<Rightarrow> proc_sums \<Rightarrow> proc_group_entry list \<Rightarrow> nat \<Rightarrow> (proc_group_entry list \<times> nat) option"
where
  "proc_out [] index sums groups out_groups = Some (groups, out_groups)"
| "proc_out (grp # grps) index sums groups out_groups =
     (if \<not> out_groups < TF_MAX_PROC_GROUPS then Some (groups, out_groups)
      else do {
        inst \<leftarrow> arr_get (inst_count sums) index;
        cpu \<leftarrow> arr_get (cpu_sum_x10 sums) index;
        rss \<leftarrow> arr_get (rss_sum_kb sums) index;
        if inst = 0 then proc_out grps (index + 1) sums groups out_groups
        else do {
          groups \<leftarrow> arr_set groups out_groups (proc_group_of grp inst cpu rss);
          proc_out grps (index + 1) sums groups (out_groups + 1) } })"

fun thread_groups :: "os \<Rightarrow> watch_group list \<Rightarrow> proc_ctx \<Rightarrow> thread_group_entry list \<Rightarrow> nat
  \<Rightarrow> (proc_ctx \<times> thread_group_entry list \<times> nat) option" where
  "thread_groups os [] ctx groups n = Some (ctx, groups, n)"
| "thread_groups os (grp # grps) ctx groups n =
     (if \<not> n < TF_MAX_PROC_GROUPS then Some (ctx, groups, n)
      else do {
        (candidate, ctx) \<leftarrow> collect_thread_group os ctx grp;
        if tg_total_threads candidate = 0 then thread_groups os grps ctx groups n
        else do {
          groups \<leftarrow> arr_set groups n candidate;
          thread_groups os grps ctx groups (n + 1) } })"

definition proc_threads :: "os \<Rightarrow> proc_ctx \<Rightarrow> proc_ctx option" where
  "proc_threads os ctx =
     do { let ctx = ctx\<lparr>last_thread_payload := zero_thread_payload\<rparr>;
          if ctx_thread_mode ctx = TF_THREAD_MODE_OFF then Some ctx
          else do {
            let ctx = ctx\<lparr>thread_generation := thread_generation ctx + 1\<rparr>;
            let ctx = (if thread_generation ctx = 0
                       then ctx\<lparr>thread_generation := 1, thread_history := replicate TF_THREAD_TRACK zero_thread_prev\<rparr>
                       else ctx);
            (ctx, groups, n) \<leftarrow> thread_groups os (take (watch_group_count ctx) (watch_groups ctx)) ctx
              (th_groups (last_thread_payload ctx)) 0;
            Some (ctx\<lparr>last_thread_payload := \<lparr>th_group_count = of_nat n, th_groups = groups\<rparr>,
                      thread_history := thread_history_gc (thread_generation ctx) (thread_history ctx)\<rparr>) } }"

definition proc_collect :: "os \<Rightarrow> agent_config \<Rightarrow> proc_ctx \<Rightarrow> (int \<times> proc_ctx) option" where
  "proc_collect os cfg ctx =
     (if disabled ctx
      then Some (0, ctx\<lparr>last_payload := zero_proc_payload, last_thread_payload := zero_thread_payload\<rparr>)
      else do {
        let now = os_time os;
        due \<leftarrow> (if now = - 1 \<or> last_scan_time ctx = 0 then Some True
                else do { d \<leftarrow> s64 (now - last_scan_time ctx); Some (d \<ge> TF_TRACKER_INTERVAL_SEC) });
        ctx \<leftarrow> (if due then tracker_scan_proc os ctx else Some ctx);
        let total_diff = (if ctx_cpu_total_diff ctx = 0 then 1 else ctx_cpu_total_diff ctx);
        let grps = take (watch_group_count ctx) (watch_groups ctx);
        (ctx, sums) \<leftarrow> proc_groups os total_diff 0 grps (ctx,
          \<lparr>inst_count = replicate TF_MAX_COMM_PREFIX 0, cpu_sum_x10 = replicate TF_MAX_COMM_PREFIX 0,
           rss_sum_kb = replicate TF_MAX_COMM_PREFIX 0\<rparr>);
        (groups, n) \<leftarrow> proc_out grps 0 sums (pr_groups zero_proc_payload) 0;
        let ctx = ctx\<lparr>last_payload := \<lparr>pr_group_count = of_nat n, pr_groups = groups\<rparr>\<rparr>;
        ctx \<leftarrow> proc_threads os ctx;
        Some (0, ctx) })"

definition proc_group_bytes :: "proc_group_entry \<Rightarrow> u8 list" where
  "proc_group_bytes g =
     (let cursor = map byte_of_char (pg_name g);
          cursor = buf_put_be_u16 cursor (pg_inst_count g);
          cursor = buf_put_be_u16 cursor (pg_cpu_pct_x10 g)
      in buf_put_be_u32 cursor (pg_rss_kb_sum g))"

definition proc_payload_bytes :: "proc_payload \<Rightarrow> u8 list" where
  "proc_payload_bytes p = pr_group_count p #
     concat (map proc_group_bytes (take (min (unat (pr_group_count p)) TF_MAX_PROC_GROUPS) (pr_groups p)))"

definition proc_push :: "proc_ctx \<Rightarrow> tlv_writer option \<Rightarrow> (int \<times> proc_ctx \<times> tlv_writer option) option" where
  "proc_push ctx wrt =
     (if disabled ctx then Some (0, ctx, wrt)
      else do {
        let payload = proc_payload_bytes (last_payload ctx);
        (rc, wrt) \<leftarrow> tlv_put wrt TF_TYPE_PROC (Some payload) (of_nat (length payload));
        if rc \<noteq> 0 then Some (- 1, ctx, wrt)
        else if ctx_thread_mode ctx \<noteq> TF_THREAD_MODE_OFF
        then do { w \<leftarrow> wrt; (rc, ctx, w) \<leftarrow> thread_push ctx w; Some (rc, ctx, Some w) }
        else Some (0, ctx, wrt) })"

definition proc_collect_api ::
  "os \<Rightarrow> agent_config \<Rightarrow> sample_context option \<Rightarrow> proc_col \<Rightarrow> (int \<times> sample_context option \<times> proc_col) option"
where
  "proc_collect_api os cfg sctx col =
     (case col of
        None \<Rightarrow> Some (- 1, sctx, col)
      | Some ctx \<Rightarrow>
          do { let ctx = ctx\<lparr>ctx_cpu_total_diff := (case sctx of Some s \<Rightarrow> cpu_total_diff s | None \<Rightarrow> 1)\<rparr>;
               (rc, ctx') \<leftarrow> proc_collect os cfg ctx;
               Some (rc, sctx, Some ctx') })"

definition proc_push_api ::
  "proc_col \<Rightarrow> tlv_writer option \<Rightarrow> (int \<times> tlv_writer option \<times> proc_col) option" where
  "proc_push_api col wrt =
     (case col of
        None \<Rightarrow> Some (- 1, wrt, col)
      | Some ctx \<Rightarrow> do { (rc, ctx', wrt') \<leftarrow> proc_push ctx wrt; Some (rc, wrt', Some ctx') })"

section \<open>Printing\<close>

text \<open>\<^verbatim>\<open>"%u.%1u%%%%"\<close>\<close>

definition print_pct :: "u16 \<Rightarrow> string" where
  "print_pct v = show_u (unat v div 10) @ ''.'' @ show_u (unat v mod 10) @ ''%%''"

definition proc_print_group :: "proc_group_entry \<Rightarrow> string" where
  "proc_print_group g = ''  - '' @ cstr (pg_name g) @ '': inst='' @ show_u (unat (pg_inst_count g)) @ '' cpu='' @
     print_pct (pg_cpu_pct_x10 g) @ '' rss_sum='' @ show_u (unat (pg_rss_kb_sum g)) @ '' kB'' @ [NEWLINE]"

definition thread_print_top :: "u8 \<Rightarrow> thread_top_entry \<Rightarrow> string" where
  "thread_print_top flags e = ''      '' @ cstr (te_name e) @ '': inst='' @ show_u (unat (te_inst_count e)) @ '' cpu='' @
     print_pct (te_cpu_pct_x10 e) @
     (if flags AND TF_THREAD_FLAG_INCLUDE_TID \<noteq> 0
      then '' pid='' @ show_u (unat (te_pid e)) @ '' tid='' @ show_u (unat (te_tid e)) else []) @ [NEWLINE]"

definition thread_print_group :: "thread_group_entry \<Rightarrow> string" where
  "thread_print_group g =
     (let c = (\<lambda>i. show_u (unat (tg_state_counts g ! i)))
      in ''  - '' @ cstr (tg_name g) @ '': total='' @ show_u (unat (tg_total_threads g)) @ '' states(R='' @ c 0 @
         '',S='' @ c 1 @ '',D='' @ c 2 @ '',T='' @ c 3 @ '',Z='' @ c 4 @ '',I='' @ c 5 @ '',other='' @ c 6 @
         '') truncated='' @ (if tg_flags g AND TF_THREAD_FLAG_TRUNCATED \<noteq> 0 then ''yes'' else ''no'') @ [NEWLINE] @
         concat (map (thread_print_top (tg_flags g)) (take (unat (tg_top_count g)) (tg_top g))))"

definition proc_print :: "proc_col \<Rightarrow> string" where
  "proc_print col =
     (case col of
        None \<Rightarrow> []
      | Some ctx \<Rightarrow>
        if disabled ctx then ''PROC: disabled (set proc_prefix to enable)'' @ [NEWLINE]
        else ''PROC: groups='' @ show_u (unat (pr_group_count (last_payload ctx))) @ [NEWLINE] @
          concat (map proc_print_group (take (min (unat (pr_group_count (last_payload ctx))) TF_MAX_PROC_GROUPS)
            (pr_groups (last_payload ctx)))) @
          (if ctx_thread_mode ctx = TF_THREAD_MODE_OFF then ''THREAD: disabled'' @ [NEWLINE]
           else ''THREAD: groups='' @ show_u (unat (th_group_count (last_thread_payload ctx))) @ '' mode='' @
             (if ctx_thread_mode ctx = TF_THREAD_MODE_TOP then ''top'' else ''summary'') @ [NEWLINE] @
             concat (map thread_print_group (take (unat (th_group_count (last_thread_payload ctx)))
               (th_groups (last_thread_payload ctx))))))"

section \<open>Invariant\<close>

definition watch_group_inv :: "watch_group \<Rightarrow> bool" where
  "watch_group_inv g \<longleftrightarrow> terminated TF_COMM_PREFIX_LEN (wg_name g) \<and> length (pids (wg_list g)) = TF_PROC_TRACK \<and>
     pid_count (wg_list g) \<le> TF_PROC_TRACK"

definition watch_groups_inv :: "watch_group list \<Rightarrow> bool" where
  "watch_groups_inv gs \<longleftrightarrow> length gs = TF_MAX_COMM_PREFIX \<and> list_all watch_group_inv gs"

definition proc_payload_inv :: "proc_payload \<Rightarrow> bool" where
  "proc_payload_inv p \<longleftrightarrow> length (pr_groups p) = TF_MAX_PROC_GROUPS \<and> unat (pr_group_count p) \<le> TF_MAX_PROC_GROUPS \<and>
     list_all (\<lambda>g. terminated TF_PROC_NAME_SIZE (pg_name g)) (pr_groups p)"

definition thread_payload_inv :: "thread_payload \<Rightarrow> bool" where
  "thread_payload_inv p \<longleftrightarrow> length (th_groups p) = TF_MAX_PROC_GROUPS \<and> unat (th_group_count p) \<le> TF_MAX_PROC_GROUPS \<and>
     list_all thread_group_inv (th_groups p)"

text \<open>A time the agent can see: \<^verbatim>\<open>time\<close> failed or returned a time of the next thirty thousand
  years.\<close>

definition time_ok :: "int \<Rightarrow> bool" where
  "time_ok t \<longleftrightarrow> - 1 \<le> t \<and> t < 1000000000000"

definition times_ok :: "os \<Rightarrow> bool" where
  "times_ok os \<longleftrightarrow> time_ok (os_time os) \<and> time_ok (os_time_after_scan os)"

definition proc_ctx_inv :: "proc_ctx \<Rightarrow> bool" where
  "proc_ctx_inv ctx \<longleftrightarrow> length (history ctx) = TF_PROC_TRACK \<and> thread_ctx_inv ctx \<and> watch_groups_inv (watch_groups ctx) \<and>
     watch_group_count ctx \<le> TF_MAX_COMM_PREFIX \<and> time_ok (last_scan_time ctx) \<and>
     proc_payload_inv (last_payload ctx) \<and> thread_payload_inv (last_thread_payload ctx)"

definition proc_inv :: "proc_col \<Rightarrow> bool" where
  "proc_inv col \<longleftrightarrow> (case col of None \<Rightarrow> True | Some ctx \<Rightarrow> proc_ctx_inv ctx)"

lemma zero_proc_payload_inv: "proc_payload_inv zero_proc_payload"
  by (simp add: proc_payload_inv_def zero_proc_payload_def zero_proc_group_def list_all_iff)

lemma zero_thread_payload_inv: "thread_payload_inv zero_thread_payload"
  by (simp add: thread_payload_inv_def zero_thread_payload_def zero_thread_group_def thread_group_inv_def
      zero_thread_top_def list_all_iff)

lemma zero_proc_ctx_inv: "proc_ctx_inv zero_proc_ctx"
proof -
  have "watch_groups_inv (watch_groups zero_proc_ctx)"
    by (simp add: watch_groups_inv_def watch_group_inv_def zero_proc_ctx_def zero_watch_group_def list_all_iff)
  moreover have "thread_ctx_inv zero_proc_ctx"
    by (simp add: thread_ctx_inv_def zero_proc_ctx_def zero_thread_candidate_def list_all_iff)
  ultimately show ?thesis
    using zero_proc_payload_inv zero_thread_payload_inv by (simp add: proc_ctx_inv_def time_ok_def zero_proc_ctx_def)
qed

section \<open>The tracker\<close>

lemma prefix_loop_inv:
  assumes "watch_groups_inv groups" "i + length ps \<le> TF_MAX_COMM_PREFIX"
  shows "\<exists>groups'. prefix_loop ps i groups = Some groups' \<and> watch_groups_inv groups'"
  using assms
proof (induction ps arbitrary: i groups)
  case Nil
  then show ?case by simp
next
  case (Cons p ps)
  let ?g = "groups ! i"
  have i: "i < length groups" and g: "watch_group_inv ?g"
    using Cons.prems by (auto simp: watch_groups_inv_def list_all_length)
  have "terminated 32 (strncpy (wg_name ?g) p 31)"
    using g terminated_strncpy [of 31 "wg_name ?g" p] by (simp add: watch_group_inv_def)
  then have "terminated 32 ((strncpy (wg_name ?g) p 31)[31 := NUL])"
    by (simp add: terminated_def)
  then have "watch_groups_inv (groups[i := ?g\<lparr>wg_name := (strncpy (wg_name ?g) p 31)[31 := NUL],
      wg_list := (wg_list ?g)\<lparr>pid_count := 0\<rparr>\<rparr>])"
    using g Cons.prems(1) by (simp add: watch_groups_inv_def list_all_update watch_group_inv_def)
  then show ?case
    using Cons i by simp
qed

lemma tracker_reset_lists_inv:
  "watch_groups_inv groups \<Longrightarrow> watch_groups_inv (tracker_reset_lists n groups)"
  by (auto simp: watch_groups_inv_def tracker_reset_lists_def list_all_iff watch_group_inv_def
      dest!: in_set_takeD in_set_dropD)

lemma tracker_add_pid_inv:
  assumes "watch_groups_inv groups"
  shows "\<exists>groups'. tracker_add_pid n comm pid groups = Some groups' \<and> watch_groups_inv groups'"
proof (cases "find_idx (\<lambda>g. has_prefix comm (cstr (wg_name g))) (take n groups)")
  case None
  then show ?thesis using assms by (simp add: tracker_add_pid_def)
next
  case (Some i)
  then have i: "i < length groups"
    by (simp add: find_idx_Some)
  then have "watch_group_inv (groups ! i)"
    using assms by (simp add: watch_groups_inv_def list_all_length)
  with Some i assms show ?thesis
    by (auto simp: tracker_add_pid_def Let_def watch_groups_inv_def watch_group_inv_def intro!: list_all_update)
qed

lemma tracker_loop_inv:
  assumes "watch_groups_inv groups"
  shows "\<exists>groups'. tracker_loop os n ds groups = Some groups' \<and> watch_groups_inv groups'"
  using assms
proof (induction ds arbitrary: groups)
  case Nil
  then show ?case by simp
next
  case (Cons d ds)
  obtain groups1 where "tracker_add_pid n (the (read_comm os (fst (strtol d)))) (fst (strtol d)) groups = Some groups1"
    "watch_groups_inv groups1"
    using tracker_add_pid_inv [OF Cons.prems] by blast
  then show ?case
    using Cons by (auto simp: Let_def split: option.split)
qed

lemma tracker_scan_proc_inv:
  assumes "proc_ctx_inv ctx" "times_ok os"
  shows "\<exists>ctx'. tracker_scan_proc os ctx = Some ctx' \<and> proc_ctx_inv ctx' \<and>
    ctx_cpu_total_diff ctx' = ctx_cpu_total_diff ctx"
proof (cases "os_dir os ''/proc''")
  case None
  then show ?thesis using assms(1) by (simp add: tracker_scan_proc_def)
next
  case (Some names)
  obtain groups where "tracker_loop os (watch_group_count ctx) names
      (tracker_reset_lists (watch_group_count ctx) (watch_groups ctx)) = Some groups" "watch_groups_inv groups"
    using tracker_loop_inv tracker_reset_lists_inv assms(1) unfolding proc_ctx_inv_def by blast
  with Some assms show ?thesis
    by (simp add: tracker_scan_proc_def Let_def proc_ctx_inv_def history_gc_def times_ok_def thread_ctx_inv_def)
qed

section \<open>Collection keeps the invariant\<close>

definition sums_inv :: "proc_sums \<Rightarrow> bool" where
  "sums_inv s \<longleftrightarrow> length (inst_count s) = TF_MAX_COMM_PREFIX \<and> length (cpu_sum_x10 s) = TF_MAX_COMM_PREFIX \<and>
     length (rss_sum_kb s) = TF_MAX_COMM_PREFIX"

lemma find_slot_bounds:
  assumes "length hist = TF_PROC_TRACK"
  shows "\<exists>i hist'. find_slot hist pid = Some (i, hist') \<and> i < TF_PROC_TRACK \<and> length hist' = TF_PROC_TRACK"
  using assms slot_for_Some [of hist pid] by (auto simp: find_slot_eq split: option.split)

text \<open>What the accounting may change of the context.\<close>

definition proc_frame :: "proc_ctx \<Rightarrow> proc_ctx \<Rightarrow> bool" where
  "proc_frame ctx ctx' \<longleftrightarrow> ctx' = ctx\<lparr>history := history ctx', cpu_count := cpu_count ctx'\<rparr>"

lemma proc_frame_refl [simp]: "proc_frame ctx ctx"
  by (simp add: proc_frame_def)

lemma proc_frame_trans: "proc_frame a b \<Longrightarrow> proc_frame b c \<Longrightarrow> proc_frame a c"
  unfolding proc_frame_def by (metis (no_types, lifting) proc_ctx.surjective proc_ctx.update_convs(1,7))

lemma proc_pid_inv:
  assumes "length (history ctx) = TF_PROC_TRACK" "sums_inv sums" "g < TF_MAX_COMM_PREFIX" "total_diff \<noteq> 0"
  shows "\<exists>ctx' sums'. proc_pid os total_diff g pid (ctx, sums) = Some (ctx', sums') \<and>
    length (history ctx') = TF_PROC_TRACK \<and> sums_inv sums' \<and> proc_frame ctx ctx'"
proof -
  obtain ticks parsed comm where st: "parse_stat os (''/proc/'' @ show_ld pid @ ''/stat'') = (ticks, parsed, comm)"
    by (metis prod_cases3)
  obtain i hist where f: "find_slot (history ctx) pid = Some (i, hist)" "i < 64" "length hist = 64"
    using find_slot_bounds [OF assms(1)] by blast
  have cpus: "proc_frame c (snd (get_cpu_count os c)) \<and> history (snd (get_cpu_count os c)) = history c" for c
    by (simp add: get_cpu_count_def proc_frame_def Let_def)
  have set: "proc_frame ctx (ctx\<lparr>history := h\<rparr>)" for h
    by (simp add: proc_frame_def)
  show ?thesis
    using st f assms cpus [of "ctx\<lparr>history := hist[i := (hist ! i)\<lparr>pp_ticks := ticks\<rparr>]\<rparr>"] proc_frame_trans [OF set] set
    by (auto simp: proc_pid_def Let_def case_prod_beta sums_inv_def)
qed

lemma proc_pids_inv:
  assumes "length (history ctx) = TF_PROC_TRACK" "sums_inv sums" "g < TF_MAX_COMM_PREFIX" "total_diff \<noteq> 0"
  shows "\<exists>ctx' sums'. proc_pids os total_diff g ps (ctx, sums) = Some (ctx', sums') \<and>
    length (history ctx') = TF_PROC_TRACK \<and> sums_inv sums' \<and> proc_frame ctx ctx'"
  using assms(1,2)
proof (induction ps arbitrary: ctx sums)
  case Nil
  then show ?case by simp
next
  case (Cons pid ps)
  obtain ctx1 sums1 where 1: "proc_pid os total_diff g pid (ctx, sums) = Some (ctx1, sums1)"
    "length (history ctx1) = 64" "sums_inv sums1" "proc_frame ctx ctx1"
    using proc_pid_inv [OF Cons.prems assms(3,4)] by blast
  then show ?case
    using Cons.IH [OF 1(2,3)] proc_frame_trans [OF 1(4)] by auto
qed

lemma proc_groups_inv:
  assumes "length (history ctx) = TF_PROC_TRACK" "sums_inv sums" "g + length grps \<le> TF_MAX_COMM_PREFIX" "total_diff \<noteq> 0"
  shows "\<exists>ctx' sums'. proc_groups os total_diff g grps (ctx, sums) = Some (ctx', sums') \<and>
    length (history ctx') = TF_PROC_TRACK \<and> sums_inv sums' \<and> proc_frame ctx ctx'"
  using assms(1-3)
proof (induction grps arbitrary: g ctx sums)
  case Nil
  then show ?case by simp
next
  case (Cons grp grps)
  have "g < 32" using Cons.prems(3) by simp
  then obtain ctx1 sums1 where 1: "proc_pids os total_diff g (group_pids grp) (ctx, sums) = Some (ctx1, sums1)"
    "length (history ctx1) = 64" "sums_inv sums1" "proc_frame ctx ctx1"
    using proc_pids_inv [OF Cons.prems(1,2) _ assms(4)] by blast
  then show ?case
    using Cons.IH [OF 1(2,3), of "g + 1"] Cons.prems(3) proc_frame_trans [OF 1(4)] by auto
qed

lemma proc_group_of_name: "terminated TF_PROC_NAME_SIZE (pg_name (proc_group_of grp inst cpu rss))"
  by (simp add: proc_group_of_def terminated_def zero_proc_group_def)

lemma proc_out_inv:
  assumes "sums_inv sums" "index + length grps \<le> TF_MAX_COMM_PREFIX" "length groups = TF_MAX_PROC_GROUPS"
    "list_all (\<lambda>g. terminated TF_PROC_NAME_SIZE (pg_name g)) groups" "n \<le> TF_MAX_PROC_GROUPS"
  shows "\<exists>groups' n'. proc_out grps index sums groups n = Some (groups', n') \<and> length groups' = TF_MAX_PROC_GROUPS \<and>
    list_all (\<lambda>g. terminated TF_PROC_NAME_SIZE (pg_name g)) groups' \<and> n' \<le> TF_MAX_PROC_GROUPS"
  using assms(2-5)
proof (induction grps arbitrary: index groups n)
  case Nil
  then show ?case by simp
next
  case (Cons grp grps)
  have "list_all (\<lambda>g. terminated 16 (pg_name g)) (groups[n := proc_group_of grp a b c])" for a b c
    using Cons.prems(3) proc_group_of_name by (intro list_all_update)
  then show ?case
    using Cons assms(1) by (auto simp: sums_inv_def)
qed

lemma thread_groups_inv:
  assumes "thread_ctx_inv ctx" "length groups = TF_MAX_PROC_GROUPS" "list_all thread_group_inv groups" "n \<le> TF_MAX_PROC_GROUPS"
  shows "\<exists>ctx' groups' n'. thread_groups os grps ctx groups n = Some (ctx', groups', n') \<and> thread_ctx_inv ctx' \<and>
    thread_frame ctx ctx' \<and> length groups' = TF_MAX_PROC_GROUPS \<and> list_all thread_group_inv groups' \<and> n' \<le> TF_MAX_PROC_GROUPS"
  using assms
proof (induction grps arbitrary: ctx groups n)
  case Nil
  then show ?case by simp
next
  case (Cons grp grps)
  obtain out ctx1 where 1: "collect_thread_group os ctx grp = Some (out, ctx1)" "thread_ctx_inv ctx1"
    "thread_frame ctx ctx1" "thread_group_inv out"
    using collect_thread_group_inv [OF Cons.prems(1), of os grp] by (auto simp: thread_out_inv_def)
  have upd: "list_all thread_group_inv (groups[n := out])"
    using Cons.prems(3) 1(4) by (rule list_all_update)
  show ?case
    using 1(1) Cons.prems Cons.IH [OF 1(2) Cons.prems(2-4)] Cons.IH [OF 1(2) _ upd, of "n + 1"] thread_frame_trans [OF 1(3)]
    by auto
qed

lemma thread_frame_inv:
  assumes "thread_frame ctx ctx'" "proc_ctx_inv ctx" "thread_ctx_inv ctx'"
  shows "proc_ctx_inv ctx'"
proof -
  have "proc_ctx_inv (ctx\<lparr>thread_history := thread_history ctx', thread_candidates := thread_candidates ctx',
      cpu_count := cpu_count ctx'\<rparr>)"
    using assms(2,3) by (simp add: proc_ctx_inv_def thread_ctx_inv_def)
  then show ?thesis
    using assms(1) by (simp add: thread_frame_def)
qed

lemma proc_threads_inv:
  assumes "proc_ctx_inv ctx"
  shows "\<exists>ctx'. proc_threads os ctx = Some ctx' \<and> proc_ctx_inv ctx'"
proof -
  let ?c1 = "ctx\<lparr>last_thread_payload := zero_thread_payload\<rparr>"
  let ?c2 = "?c1\<lparr>thread_generation := thread_generation ctx + 1\<rparr>"
  let ?c3 = "if thread_generation ?c2 = 0
    then ?c2\<lparr>thread_generation := 1, thread_history := replicate TF_THREAD_TRACK zero_thread_prev\<rparr> else ?c2"
  have c1: "proc_ctx_inv ?c1" and c3: "proc_ctx_inv ?c3"
    using assms zero_thread_payload_inv by (simp_all add: proc_ctx_inv_def thread_ctx_inv_def)
  have "thread_ctx_inv ?c3"
    using c3 by (simp add: proc_ctx_inv_def)
  moreover have "length (th_groups (last_thread_payload ?c3)) = 8" "list_all thread_group_inv (th_groups (last_thread_payload ?c3))"
    using zero_thread_payload_inv by (simp_all add: thread_payload_inv_def)
  ultimately obtain ctx4 groups n where 4: "thread_groups os (take (watch_group_count ?c3) (watch_groups ?c3)) ?c3
      (th_groups (last_thread_payload ?c3)) 0 = Some (ctx4, groups, n)" "thread_ctx_inv ctx4" "thread_frame ?c3 ctx4"
    "length groups = 8" "list_all thread_group_inv groups" "n \<le> 8"
    using thread_groups_inv [of ?c3 "th_groups (last_thread_payload ?c3)" 0] by blast
  have "unat (of_nat n :: u8) = n"
    using 4(6) by (simp only: unat_of_nat_u8) simp
  then have "proc_ctx_inv (ctx4\<lparr>last_thread_payload := \<lparr>th_group_count = of_nat n, th_groups = groups\<rparr>,
      thread_history := thread_history_gc (thread_generation ctx4) (thread_history ctx4)\<rparr>)"
    using thread_frame_inv [OF 4(3) c3 4(2)] 4
    by (simp add: proc_ctx_inv_def thread_ctx_inv_def thread_history_gc_def thread_payload_inv_def)
  then show ?thesis
    using c1 4(1) by (auto simp: proc_threads_def Let_def)
qed

lemma proc_frame_inv:
  assumes "proc_frame ctx ctx'" "proc_ctx_inv ctx" "length (history ctx') = TF_PROC_TRACK"
  shows "proc_ctx_inv ctx'"
proof -
  have "proc_ctx_inv (ctx\<lparr>history := history ctx', cpu_count := cpu_count ctx'\<rparr>)"
    using assms(2,3) by (simp add: proc_ctx_inv_def thread_ctx_inv_def)
  then show ?thesis
    using assms(1) by (simp add: proc_frame_def)
qed

text \<open>The part of a collection after the tracker has run.\<close>

lemma proc_account_inv:
  assumes "proc_ctx_inv ctx" "total_diff \<noteq> 0" "grps = take (watch_group_count ctx) (watch_groups ctx)"
  shows "\<exists>ctx1 sums groups n ctx2. proc_groups os total_diff 0 grps (ctx,
      \<lparr>inst_count = replicate TF_MAX_COMM_PREFIX 0, cpu_sum_x10 = replicate TF_MAX_COMM_PREFIX 0,
       rss_sum_kb = replicate TF_MAX_COMM_PREFIX 0\<rparr>) = Some (ctx1, sums) \<and>
    proc_out grps 0 sums (pr_groups zero_proc_payload) 0 = Some (groups, n) \<and>
    proc_threads os (ctx1\<lparr>last_payload := \<lparr>pr_group_count = of_nat n, pr_groups = groups\<rparr>\<rparr>) = Some ctx2 \<and> proc_ctx_inv ctx2"
proof -
  have len: "0 + length grps \<le> 32"
    using assms(1,3) by (simp add: proc_ctx_inv_def watch_groups_inv_def)
  have "sums_inv \<lparr>inst_count = replicate 32 0, cpu_sum_x10 = replicate 32 0, rss_sum_kb = replicate 32 0\<rparr>"
    by (simp add: sums_inv_def)
  then obtain ctx1 sums where 1: "proc_groups os total_diff 0 grps (ctx,
      \<lparr>inst_count = replicate 32 0, cpu_sum_x10 = replicate 32 0, rss_sum_kb = replicate 32 0\<rparr>) = Some (ctx1, sums)"
    "length (history ctx1) = 64" "sums_inv sums" "proc_frame ctx ctx1"
    using proc_groups_inv [OF _ _ len assms(2)] assms(1) unfolding proc_ctx_inv_def by blast
  obtain groups n where 2: "proc_out grps 0 sums (pr_groups zero_proc_payload) 0 = Some (groups, n)" "length groups = 8"
    "list_all (\<lambda>g. terminated TF_PROC_NAME_SIZE (pg_name g)) groups" "n \<le> 8"
    using proc_out_inv [OF 1(3) len, of "pr_groups zero_proc_payload" 0] zero_proc_payload_inv
    by (auto simp: proc_payload_inv_def)
  have "unat (of_nat n :: u8) = n"
    using 2(4) by (simp only: unat_of_nat_u8) simp
  then have "proc_ctx_inv (ctx1\<lparr>last_payload := \<lparr>pr_group_count = of_nat n, pr_groups = groups\<rparr>\<rparr>)"
    using proc_frame_inv [OF 1(4) assms(1) 1(2)] 2 by (simp add: proc_ctx_inv_def proc_payload_inv_def thread_ctx_inv_def)
  then show ?thesis
    using proc_threads_inv 1(1) 2(1) by blast
qed

lemma proc_collect_inv:
  assumes "proc_ctx_inv ctx" "times_ok os"
  shows "\<exists>rc ctx'. proc_collect os cfg ctx = Some (rc, ctx') \<and> proc_ctx_inv ctx'"
proof (cases "disabled ctx")
  case True
  then show ?thesis
    using assms zero_proc_payload_inv zero_thread_payload_inv
    by (simp add: proc_collect_def proc_ctx_inv_def thread_ctx_inv_def)
next
  case False
  have "s64 (os_time os - last_scan_time ctx) = Some (os_time os - last_scan_time ctx)"
    using assms by (simp add: proc_ctx_inv_def times_ok_def time_ok_def)
  then obtain due where due: "(if os_time os = - 1 \<or> last_scan_time ctx = 0 then Some True
      else do { d \<leftarrow> s64 (os_time os - last_scan_time ctx); Some (d \<ge> TF_TRACKER_INTERVAL_SEC) }) = Some due"
    by (cases "os_time os = - 1 \<or> last_scan_time ctx = 0") auto
  obtain ctx1 where 1: "(if due then tracker_scan_proc os ctx else Some ctx) = Some ctx1" "proc_ctx_inv ctx1"
    using tracker_scan_proc_inv [OF assms] assms(1) by (cases due) auto
  let ?td = "if ctx_cpu_total_diff ctx1 = 0 then 1 else ctx_cpu_total_diff ctx1"
  have "?td \<noteq> 0" by simp
  from proc_account_inv [OF 1(2) this refl, of os] obtain ctx2 sums groups n ctx3 where
    "proc_groups os ?td 0 (take (watch_group_count ctx1) (watch_groups ctx1)) (ctx1,
      \<lparr>inst_count = replicate 32 0, cpu_sum_x10 = replicate 32 0, rss_sum_kb = replicate 32 0\<rparr>) = Some (ctx2, sums)"
    "proc_out (take (watch_group_count ctx1) (watch_groups ctx1)) 0 sums (pr_groups zero_proc_payload) 0 = Some (groups, n)"
    "proc_threads os (ctx2\<lparr>last_payload := \<lparr>pr_group_count = of_nat n, pr_groups = groups\<rparr>\<rparr>) = Some ctx3" "proc_ctx_inv ctx3"
    by blast
  with False due 1(1) show ?thesis
    by (simp only: proc_collect_def if_False Let_def bind.bind_lunit prod.case) blast
qed

section \<open>Pushing\<close>

lemma length_proc_payload:
  assumes "proc_payload_inv p"
  shows "length (proc_payload_bytes p) = 1 + 24 * unat (pr_group_count p)"
proof -
  have "length (proc_group_bytes g) = 24" if "g \<in> set (take n (pr_groups p))" for g n
    using that assms by (auto simp: proc_payload_inv_def proc_group_bytes_def Let_def list_all_iff terminated_def dest: in_set_takeD)
  then have "length (concat (map proc_group_bytes (take n (pr_groups p)))) = 24 * length (take n (pr_groups p))" for n
    by (rule length_concat_const)
  then show ?thesis
    using assms by (simp add: proc_payload_bytes_def proc_payload_inv_def)
qed

lemma thread_push_inv:
  assumes "proc_ctx_inv ctx" "wf_writer w"
  shows "\<exists>ctx' w' ts. thread_push ctx w = Some (0, ctx', w') \<and> appends_tlvs w w' ts \<and> proc_ctx_inv ctx'"
proof -
  let ?p = "last_thread_payload ctx"
  have p: "length (th_groups ?p) = 8" "unat (th_group_count ?p) \<le> 8" "list_all thread_group_inv (take n (th_groups ?p))" for n
    using assms(1) by (auto simp: proc_ctx_inv_def thread_payload_inv_def list_all_iff dest: in_set_takeD)
  obtain ctx' w' ts b where "thread_push_loop (take (unat (th_group_count ?p)) (th_groups ?p)) ctx w = Some (0, ctx', w')"
    "appends_tlvs w w' ts" "ctx' = ctx\<lparr>thread_frame_warned := b\<rparr>"
    using thread_push_loop_whole [OF assms(2) p(3)] by blast
  then show ?thesis
    using assms(1) p(1,2)
    by (intro exI [of _ ctx'] exI [of _ w'] exI [of _ ts]) (simp add: thread_push_def proc_ctx_inv_def thread_ctx_inv_def)
qed

lemma proc_push_inv:
  assumes "proc_ctx_inv ctx" "wf_writer w"
  shows "\<exists>rc ctx' w' ts. proc_push ctx (Some w) = Some (rc, ctx', Some w') \<and> appends_tlvs w w' ts \<and> proc_ctx_inv ctx'"
proof (cases "disabled ctx")
  case True
  then show ?thesis
    using assms appends_nothing by (auto simp: proc_push_def)
next
  case False
  let ?v = "proc_payload_bytes (last_payload ctx)"
  from tlv_put_payload [OF assms(2)] obtain rc w1 ts where
    put: "tlv_put (Some w) TF_TYPE_PROC (Some ?v) (of_nat (length ?v)) = Some (rc, Some w1)" "appends_tlvs w w1 ts"
    by metis
  then have "wf_writer w1" by (simp add: appends_tlvs_def)
  then obtain ctx2 w2 us where "thread_push ctx w1 = Some (0, ctx2, w2)" "appends_tlvs w1 w2 us" "proc_ctx_inv ctx2"
    using thread_push_inv [OF assms(1)] by blast
  with False put assms(1) appends_trans [OF put(2)] show ?thesis
    by (cases "rc \<noteq> 0"; cases "ctx_thread_mode ctx = TF_THREAD_MODE_OFF") (auto simp: proc_push_def Let_def)
qed

section \<open>The process collector meets the interface\<close>

lemma proc_init_inv:
  assumes "wf_config cfg"
  shows "\<exists>ctx. proc_init True cfg col = Some (0, Some ctx) \<and> proc_ctx_inv ctx"
proof -
  have "watch_groups_inv (watch_groups zero_proc_ctx)"
    using zero_proc_ctx_inv by (simp add: proc_ctx_inv_def)
  moreover have "0 + length (take (min (proc_prefix_count cfg) 32) (proc_prefixes cfg)) \<le> 32"
    by simp
  ultimately obtain groups where "prefix_loop (take (min (proc_prefix_count cfg) 32) (proc_prefixes cfg)) 0
      (watch_groups zero_proc_ctx) = Some groups" "watch_groups_inv groups"
    using prefix_loop_inv by blast
  then show ?thesis
    using assms zero_proc_ctx_inv
    by (simp add: proc_init_def apply_config_prefixes_def proc_ctx_inv_def thread_ctx_inv_def wf_config_def)
qed

interpretation proc: collector proc_init proc_destroy proc_collect_api proc_push_api proc_inv
  "\<lambda>s. s \<noteq> None" times_ok
proof unfold_locales
  show "\<exists>rc s'. proc_init alloc cfg s = Some (rc, s') \<and> proc_inv s' \<and>
      (if alloc then rc = 0 \<and> s' \<noteq> None else rc = - 1 \<and> s' = s)"
    if "proc_inv s" "wf_config cfg" for s cfg alloc
    using that proc_init_inv [OF that(2), of s]
    by (cases alloc) (auto simp: proc_inv_def, simp add: proc_init_def)
  show "proc_inv (proc_destroy s) \<and> \<not> proc_destroy s \<noteq> None" for s
    by (simp add: proc_destroy_def proc_inv_def)
  show "\<exists>rc sctx' s'. proc_collect_api os cfg sctx s = Some (rc, sctx', s') \<and> proc_inv s' \<and>
      (sctx' = None \<longleftrightarrow> sctx = None) \<and> (s' \<noteq> None \<longleftrightarrow> s \<noteq> None)"
    if ok: "proc_inv s" "times_ok os" for s cfg os sctx
  proof (cases s)
    case None
    then show ?thesis by (simp add: proc_collect_api_def proc_inv_def)
  next
    case (Some ctx)
    let ?ctx = "ctx\<lparr>ctx_cpu_total_diff := (case sctx of Some s \<Rightarrow> cpu_total_diff s | None \<Rightarrow> 1)\<rparr>"
    have "proc_ctx_inv ?ctx"
      using ok(1) Some by (simp add: proc_inv_def proc_ctx_inv_def thread_ctx_inv_def)
    then obtain rc ctx' where "proc_collect os cfg ?ctx = Some (rc, ctx')" "proc_ctx_inv ctx'"
      using proc_collect_inv ok(2) by blast
    with Some show ?thesis by (simp add: proc_collect_api_def proc_inv_def)
  qed
  show "\<exists>rc w' s' ts. proc_push_api s (Some w) = Some (rc, Some w', s') \<and> proc_inv s' \<and>
      (s' \<noteq> None \<longleftrightarrow> s \<noteq> None) \<and> appends_tlvs w w' ts" if ok: "proc_inv s" "wf_writer w" for s w
  proof (cases s)
    case None
    then show ?thesis using that by (auto simp: proc_push_api_def intro: appends_nothing)
  next
    case (Some ctx)
    then obtain rc ctx' w' ts where "proc_push ctx (Some w) = Some (rc, ctx', Some w')" "appends_tlvs w w' ts" "proc_ctx_inv ctx'"
      using proc_push_inv ok by (fastforce simp: proc_inv_def)
    with Some show ?thesis by (auto simp: proc_push_api_def proc_inv_def)
  qed
  show "proc_push_api s wrt = Some (- 1, wrt, s)" if "\<not> s \<noteq> None" for s wrt
    using that by (simp add: proc_push_api_def)
qed

section \<open>Which process goes where\<close>

text \<open>The processes the tracker looks at, with their command names, in directory order.\<close>

definition proc_list :: "os \<Rightarrow> string list \<Rightarrow> (string \<times> int) list" where
  "proc_list os names = List.map_filter (\<lambda>d. if digit_name d \<and> 0 < fst (strtol d)
     then map_option (\<lambda>comm. (comm, fst (strtol d))) (read_comm os (fst (strtol d))) else None) names"

text \<open>The first of the prefixes that matches a command name.\<close>

definition first_prefix :: "char list list \<Rightarrow> string \<Rightarrow> nat option" where
  "first_prefix ps comm = find_idx (\<lambda>p. has_prefix comm (cstr p)) ps"

lemma find_idx_map: "find_idx P (map f xs) = find_idx (\<lambda>x. P (f x)) xs"
  by (induction xs) auto

lemma tracker_add_pid_spec:
  assumes "watch_groups_inv groups" "tracker_add_pid n comm pid groups = Some groups'" "i < n" "i < TF_MAX_COMM_PREFIX"
  shows "map wg_name groups' = map wg_name groups \<and>
    group_pids (groups' ! i) = take TF_PROC_TRACK (group_pids (groups ! i) @
      (if first_prefix (take n (map wg_name groups)) comm = Some i then [pid] else []))"
proof -
  let ?f = "find_idx (\<lambda>g. has_prefix comm (cstr (wg_name g))) (take n groups)"
  have f: "first_prefix (take n (map wg_name groups)) comm = ?f"
    by (simp add: first_prefix_def take_map find_idx_map)
  have inv: "watch_group_inv (groups ! k)" if "k < 32" for k
    using that assms(1) by (simp add: watch_groups_inv_def list_all_length)
  have len: "length groups = 32"
    using assms(1) by (simp add: watch_groups_inv_def)
  have short: "length (group_pids (groups ! i)) \<le> 64" "pid_count (wg_list (groups ! i)) \<le> 64"
    using inv [OF assms(4)] by (simp_all add: group_pids_def watch_group_inv_def)
  show ?thesis
  proof (cases ?f)
    case None
    then show ?thesis
      using assms(2) f short by (simp add: tracker_add_pid_def)
  next
    case (Some k)
    then have k: "k < 32" using len by (simp add: find_idx_Some)
    let ?lst = "wg_list (groups ! k)"
    have l: "length (pids ?lst) = 64" "pid_count ?lst \<le> 64"
      using inv [OF k] by (simp_all add: watch_group_inv_def)
    show ?thesis
    proof (cases "pid_count ?lst < 64")
      case True
      then have g: "groups' = groups[k := (groups ! k)\<lparr>wg_list :=
          \<lparr>pids = (pids ?lst)[pid_count ?lst := pid], pid_count = pid_count ?lst + 1\<rparr>\<rparr>]"
        using assms(2) Some k len l by (simp add: tracker_add_pid_def Let_def)
      then have "map wg_name groups' = map wg_name groups"
        using k len by (simp add: map_update list_update_same_conv)
      moreover have "take (Suc (pid_count ?lst)) ((pids ?lst)[pid_count ?lst := pid]) = take (pid_count ?lst) (pids ?lst) @ [pid]"
        using True l by (intro take_list_update_append) simp
      ultimately show ?thesis
        using Some f g k len True l short by (auto simp: group_pids_def nth_list_update)
    next
      case False
      then show ?thesis
        using assms(2) Some f k len l short by (auto simp: tracker_add_pid_def Let_def group_pids_def)
    qed
  qed
qed

lemma tracker_loop_spec:
  assumes "watch_groups_inv groups" "tracker_loop os n ds groups = Some groups'" "i < n" "i < TF_MAX_COMM_PREFIX"
  shows "map wg_name groups' = map wg_name groups \<and>
    group_pids (groups' ! i) = take TF_PROC_TRACK (group_pids (groups ! i) @
      map snd (filter (\<lambda>(comm, pid). first_prefix (take n (map wg_name groups)) comm = Some i) (proc_list os ds)))"
  using assms(1,2)
proof (induction ds arbitrary: groups)
  case Nil
  have "watch_group_inv (groups ! i)"
    using Nil.prems(1) assms(4) by (simp add: watch_groups_inv_def list_all_length)
  with Nil show ?case by (simp add: proc_list_def List.map_filter_simps group_pids_def watch_group_inv_def)
next
  case (Cons d ds)
  let ?pid = "fst (strtol d)"
  show ?case
  proof (cases "digit_name d \<and> 0 < ?pid \<and> read_comm os ?pid \<noteq> None")
    case False
    then have "tracker_loop os n (d # ds) groups = tracker_loop os n ds groups" "proc_list os (d # ds) = proc_list os ds"
      by (auto simp: Let_def proc_list_def List.map_filter_simps split: option.split)
    then show ?thesis using Cons by simp
  next
    case True
    then obtain comm where comm: "read_comm os ?pid = Some comm" by blast
    obtain groups1 where add: "tracker_add_pid n comm ?pid groups = Some groups1" "watch_groups_inv groups1"
      using tracker_add_pid_inv [OF Cons.prems(1)] by blast
    have "tracker_loop os n (d # ds) groups = tracker_loop os n ds groups1"
      using True comm add(1) by (simp add: Let_def)
    moreover have "proc_list os (d # ds) = (comm, ?pid) # proc_list os ds"
      using True comm by (simp add: proc_list_def List.map_filter_simps)
    ultimately show ?thesis
      using tracker_add_pid_spec [OF Cons.prems(1) add(1) assms(3,4)] Cons.IH [OF add(2)] Cons.prems(2)
      by (simp add: take_take_append del: take_append tracker_loop.simps)
  qed
qed

text \<open>C12: a scan puts into the list of every watched prefix exactly the processes, in directory order and at
  most 64 of them, whose command name starts with this prefix and with none of the earlier ones.\<close>

theorem tracker_scan_assigns:
  assumes "proc_ctx_inv ctx" "os_dir os ''/proc'' = Some names" "i < watch_group_count ctx"
  shows "\<exists>ctx'. tracker_scan_proc os ctx = Some ctx' \<and> map wg_name (watch_groups ctx') = map wg_name (watch_groups ctx) \<and>
    group_pids (watch_groups ctx' ! i) = take TF_PROC_TRACK (map snd (filter (\<lambda>(comm, pid).
      first_prefix (take (watch_group_count ctx) (map wg_name (watch_groups ctx))) comm = Some i) (proc_list os names)))"
proof -
  let ?n = "watch_group_count ctx"
  let ?gs = "tracker_reset_lists ?n (watch_groups ctx)"
  have i: "i < 32" and inv: "watch_groups_inv ?gs"
    using assms(1,3) tracker_reset_lists_inv by (auto simp: proc_ctx_inv_def)
  obtain groups where loop: "tracker_loop os ?n names ?gs = Some groups"
    using tracker_loop_inv [OF inv] by blast
  have names: "map wg_name ?gs = map wg_name (watch_groups ctx)"
    by (simp add: tracker_reset_lists_def comp_def flip: take_map drop_map)
  have "length (watch_groups ctx) = 32"
    using assms(1) by (simp add: proc_ctx_inv_def watch_groups_inv_def)
  then have "group_pids (?gs ! i) = []"
    using assms(3) i by (simp add: tracker_reset_lists_def group_pids_def nth_append)
  with loop tracker_loop_spec [OF inv loop assms(3) i] names show ?thesis
    using assms(2) by (simp add: tracker_scan_proc_def)
qed

definition os_shell :: os where
  "os_shell = (os_of_files [(''/proc/7/comm'', ''sh'' @ [NEWLINE]), (''/proc/7/stat'', stat_example)])
     \<lparr>os_dir := (\<lambda>d. if d = ''/proc'' then Some [''self'', ''7''] else None)\<rparr>"

definition ctx_shell :: proc_ctx where
  "ctx_shell = zero_proc_ctx\<lparr>watch_groups := (watch_groups zero_proc_ctx)[0 := zero_watch_group\<lparr>wg_name := ''sh'' @ replicate 30 NUL\<rparr>],
     watch_group_count := 1, history := (replicate 64 zero_proc_prev)[PID_HASH 7 := \<lparr>pp_pid = 7, pp_ticks = 5\<rparr>], cpu_count := 2\<rparr>"

lemma ctx_shell_inv: "proc_ctx_inv ctx_shell"
proof -
  have "watch_groups_inv (watch_groups ctx_shell)"
    using zero_proc_ctx_inv
    by (auto simp: ctx_shell_def proc_ctx_inv_def watch_groups_inv_def watch_group_inv_def zero_watch_group_def
        terminated_def list_all_length nth_list_update)
  then show ?thesis
    using zero_proc_ctx_inv by (simp add: proc_ctx_inv_def thread_ctx_inv_def ctx_shell_def)
qed

lemma proc_list_shell: "proc_list os_shell [''self'', ''7''] = [(''sh'', 7)]"
  by code_simp

theorem tracker_scan_assigns_witness:
  "\<exists>ctx'. tracker_scan_proc os_shell ctx_shell = Some ctx' \<and> group_pids (watch_groups ctx' ! 0) = [7]"
proof -
  have "os_dir os_shell ''/proc'' = Some [''self'', ''7'']" "0 < watch_group_count ctx_shell"
    by (simp_all add: os_shell_def ctx_shell_def)
  moreover have "first_prefix (take (watch_group_count ctx_shell) (map wg_name (watch_groups ctx_shell))) ''sh'' = Some 0"
    by (simp add: first_prefix_def ctx_shell_def zero_proc_ctx_def take_Suc_conv_app_nth cstr_def has_prefix_def)
  ultimately show ?thesis
    using tracker_scan_assigns [OF ctx_shell_inv, of os_shell "[''self'', ''7'']" 0] by (auto simp: proc_list_shell)
qed

text \<open>C13: the accounting of one process: when the table holds \<open>p\<close> ticks for it and it now has \<open>t\<close>, its
  group gains one instance, the share \<open>(t - p) * 1000 * cpus div total\<close> (tenths of a percent of one
  CPU) and its resident memory, and the table holds \<open>t\<close> for the next collection.\<close>

theorem proc_pid_accounting:
  assumes "length (history ctx) = TF_PROC_TRACK" "sums_inv sums" "g < TF_MAX_COMM_PREFIX" "pid \<noteq> 0"
    and slot: "slot_for (history ctx) pid = Some i" "history ctx ! i = \<lparr>pp_pid = pid, pp_ticks = p\<rparr>" "p \<noteq> 0"
    and stat: "parse_stat os (''/proc/'' @ show_ld pid @ ''/stat'') = (t, pid, comm)" "p \<le> t"
    and cpus: "0 < cpu_count ctx" and td: "td \<noteq> 0"
    and small: "(unat t - unat p) * 1000 * cpu_count ctx \<le> ULLONG_MAX"
  shows "\<exists>ctx' sums'. proc_pid os td g pid (ctx, sums) = Some (ctx', sums') \<and>
    inst_count sums' = (inst_count sums)[g := inst_count sums ! g + 1] \<and>
    cpu_sum_x10 sums' = (cpu_sum_x10 sums)[g := cpu_sum_x10 sums ! g +
      of_nat ((unat t - unat p) * 1000 * cpu_count ctx div unat td)] \<and>
    rss_sum_kb sums' = (rss_sum_kb sums)[g := rss_sum_kb sums ! g + ucast (parse_rss_kb os pid)] \<and>
    slot_for (history ctx') pid = Some i \<and> history ctx' ! i = \<lparr>pp_pid = pid, pp_ticks = t\<rparr>"
proof -
  let ?h = "(history ctx)[i := \<lparr>pp_pid = pid, pp_ticks = t\<rparr>]"
  have i: "i < 64"
    using slot(1) assms(1) slot_for_Some by blast
  have f: "find_slot (history ctx) pid = Some (i, history ctx)"
    using assms(1) slot by (simp add: find_slot_eq)
  have again: "slot_for ?h pid = Some i"
    using slot_for_stable [OF slot(1) assms(1) _ assms(4)] by simp
  have "t \<noteq> 0" using slot(3) stat(2) by auto
  have diff: "unat (t - p) = unat t - unat p"
    using stat(2) by (rule unat_sub_u64)
  have "(t - p) * 1000 * of_nat (cpu_count ctx) = of_nat ((unat t - unat p) * 1000 * cpu_count ctx)"
    by (simp flip: diff)
  moreover have "(unat t - unat p) * 1000 * cpu_count ctx < 2 ^ 64"
    using small by simp
  ultimately have "unat ((t - p) * 1000 * of_nat (cpu_count ctx)) = (unat t - unat p) * 1000 * cpu_count ctx"
    by (simp only: unat_of_nat_u64) simp
  then have "unat ((t - p) * 1000 * of_nat (cpu_count ctx) div td) = (unat t - unat p) * 1000 * cpu_count ctx div unat td"
    by (simp only: unat_div)
  then have pct: "(t - p) * 1000 * of_nat (cpu_count ctx) div td = of_nat ((unat t - unat p) * 1000 * cpu_count ctx div unat td)"
    by (metis of_nat_unat ucast_id)
  have sums: "g < length (inst_count sums)" "g < length (cpu_sum_x10 sums)" "g < length (rss_sum_kb sums)"
    using assms(2,3) by (simp_all add: sums_inv_def)
  show ?thesis
    using stat f i assms(1) slot(2,3) \<open>t \<noteq> 0\<close> cpus td sums again pct
    by (simp add: proc_pid_def get_cpu_count_def Let_def not_less [symmetric])
qed

theorem proc_pid_accounting_witness:
  "\<exists>ctx' sums'. proc_pid os_shell 100 0 7 (ctx_shell, \<lparr>inst_count = replicate 32 0, cpu_sum_x10 = replicate 32 0,
      rss_sum_kb = replicate 32 0\<rparr>) = Some (ctx', sums') \<and> inst_count sums' ! 0 = 1 \<and> cpu_sum_x10 sums' ! 0 = 40"
proof -
  have stat_file: "os_file os_shell (''/proc/'' @ show_ld 7 @ ''/stat'') = Some stat_example"
    by (simp add: os_shell_def os_of_files_def show_ld_def show_u.simps char_of_def bit_0)
  then obtain comm where stat: "parse_stat os_shell (''/proc/'' @ show_ld 7 @ ''/stat'') = (7, 7, comm)"
    using parse_stat_example by blast
  let ?sums = "\<lparr>inst_count = replicate 32 0, cpu_sum_x10 = replicate 32 0, rss_sum_kb = replicate 32 0\<rparr>"
  have slot: "slot_for (history ctx_shell) 7 = Some (PID_HASH 7)" "history ctx_shell ! PID_HASH 7 = \<lparr>pp_pid = 7, pp_ticks = 5\<rparr>"
    by (simp_all add: ctx_shell_def slot_for_def)
  have "\<exists>ctx' sums'. proc_pid os_shell 100 0 7 (ctx_shell, ?sums) = Some (ctx', sums') \<and>
    inst_count sums' = (inst_count ?sums)[0 := inst_count ?sums ! 0 + 1] \<and>
    cpu_sum_x10 sums' = (cpu_sum_x10 ?sums)[0 := cpu_sum_x10 ?sums ! 0 +
      of_nat ((unat (7 :: u64) - unat (5 :: u64)) * 1000 * cpu_count ctx_shell div unat (100 :: u64))]"
    using proc_pid_accounting [OF _ _ _ _ slot _ stat, of ?sums 0 100]
    by (auto simp: sums_inv_def ctx_shell_def)
  then show ?thesis by (auto simp: ctx_shell_def)
qed

end
