(* ===== verification/Sampling.thy ===== *)
theory Sampling
  imports Cpu Mem Net Disk Fs Proc
begin

text \<open>
  The loops of \<^verbatim>\<open>agent/src/main.c\<close> over the collectors of \<^verbatim>\<open>collector_list.def\<close> (cpu, mem, net, disk,
  fs, proc, in this order) and the frame that one pass of the main loop builds. What is proved of a
  single collector through the interface \<open>collector\<close> is put together here: a pass keeps
  the invariants of all collectors and yields a frame of whole TLVs, unless a load average is too large
  for its field, in which case the conversion in \<^verbatim>\<open>mem_collect\<close> is undefined and so is the pass.
\<close>

section \<open>The collectors\<close>

record collectors =
  c_cpu :: cpu_col
  c_mem :: mem_col
  c_net :: net_col
  c_disk :: disk_col
  c_fs :: fs_col
  c_proc :: proc_col

text \<open>The objects as the loader leaves them: all contexts NULL.\<close>

definition g_collectors :: collectors where
  "g_collectors = \<lparr>c_cpu = \<lparr>cpu_ctx_ptr = None, g_last_diff_total = 1\<rparr>, c_mem = None, c_net = None, c_disk = None,
     c_fs = None, c_proc = None\<rparr>"

text \<open>The initialisation loop of \<^verbatim>\<open>init_agent_state\<close>; \<open>alloc i\<close> says whether the \<^verbatim>\<open>calloc\<close> of collector
  \<open>i\<close> succeeds.\<close>

definition init_collectors :: "(nat \<Rightarrow> bool) \<Rightarrow> agent_config \<Rightarrow> collectors \<Rightarrow> (int \<times> collectors) option" where
  "init_collectors alloc cfg cs =
     do { (rc, s) \<leftarrow> cpu_init (alloc 0) cfg (c_cpu cs);
          let cs = cs\<lparr>c_cpu := s\<rparr>;
          if rc \<noteq> 0 then Some (1, cs)
          else do { (rc, s) \<leftarrow> mem_init (alloc 1) cfg (c_mem cs);
          let cs = cs\<lparr>c_mem := s\<rparr>;
          if rc \<noteq> 0 then Some (1, cs)
          else do { (rc, s) \<leftarrow> net_init (alloc 2) cfg (c_net cs);
          let cs = cs\<lparr>c_net := s\<rparr>;
          if rc \<noteq> 0 then Some (1, cs)
          else do { (rc, s) \<leftarrow> disk_init (alloc 3) cfg (c_disk cs);
          let cs = cs\<lparr>c_disk := s\<rparr>;
          if rc \<noteq> 0 then Some (1, cs)
          else do { (rc, s) \<leftarrow> fs_init (alloc 4) cfg (c_fs cs);
          let cs = cs\<lparr>c_fs := s\<rparr>;
          if rc \<noteq> 0 then Some (1, cs)
          else do { (rc, s) \<leftarrow> proc_init (alloc 5) cfg (c_proc cs);
          let cs = cs\<lparr>c_proc := s\<rparr>;
          if rc \<noteq> 0 then Some (1, cs) else Some (0, cs) }}}}}}"

definition destroy_collectors :: "collectors \<Rightarrow> collectors" where
  "destroy_collectors cs =
     \<lparr>c_cpu = cpu_destroy (c_cpu cs), c_mem = mem_destroy (c_mem cs), c_net = net_destroy (c_net cs),
      c_disk = disk_destroy (c_disk cs), c_fs = fs_destroy (c_fs cs), c_proc = proc_destroy (c_proc cs)\<rparr>"

text \<open>The collection loop: the sample context goes from one collector to the next, return codes are
  only logged.\<close>

definition collect_all :: "os \<Rightarrow> agent_config \<Rightarrow> sample_context option \<Rightarrow> collectors \<Rightarrow> (sample_context option \<times> collectors) option" where
  "collect_all os cfg sctx cs =
     do { (err, sctx, s) \<leftarrow> cpu_collect_api os cfg sctx (c_cpu cs);
          let cs = cs\<lparr>c_cpu := s\<rparr>;
          (err, sctx, s) \<leftarrow> mem_collect_api os cfg sctx (c_mem cs);
          let cs = cs\<lparr>c_mem := s\<rparr>;
          (err, sctx, s) \<leftarrow> net_collect_api os cfg sctx (c_net cs);
          let cs = cs\<lparr>c_net := s\<rparr>;
          (err, sctx, s) \<leftarrow> disk_collect_api os cfg sctx (c_disk cs);
          let cs = cs\<lparr>c_disk := s\<rparr>;
          (err, sctx, s) \<leftarrow> fs_collect_api os cfg sctx (c_fs cs);
          let cs = cs\<lparr>c_fs := s\<rparr>;
          (err, sctx, s) \<leftarrow> proc_collect_api os cfg sctx (c_proc cs);
          Some (sctx, cs\<lparr>c_proc := s\<rparr>) }"

text \<open>The push loop, with the number of collectors whose push failed.\<close>

definition push_all :: "collectors \<Rightarrow> tlv_writer option \<Rightarrow> (nat \<times> tlv_writer option \<times> collectors) option" where
  "push_all cs wrt =
     do { (e1, wrt, s) \<leftarrow> cpu_push_api (c_cpu cs) wrt;
          let cs = cs\<lparr>c_cpu := s\<rparr>;
          (e2, wrt, s) \<leftarrow> mem_push_api (c_mem cs) wrt;
          let cs = cs\<lparr>c_mem := s\<rparr>;
          (e3, wrt, s) \<leftarrow> net_push_api (c_net cs) wrt;
          let cs = cs\<lparr>c_net := s\<rparr>;
          (e4, wrt, s) \<leftarrow> disk_push_api (c_disk cs) wrt;
          let cs = cs\<lparr>c_disk := s\<rparr>;
          (e5, wrt, s) \<leftarrow> fs_push_api (c_fs cs) wrt;
          let cs = cs\<lparr>c_fs := s\<rparr>;
          (e6, wrt, s) \<leftarrow> proc_push_api (c_proc cs) wrt;
          Some (length (filter (\<lambda>e. e \<noteq> 0) [e1, e2, e3, e4, e5, e6]), wrt, cs\<lparr>c_proc := s\<rparr>) }"

definition print_all :: "u32 \<Rightarrow> nat \<Rightarrow> collectors \<Rightarrow> string" where
  "print_all timestamp push_errors cs =
     ''[DBG]  ==== tracefox-agent sample @ '' @ show_u (unat timestamp) @ '' (tlv_errors='' @ show_u push_errors @ '') ===='' @ [NEWLINE] @
     cpu_print (c_cpu cs) @ mem_print (c_mem cs) @ net_print (c_net cs) @ disk_print (c_disk cs) @ fs_print (c_fs cs) @
     proc_print (c_proc cs)"

text \<open>The host label TLV of \<^verbatim>\<open>main\<close>; a failure is only logged.\<close>

definition push_label :: "agent_config \<Rightarrow> tlv_writer option \<Rightarrow> tlv_writer option option" where
  "push_label cfg wrt =
     (if cstr (host_label cfg) = [] then Some wrt
      else do {
        let len = length (cstr (host_label cfg));
        let len = (if len > 255 then 255 else len);
        (rc, wrt) \<leftarrow> tlv_put wrt TF_TYPE_HOST_LABEL (Some (map byte_of_char (host_label cfg))) (of_nat len);
        Some wrt })"

text \<open>From the collection to the finished frame in \<^verbatim>\<open>buffer\<close>; \<open>Inl\<close> when \<^verbatim>\<open>tlv_init\<close> refuses.\<close>

definition sample_frame ::
  "os \<Rightarrow> u32 \<Rightarrow> agent_config \<Rightarrow> u32 \<Rightarrow> u8 list \<Rightarrow> collectors \<Rightarrow> (collectors + nat \<times> tlv_writer \<times> collectors) option" where
  "sample_frame os timestamp cfg seq buf cs =
     do { (sctx, cs) \<leftarrow> collect_all os cfg (Some \<lparr>cpu_total_diff = 1\<rparr>) cs;
          (rc, wrt) \<leftarrow> tlv_init (Some \<lparr>buffer = [], wlen = 0, cap = 0\<rparr>) (Some buf) TF_FRAME_BUF_SIZE timestamp seq;
          if rc \<noteq> 0 then Some (Inl cs)
          else do {
            wrt \<leftarrow> push_label cfg wrt;
            (errors, wrt, cs) \<leftarrow> push_all cs wrt;
            w \<leftarrow> wrt;
            Some (Inr (errors, w, cs)) } }"

section \<open>Invariant\<close>

definition collectors_inv :: "collectors \<Rightarrow> bool" where
  "collectors_inv cs \<longleftrightarrow> cpu_inv (c_cpu cs) \<and> net_inv (c_net cs) \<and> disk_inv (c_disk cs) \<and> fs_inv (c_fs cs) \<and> proc_inv (c_proc cs)"

definition collectors_live :: "collectors \<Rightarrow> bool" where
  "collectors_live cs \<longleftrightarrow> cpu_live (c_cpu cs) \<and> c_mem cs \<noteq> None \<and> c_net cs \<noteq> None \<and> c_disk cs \<noteq> None \<and> c_fs cs \<noteq> None \<and> c_proc cs \<noteq> None"

text \<open>The clocks answer with times of their types. (The load averages are not part of this: whether they fit
  is \<open>loads_fit\<close>, a separate condition.)\<close>

definition machine_ok :: "os \<Rightarrow> bool" where
  "machine_ok os \<longleftrightarrow> clock_ok os \<and> times_ok os"

lemma g_collectors_inv: "collectors_inv g_collectors"
  by (simp add: collectors_inv_def g_collectors_def cpu_inv_def net_inv_def disk_inv_def fs_inv_def proc_inv_def)

lemma init_collectors_ok:
  assumes "collectors_inv cs" "wf_config cfg"
  shows "\<exists>rc cs'. init_collectors alloc cfg cs = Some (rc, cs') \<and> collectors_inv cs' \<and>
    (if \<forall>i<6. alloc i then rc = 0 \<and> collectors_live cs' else rc = 1)"
proof -
  have inv: "cpu_inv (c_cpu cs)" "net_inv (c_net cs)" "disk_inv (c_disk cs)" "fs_inv (c_fs cs)" "proc_inv (c_proc cs)"
    using assms(1) by (simp_all add: collectors_inv_def)
  obtain r0 s0 where s0: "cpu_init (alloc 0) cfg (c_cpu cs) = Some (r0, s0)" "cpu_inv s0"
      "if alloc 0 then r0 = 0 \<and> cpu_live s0 else r0 = - 1 \<and> s0 = c_cpu cs"
    using cpu.init_ok [OF inv(1) assms(2)] by blast
  obtain r1 s1 where s1: "mem_init (alloc 1) cfg (c_mem cs) = Some (r1, s1)"
      "if alloc 1 then r1 = 0 \<and> s1 \<noteq> None else r1 = - 1 \<and> s1 = c_mem cs"
    using mem.init_ok [OF _ assms(2)] by blast
  obtain r2 s2 where s2: "net_init (alloc 2) cfg (c_net cs) = Some (r2, s2)" "net_inv s2"
      "if alloc 2 then r2 = 0 \<and> s2 \<noteq> None else r2 = - 1 \<and> s2 = c_net cs"
    using net.init_ok [OF inv(2) assms(2)] by blast
  obtain r3 s3 where s3: "disk_init (alloc 3) cfg (c_disk cs) = Some (r3, s3)" "disk_inv s3"
      "if alloc 3 then r3 = 0 \<and> s3 \<noteq> None else r3 = - 1 \<and> s3 = c_disk cs"
    using disk.init_ok [OF inv(3) assms(2)] by blast
  obtain r4 s4 where s4: "fs_init (alloc 4) cfg (c_fs cs) = Some (r4, s4)" "fs_inv s4"
      "if alloc 4 then r4 = 0 \<and> s4 \<noteq> None else r4 = - 1 \<and> s4 = c_fs cs"
    using fs.init_ok [OF inv(4) assms(2)] by blast
  obtain r5 s5 where s5: "proc_init (alloc 5) cfg (c_proc cs) = Some (r5, s5)" "proc_inv s5"
      "if alloc 5 then r5 = 0 \<and> s5 \<noteq> None else r5 = - 1 \<and> s5 = c_proc cs"
    using proc.init_ok [OF inv(5) assms(2)] by blast
  have all: "(\<forall>i<6. alloc i) \<longleftrightarrow> alloc 0 \<and> alloc 1 \<and> alloc 2 \<and> alloc 3 \<and> alloc 4 \<and> alloc (5 :: nat)"
    by (simp add: numeral_eq_Suc all_less_Suc_conv_split)
  have eq: "init_collectors alloc cfg cs = Some (
      if r0 \<noteq> 0 then (1, cs\<lparr>c_cpu := s0\<rparr>) else if r1 \<noteq> 0 then (1, cs\<lparr>c_cpu := s0, c_mem := s1\<rparr>)
      else if r2 \<noteq> 0 then (1, cs\<lparr>c_cpu := s0, c_mem := s1, c_net := s2\<rparr>)
      else if r3 \<noteq> 0 then (1, cs\<lparr>c_cpu := s0, c_mem := s1, c_net := s2, c_disk := s3\<rparr>)
      else if r4 \<noteq> 0 then (1, cs\<lparr>c_cpu := s0, c_mem := s1, c_net := s2, c_disk := s3, c_fs := s4\<rparr>)
      else (if r5 \<noteq> 0 then 1 else 0, \<lparr>c_cpu = s0, c_mem = s1, c_net = s2, c_disk = s3, c_fs = s4, c_proc = s5\<rparr>))"
    by (simp add: init_collectors_def s0(1) s1(1) s2(1) s3(1) s4(1) s5(1) Let_def del: One_nat_def)
  have rc: "r0 \<noteq> 0 \<longleftrightarrow> \<not> alloc 0" "r1 \<noteq> 0 \<longleftrightarrow> \<not> alloc 1" "r2 \<noteq> 0 \<longleftrightarrow> \<not> alloc 2" "r3 \<noteq> 0 \<longleftrightarrow> \<not> alloc 3"
      "r4 \<noteq> 0 \<longleftrightarrow> \<not> alloc 4" "r5 \<noteq> 0 \<longleftrightarrow> \<not> alloc 5"
    using s0(3) s1(2) s2(3) s3(3) s4(3) s5(3) by (auto split: if_splits)
  show ?thesis
    unfolding eq all rc using inv s0(2,3) s1(2) s2(2,3) s3(2,3) s4(2,3) s5(2,3)
    by (simp add: collectors_inv_def collectors_live_def del: One_nat_def split: if_split)
qed

lemma destroy_collectors_ok:
  "collectors_inv cs \<Longrightarrow> collectors_inv (destroy_collectors cs)"
  using cpu.destroy_ok net.destroy_ok disk.destroy_ok fs.destroy_ok proc.destroy_ok
  unfolding collectors_inv_def destroy_collectors_def by simp metis

lemma collect_all_ok:
  assumes "collectors_inv cs" "wf_config cfg" "machine_ok os" "loads_fit os"
  shows "\<exists>sctx' cs'. collect_all os cfg sctx cs = Some (sctx', cs') \<and> collectors_inv cs' \<and> (collectors_live cs' \<longleftrightarrow> collectors_live cs)"
proof -
  have inv: "cpu_inv (c_cpu cs)" "net_inv (c_net cs)" "disk_inv (c_disk cs)" "fs_inv (c_fs cs)" "proc_inv (c_proc cs)"
    using assms(1) by (simp_all add: collectors_inv_def)
  have ok: "loads_fit os" "clock_ok os" "times_ok os"
    using assms(3,4) by (simp_all add: machine_ok_def)
  obtain r0 x0 s0 where s0: "cpu_collect_api os cfg sctx (c_cpu cs) = Some (r0, x0, s0)" "cpu_inv s0" "cpu_live s0 \<longleftrightarrow> cpu_live (c_cpu cs)"
    using cpu.collect_ok [OF inv(1) assms(2)] by blast
  obtain r1 x1 s1 where s1: "mem_collect_api os cfg x0 (c_mem cs) = Some (r1, x1, s1)" "s1 \<noteq> None \<longleftrightarrow> c_mem cs \<noteq> None"
    using mem.collect_ok [OF TrueI assms(2) ok(1), where sctx = x0] by metis
  obtain r2 x2 s2 where s2: "net_collect_api os cfg x1 (c_net cs) = Some (r2, x2, s2)" "net_inv s2" "s2 \<noteq> None \<longleftrightarrow> c_net cs \<noteq> None"
    using net.collect_ok [OF inv(2) assms(2), where sctx = x1] by metis
  obtain r3 x3 s3 where s3: "disk_collect_api os cfg x2 (c_disk cs) = Some (r3, x3, s3)" "disk_inv s3" "s3 \<noteq> None \<longleftrightarrow> c_disk cs \<noteq> None"
    using disk.collect_ok [OF inv(3) assms(2) ok(2), where sctx = x2] by metis
  obtain r4 x4 s4 where s4: "fs_collect_api os cfg x3 (c_fs cs) = Some (r4, x4, s4)" "fs_inv s4" "s4 \<noteq> None \<longleftrightarrow> c_fs cs \<noteq> None"
    using fs.collect_ok [OF inv(4) assms(2), where sctx = x3] by metis
  obtain r5 x5 s5 where s5: "proc_collect_api os cfg x4 (c_proc cs) = Some (r5, x5, s5)" "proc_inv s5" "s5 \<noteq> None \<longleftrightarrow> c_proc cs \<noteq> None"
    using proc.collect_ok [OF inv(5) assms(2) ok(3), where sctx = x4] by metis
  have "collect_all os cfg sctx cs = Some (x5, \<lparr>c_cpu = s0, c_mem = s1, c_net = s2, c_disk = s3, c_fs = s4, c_proc = s5\<rparr>)"
    by (simp add: collect_all_def s0(1) s1(1) s2(1) s3(1) s4(1) s5(1) Let_def)
  then show ?thesis
    using s0(2,3) s1(2) s2(2,3) s3(2,3) s4(2,3) s5(2,3) by (simp add: collectors_inv_def collectors_live_def)
qed

lemma collect_all_undefined:
  assumes "collectors_live cs" "\<not> loads_fit os"
  shows "collect_all os cfg sctx cs = None"
proof -
  obtain ctx where "c_mem cs = Some ctx" using assms(1) by (auto simp: collectors_live_def)
  then have "mem_collect_api os cfg x (c_mem cs) = None" for x
    using assms(2) mem_collect_undefined [of os cfg ctx] by (auto simp: mem_collect_api_def)
  then show ?thesis
    by (simp add: collect_all_def Let_def split: bind_split)
qed

lemma push_all_ok:
  assumes "collectors_inv cs" "wf_writer w"
  shows "\<exists>n w' cs' ts. push_all cs (Some w) = Some (n, Some w', cs') \<and> collectors_inv cs' \<and>
    (collectors_live cs' \<longleftrightarrow> collectors_live cs) \<and> appends_tlvs w w' ts"
proof -
  have inv: "cpu_inv (c_cpu cs)" "net_inv (c_net cs)" "disk_inv (c_disk cs)" "fs_inv (c_fs cs)" "proc_inv (c_proc cs)"
    using assms(1) by (simp_all add: collectors_inv_def)
  have wf: "appends_tlvs v v' ts \<Longrightarrow> wf_writer v'" for v v' ts
    by (simp add: appends_tlvs_def)
  obtain r0 w0 s0 t0 where s0: "cpu_push_api (c_cpu cs) (Some w) = Some (r0, Some w0, s0)" "cpu_inv s0"
      "cpu_live s0 \<longleftrightarrow> cpu_live (c_cpu cs)" and t0: "appends_tlvs w w0 t0"
    using cpu.push_ok [OF inv(1) assms(2)] by blast
  obtain r1 w1 s1 t1 where s1: "mem_push_api (c_mem cs) (Some w0) = Some (r1, Some w1, s1)" "s1 \<noteq> None \<longleftrightarrow> c_mem cs \<noteq> None"
      and t1: "appends_tlvs w0 w1 t1"
    using mem.push_ok [OF TrueI wf [OF t0]] by blast
  obtain r2 w2 s2 t2 where s2: "net_push_api (c_net cs) (Some w1) = Some (r2, Some w2, s2)" "net_inv s2" "s2 \<noteq> None \<longleftrightarrow> c_net cs \<noteq> None"
      and t2: "appends_tlvs w1 w2 t2"
    using net.push_ok [OF inv(2) wf [OF t1]] by blast
  obtain r3 w3 s3 t3 where s3: "disk_push_api (c_disk cs) (Some w2) = Some (r3, Some w3, s3)" "disk_inv s3" "s3 \<noteq> None \<longleftrightarrow> c_disk cs \<noteq> None"
      and t3: "appends_tlvs w2 w3 t3"
    using disk.push_ok [OF inv(3) wf [OF t2]] by blast
  obtain r4 w4 s4 t4 where s4: "fs_push_api (c_fs cs) (Some w3) = Some (r4, Some w4, s4)" "fs_inv s4" "s4 \<noteq> None \<longleftrightarrow> c_fs cs \<noteq> None"
      and t4: "appends_tlvs w3 w4 t4"
    using fs.push_ok [OF inv(4) wf [OF t3]] by blast
  obtain r5 w5 s5 t5 where s5: "proc_push_api (c_proc cs) (Some w4) = Some (r5, Some w5, s5)" "proc_inv s5" "s5 \<noteq> None \<longleftrightarrow> c_proc cs \<noteq> None"
      and t5: "appends_tlvs w4 w5 t5"
    using proc.push_ok [OF inv(5) wf [OF t4]] by blast
  have "push_all cs (Some w) = Some (length (filter (\<lambda>e. e \<noteq> 0) [r0, r1, r2, r3, r4, r5]), Some w5,
      \<lparr>c_cpu = s0, c_mem = s1, c_net = s2, c_disk = s3, c_fs = s4, c_proc = s5\<rparr>)"
    by (simp add: push_all_def s0(1) s1(1) s2(1) s3(1) s4(1) s5(1) Let_def)
  moreover have "appends_tlvs w w5 (t0 @ t1 @ t2 @ t3 @ t4 @ t5)"
    using t0 t1 t2 t3 t4 t5 by (intro appends_trans)
  ultimately show ?thesis
    using s0(2,3) s1(2) s2(2,3) s3(2,3) s4(2,3) s5(2,3) by (auto simp: collectors_inv_def collectors_live_def)
qed

text \<open>The label is the first TLV of the frame; there is always room for it behind the header.\<close>

definition label_tlvs :: "agent_config \<Rightarrow> tlv list" where
  "label_tlvs cfg = (if cstr (host_label cfg) = [] then [] else [(TF_TYPE_HOST_LABEL, map byte_of_char (cstr (host_label cfg)))])"

lemma push_label_ok:
  assumes "wf_config cfg" "wf_writer w" "wlen w + 66 \<le> cap w"
  shows "\<exists>w'. push_label cfg (Some w) = Some (Some w') \<and> appends_tlvs w w' (label_tlvs cfg)"
proof (cases "cstr (host_label cfg) = []")
  case True
  then show ?thesis using assms(2) by (simp add: push_label_def label_tlvs_def appends_nothing)
next
  case False
  let ?l = "cstr (host_label cfg)"
  have t: "terminated 64 (host_label cfg)" using assms(1) by (simp add: wf_config_def)
  then have len: "length ?l < 64" by (rule cstr_terminated)
  have "take (length ?l) (host_label cfg) = ?l"
    unfolding cstr_def by (rule takeWhile_eq_take [symmetric])
  then have cut: "take (length ?l) (map byte_of_char (host_label cfg)) = map byte_of_char ?l"
    by (simp add: take_map)
  have n: "unat (of_nat (length ?l) :: u8) = length ?l"
    using len by (simp add: unat_of_nat_u8)
  obtain w' where "tlv_put (Some w) 3 (Some (map byte_of_char (host_label cfg))) (of_nat (length ?l)) = Some (0, Some w')"
      "appends_tlvs w w' [(3, map byte_of_char ?l)]"
    using tlv_put_room [of w "of_nat (length ?l)" "map byte_of_char (host_label cfg)" 3] assms(2,3) len t cut n
    by (auto simp: terminated_def)
  then show ?thesis using False len by (simp add: push_label_def label_tlvs_def)
qed

lemma sample_frame_undefined: "collectors_live cs \<Longrightarrow> \<not> loads_fit os \<Longrightarrow> sample_frame os ts cfg seq buf cs = None"
  by (simp add: sample_frame_def collect_all_undefined)

lemma sample_frame_ok:
  assumes "collectors_inv cs" "wf_config cfg" "machine_ok os" "loads_fit os" "length buf = TF_FRAME_BUF_SIZE"
  shows "\<exists>n w cs' tlvs. sample_frame os ts cfg seq buf cs = Some (Inr (n, w, cs')) \<and> collectors_inv cs' \<and>
    (collectors_live cs' \<longleftrightarrow> collectors_live cs) \<and> wf_writer w \<and> cap w = TF_FRAME_BUF_SIZE \<and>
    frame w = encode_header ts seq @ encode_tlvs (label_tlvs cfg @ tlvs) \<and> list_all valid_tlv (label_tlvs cfg @ tlvs)"
proof -
  obtain x cs1 where c: "collect_all os cfg (Some \<lparr>cpu_total_diff = 1\<rparr>) cs = Some (x, cs1)" "collectors_inv cs1"
      "collectors_live cs1 \<longleftrightarrow> collectors_live cs"
    using collect_all_ok [OF assms(1-4)] by blast
  let ?w0 = "\<lparr>buffer = buf, wlen = 0, cap = 1400\<rparr>"
  let ?w = "Tlv.extend ?w0 (encode_header ts seq)"
  have init: "tlv_init (Some \<lparr>buffer = [], wlen = 0, cap = 0\<rparr>) (Some buf) 1400 ts seq = Some (0, Some ?w)"
    using assms(5) by (simp add: tlv_init_eq)
  have w: "wf_writer ?w" "cap ?w = 1400" "wlen ?w = 12" "frame ?w = encode_header ts seq"
    using assms(5) by (simp_all add: wf_writer_extend wf_writer_def frame_extend) (simp add: frame_def)
  obtain w1 where l: "push_label cfg (Some ?w) = Some (Some w1)" "appends_tlvs ?w w1 (label_tlvs cfg)"
    using push_label_ok [OF assms(2) w(1)] w(2,3) by auto
  then have "wf_writer w1" by (simp add: appends_tlvs_def)
  then obtain n w2 cs2 tlvs where p: "push_all cs1 (Some w1) = Some (n, Some w2, cs2)" "collectors_inv cs2"
      "collectors_live cs2 \<longleftrightarrow> collectors_live cs1" "appends_tlvs w1 w2 tlvs"
    using push_all_ok [OF c(2)] by blast
  have "appends_tlvs ?w w2 (label_tlvs cfg @ tlvs)"
    using l(2) p(4) by (rule appends_trans)
  moreover have "sample_frame os ts cfg seq buf cs = Some (Inr (n, w2, cs2))"
    using c(1) init l(1) p(1) by (simp add: sample_frame_def)
  ultimately show ?thesis
    using c(3) p(2,3) w by (auto simp: appends_tlvs_def)
qed

end
