(* ===== verification/Protocol.thy ===== *)
theory Protocol
  imports Sampling
begin

text \<open>
  The receiver: \<^verbatim>\<open>parse_frame\<close> of \<^verbatim>\<open>server/tracefox_protocol.py\<close>, and the proof that it reads what the
  collectors encode. Integers of the decoded dictionary are \<open>nat\<close>; where the parser divides by
  \<^verbatim>\<open>10.0\<close> or \<^verbatim>\<open>100.0\<close> the model keeps the number before the division. An empty dictionary is
  \<open>None\<close>, an absent key \<open>None\<close> or, for the thread groups, the empty list.

  Every entry of a payload is a record of fixed width; the locale \<open>fixed_codec\<close> is the contract
  between an encoder in C and its decoder in Python, and each pair is an instance of it.
\<close>

section \<open>The parser\<close>

definition be_nat :: "u8 list \<Rightarrow> nat" where
  "be_nat bs = foldl (\<lambda>n b. 256 * n + unat b) 0 bs"

definition slice :: "u8 list \<Rightarrow> nat \<Rightarrow> nat \<Rightarrow> u8 list" where
  "slice bs p n = take n (drop p bs)"

text \<open>\<^verbatim>\<open>decode("ascii", "ignore")\<close>, with and without the cut at the first NUL.\<close>

definition py_ascii :: "u8 list \<Rightarrow> string" where
  "py_ascii bs = map char_of_byte (filter (\<lambda>b. unat b < 128) bs)"

definition py_name :: "u8 list \<Rightarrow> string" where
  "py_name bs = py_ascii (takeWhile (\<lambda>b. b \<noteq> 0) bs)"

definition py_space :: "char \<Rightarrow> bool" where
  "py_space c \<longleftrightarrow> (let n = (of_char c :: nat) in n = 32 \<or> 9 \<le> n \<and> n \<le> 13 \<or> 28 \<le> n \<and> n \<le> 31)"

definition py_strip :: "string \<Rightarrow> string" where
  "py_strip s = rev (dropWhile py_space (rev (dropWhile py_space s)))"

text \<open>\<^verbatim>\<open>for _ in range(count): if p + w > len(val): break; ...; p += w\<close>\<close>

fun py_entries :: "nat \<Rightarrow> (u8 list \<Rightarrow> 'b) \<Rightarrow> nat \<Rightarrow> u8 list \<Rightarrow> 'b list" where
  "py_entries w dec 0 rest = []"
| "py_entries w dec (Suc n) rest = (if w > length rest then [] else dec (take w rest) # py_entries w dec n (drop w rest))"

type_synonym py_net = "string \<times> nat \<times> nat"

definition py_net_entry :: "u8 list \<Rightarrow> py_net" where
  "py_net_entry e = (py_name (slice e 0 8), be_nat (slice e 8 8), be_nat (slice e 16 8))"

text \<open>A disk: name, the six cumulative counters, the two rates and the utilisation.\<close>

type_synonym py_disk = "string \<times> nat list \<times> nat \<times> nat \<times> nat"

definition py_disk_long :: "u8 list \<Rightarrow> py_disk" where
  "py_disk_long e = (py_name (slice e 0 8),
     [be_nat (slice e 8 8), be_nat (slice e 16 8), be_nat (slice e 24 8), be_nat (slice e 32 8), be_nat (slice e 40 8), be_nat (slice e 48 8)],
     be_nat (slice e 56 4), be_nat (slice e 60 4), be_nat (slice e 64 2))"

definition py_disk_short :: "u8 list \<Rightarrow> py_disk" where
  "py_disk_short e = (py_name (slice e 0 8),
     [be_nat (slice e 8 4), be_nat (slice e 12 4), be_nat (slice e 16 4), be_nat (slice e 20 4), be_nat (slice e 24 4), be_nat (slice e 28 4)],
     be_nat (slice e 32 4), be_nat (slice e 36 4), be_nat (slice e 40 2))"

text \<open>The loop over the entries of disks and of file systems, which have a long and a short format.\<close>

fun py_entries2 :: "nat \<Rightarrow> nat \<Rightarrow> (u8 list \<Rightarrow> 'b) \<Rightarrow> nat \<Rightarrow> (u8 list \<Rightarrow> 'b) \<Rightarrow> nat \<Rightarrow> u8 list \<Rightarrow> 'b list" where
  "py_entries2 esize w dec v dec' 0 rest = []"
| "py_entries2 esize w dec v dec' (Suc n) rest =
     (if esize \<ge> w \<and> w \<le> length rest then dec (take w rest) # py_entries2 esize w dec v dec' n (drop w rest)
      else if v \<le> length rest then dec' (take v rest) # py_entries2 esize w dec v dec' n (drop v rest)
      else [])"

definition entry_size :: "u8 list \<Rightarrow> nat" where
  "entry_size body = (let count = unat (hd body) in if count > 0 then (length body - 1) div count else 0)"

type_synonym py_fs = "string \<times> nat \<times> nat"

definition py_fs_long :: "u8 list \<Rightarrow> py_fs" where
  "py_fs_long e = (py_name (slice e 0 16), be_nat (slice e 16 8), be_nat (slice e 24 2))"

definition py_fs_short :: "u8 list \<Rightarrow> py_fs" where
  "py_fs_short e = (py_name (slice e 0 16), be_nat (slice e 16 4), be_nat (slice e 20 2))"

text \<open>A process group: name, instances, CPU, memory. A thread: name, instances, CPU, pid, tid.\<close>

type_synonym py_group = "string \<times> nat \<times> nat \<times> nat"
type_synonym py_thread = "string \<times> nat \<times> nat \<times> nat \<times> nat"

definition py_proc_group :: "u8 list \<Rightarrow> py_group" where
  "py_proc_group e = (py_name (slice e 0 16), be_nat (slice e 16 2), be_nat (slice e 18 2), be_nat (slice e 20 4))"

definition py_thread_top :: "u8 list \<Rightarrow> py_thread" where
  "py_thread_top e = (py_name (slice e 0 16), be_nat (slice e 16 2), be_nat (slice e 18 2), be_nat (slice e 20 4), be_nat (slice e 24 4))"

record py_threads =
  t_name :: string
  t_total :: nat
  t_include_tid :: bool
  t_truncated :: bool
  t_states :: "nat list"
  t_top :: "py_thread list"

definition py_thread_group :: "u8 list \<Rightarrow> py_threads" where
  "py_thread_group body =
     \<lparr>t_name = py_name (slice body 0 16), t_total = be_nat (slice body 16 2), t_include_tid = (body ! 18 AND 1 \<noteq> 0),
      t_truncated = (body ! 18 AND 2 \<noteq> 0), t_states = map (\<lambda>i. be_nat (slice body (19 + 2 * i) 2)) [0..<7],
      t_top = py_entries 28 py_thread_top (unat (body ! 33)) (drop 34 body)\<rparr>"

record py_frame =
  r_ts :: nat
  r_seq :: nat
  r_cpu :: "nat list option"
  r_mem :: "(nat \<times> nat \<times> nat \<times> nat) option"
  r_load :: "(nat \<times> nat \<times> nat) option"
  r_label :: "string option"
  r_net :: "py_net list option"
  r_disk :: "py_disk list option"
  r_fs :: "py_fs list option"
  r_proc :: "py_group list option"
  r_threads :: "py_threads list"

text \<open>One TLV: \<^verbatim>\<open>t\<close> and \<^verbatim>\<open>val\<close>, whose length is the length byte.\<close>

definition py_tlv :: "u8 \<Rightarrow> u8 list \<Rightarrow> py_frame \<Rightarrow> py_frame" where
  "py_tlv t body r =
     (if t = TF_TYPE_CPU \<and> length body = 10 then
        r\<lparr>r_cpu := Some [be_nat (slice body 0 2), be_nat (slice body 2 2), be_nat (slice body 4 2), be_nat (slice body 6 2), be_nat (slice body 8 2)]\<rparr>
      else if t = TF_TYPE_MEM \<and> length body = 18 then
        (let mem_total = be_nat (slice body 0 4); mem_free = be_nat (slice body 4 4);
             used = (if mem_total \<ge> mem_free then mem_total - mem_free else 0)
         in r\<lparr>r_mem := Some (mem_total, mem_free, be_nat (slice body 8 4), used),
              r_load := Some (be_nat (slice body 12 2), be_nat (slice body 14 2), be_nat (slice body 16 2))\<rparr>)
      else if t = TF_TYPE_HOST_LABEL \<and> length body \<ge> 1 then r\<lparr>r_label := Some (py_strip (py_ascii body))\<rparr>
      else if t = TF_TYPE_NET \<and> length body \<ge> 1 then r\<lparr>r_net := Some (py_entries 24 py_net_entry (unat (hd body)) (tl body))\<rparr>
      else if t = TF_TYPE_DISK \<and> length body \<ge> 1 then
        r\<lparr>r_disk := Some (py_entries2 (entry_size body) 66 py_disk_long 42 py_disk_short (unat (hd body)) (tl body))\<rparr>
      else if t = TF_TYPE_FS \<and> length body \<ge> 1 then
        r\<lparr>r_fs := Some (py_entries2 (entry_size body) 26 py_fs_long 22 py_fs_short (unat (hd body)) (tl body))\<rparr>
      else if t = TF_TYPE_PROC \<and> length body \<ge> 1 then r\<lparr>r_proc := Some (py_entries 24 py_proc_group (unat (hd body)) (tl body))\<rparr>
      else if t = TF_TYPE_THREAD \<and> length body \<ge> 34 then r\<lparr>r_threads := r_threads r @ [py_thread_group body]\<rparr>
      else r)"

function parse_tlv_entries :: "u8 list \<Rightarrow> py_frame \<Rightarrow> py_frame" where
  "parse_tlv_entries rest r =
     (case rest of
        t # len # body \<Rightarrow>
          if unat len > length body then r
          else parse_tlv_entries (drop (unat len) body) (py_tlv t (take (unat len) body) r)
      | _ \<Rightarrow> r)"
  by pat_completeness auto
termination
  by (relation "measure (\<lambda>(rest, r). length rest)") auto

declare parse_tlv_entries.simps [simp del]

definition py_empty :: "nat \<Rightarrow> nat \<Rightarrow> py_frame" where
  "py_empty ts seq = \<lparr>r_ts = ts, r_seq = seq, r_cpu = None, r_mem = None, r_load = None, r_label = None, r_net = None,
     r_disk = None, r_fs = None, r_proc = None, r_threads = []\<rparr>"

definition parse_frame :: "u8 list \<Rightarrow> py_frame option" where
  "parse_frame payload =
     (if length payload < 12 then None
      else if be_nat (slice payload 0 2) \<noteq> unat TF_MAGIC \<or> payload ! 2 \<noteq> TF_VERSION then None
      else Some (parse_tlv_entries (drop 12 payload) (py_empty (be_nat (slice payload 4 4)) (be_nat (slice payload 8 4)))))"

section \<open>Codecs\<close>

locale fixed_codec =
  fixes enc :: "'a \<Rightarrow> u8 list" and dec :: "u8 list \<Rightarrow> 'b" and view :: "'a \<Rightarrow> 'b" and width :: nat and ok :: "'a \<Rightarrow> bool"
  assumes length_enc: "ok x \<Longrightarrow> length (enc x) = width"
    and dec_enc: "ok x \<Longrightarrow> dec (enc x) = view x"
    and width_pos: "0 < width"
begin

lemma entries:
  assumes "list_all ok xs"
  shows "py_entries width dec (length xs) (concat (map enc xs) @ r) = map view xs"
  using assms by (induction xs) (auto simp: length_enc dec_enc)

lemma entries2:
  assumes "list_all ok xs" "width \<le> esize"
  shows "py_entries2 esize width dec v dec' (length xs) (concat (map enc xs) @ r) = map view xs"
  using assms by (induction xs) (auto simp: length_enc dec_enc)

lemma length_entries: "list_all ok xs \<Longrightarrow> length (concat (map enc xs)) = width * length xs"
  by (intro length_concat_const) (auto simp: length_enc list_all_iff)

end

lemma be_nat_digits:
  "foldl (\<lambda>n b. 256 * n + b) (n div 256 ^ k) (map (\<lambda>i. n div 256 ^ i mod 256) (rev [0..<k])) = (n :: nat)"
proof (induction k)
  case (Suc k)
  have "256 * (n div 256 ^ Suc k) + n div 256 ^ k mod 256 = n div 256 ^ k"
    by (metis div_mult2_eq mult.commute mult_div_mod_eq power_Suc)
  then show ?case using Suc by simp
qed simp

lemma be_nat_u16: "be_nat (buf_put_be_u16 [] v) = unat v"
  using be_nat_digits [of "unat v" 2] unat_u16_lt [of v]
  by (simp add: be_nat_def buf_put_be_u16_def width_simps upt_rec [of _ 2] del: unat_u16_lt)

lemma be_nat_u32: "be_nat (buf_put_be_u32 [] v) = unat v"
  using be_nat_digits [of "unat v" 4] unat_u32_lt [of v]
  by (simp add: be_nat_def buf_put_be_u32_def width_simps upt_rec [of _ 4] del: unat_u32_lt)

lemma be_nat_u64: "be_nat (buf_put_be_u64 [] v) = unat v"
  using be_nat_digits [of "unat v" 8] unat_u64_lt [of v]
  by (simp add: be_nat_def buf_put_be_u64_def width_simps upt_rec [of _ 8] del: unat_u64_lt)

subsection \<open>Fields\<close>

definition be16 :: "u16 \<Rightarrow> u8 list" where "be16 v = buf_put_be_u16 [] v"
definition be32 :: "u32 \<Rightarrow> u8 list" where "be32 v = buf_put_be_u32 [] v"
definition be64 :: "u64 \<Rightarrow> u8 list" where "be64 v = buf_put_be_u64 [] v"

named_theorems wire_simps "payload bytes as a concatenation of fields, and slices of it"

lemma buf_put_wire [wire_simps]:
  "buf_put_be_u16 c v = c @ be16 v" "buf_put_be_u32 c w = c @ be32 w" "buf_put_be_u64 c d = c @ be64 d"
  by (simp_all add: be16_def be32_def be64_def buf_put_be_u16_def buf_put_be_u32_def buf_put_be_u64_def)

lemma length_wire [simp, wire_simps]: "length (be16 v) = 2" "length (be32 w) = 4" "length (be64 d) = 8"
  by (simp_all add: be16_def be32_def be64_def)

lemma be_nat_wire [simp, wire_simps]: "be_nat (be16 v) = unat v" "be_nat (be32 w) = unat w" "be_nat (be64 d) = unat d"
  by (simp_all add: be16_def be32_def be64_def be_nat_u16 be_nat_u32 be_nat_u64)

lemma slice_skip [wire_simps]: "length a \<le> p \<Longrightarrow> slice (a @ b) p n = slice b (p - length a) n"
  by (simp add: slice_def)

lemma slice_here [wire_simps]: "length a = n \<Longrightarrow> slice (a @ b) 0 n = a" "length a = n \<Longrightarrow> slice a 0 n = a"
  by (simp_all add: slice_def)

interpretation be16: fixed_codec be16 be_nat unat 2 "\<lambda>_. True"
  by unfold_locales simp_all

interpretation be32: fixed_codec be32 be_nat unat 4 "\<lambda>_. True"
  by unfold_locales simp_all

interpretation be64: fixed_codec be64 be_nat unat 8 "\<lambda>_. True"
  by unfold_locales simp_all

definition ascii :: "string \<Rightarrow> string" where
  "ascii s = filter (\<lambda>c. of_char c < (128 :: nat)) s"

lemma unat_byte_of_char: "unat (byte_of_char c) = of_char c"
  by (simp add: byte_of_char_def unat_of_nat_u8)

lemma py_ascii_bytes: "py_ascii (map byte_of_char s) = ascii s"
  by (induction s) (simp_all add: py_ascii_def ascii_def unat_byte_of_char)

lemma py_name_bytes [wire_simps]: "py_name (map byte_of_char s) = ascii (cstr s)"
proof -
  have "takeWhile (\<lambda>b. b \<noteq> 0) (map byte_of_char s) = map byte_of_char (cstr s)"
    by (induction s) (auto simp: cstr_def byte_of_char_0_iff)
  then show ?thesis by (simp add: py_name_def py_ascii_bytes)
qed

subsection \<open>Entries\<close>

definition net_view :: "net_entry \<Rightarrow> py_net" where
  "net_view e = (ascii (cstr (net_name e)), unat (rx_bytes e), unat (tx_bytes e))"

lemma cstr_name_field:
  assumes "terminated (Suc n) name"
  shows "cstr (strncpy (replicate (Suc n) NUL) name n) = cstr name"
proof -
  have "cstr (strncpy (replicate (Suc n) NUL) name n) = take n (cstr name)"
    by (rule cstr_strncpy) (simp_all del: replicate_Suc)
  then show ?thesis using cstr_terminated [OF assms] by simp
qed

interpretation net_wire: fixed_codec net_entry_bytes py_net_entry net_view 24 "\<lambda>e. terminated TF_NET_NAME_SIZE (net_name e)"
proof unfold_locales
  fix e :: net_entry assume "terminated TF_NET_NAME_SIZE (net_name e)"
  then show "py_net_entry (net_entry_bytes e) = net_view e"
    using cstr_name_field [of 7 "net_name e"] by (simp add: py_net_entry_def net_entry_bytes_def net_view_def Let_def wire_simps)
qed simp_all

definition disk_view :: "disk_entry \<Rightarrow> py_disk" where
  "disk_view e = (ascii (cstr (disk_name e)),
     map unat [reads_completed e, writes_completed e, sectors_read e, sectors_written e, read_ms e, write_ms e],
     unat (read_iops_delta e), unat (write_iops_delta e), unat (io_util_pct_x10 e))"

interpretation disk_wire: fixed_codec disk_entry_bytes py_disk_long disk_view 66 disk_entry_inv
proof unfold_locales
  fix e :: disk_entry assume "disk_entry_inv e"
  then show "py_disk_long (disk_entry_bytes e) = disk_view e"
    using cstr_name_field [of 7 "disk_name e"]
    by (simp add: disk_entry_inv_def py_disk_long_def disk_entry_bytes_def disk_view_def Let_def wire_simps)
qed simp_all

definition fs_view :: "fs_entry \<Rightarrow> py_fs" where
  "fs_view e = (ascii (cstr (fs_mount e)), unat (fs_total_kb e), unat (fs_used_pct_x10 e))"

interpretation fs_wire: fixed_codec fs_entry_bytes py_fs_long fs_view 26 fs_entry_inv
proof unfold_locales
  fix e :: fs_entry assume "fs_entry_inv e"
  then show "py_fs_long (fs_entry_bytes e) = fs_view e"
    using cstr_name_field [of 15 "fs_mount e"]
    by (simp add: fs_entry_inv_def py_fs_long_def fs_entry_bytes_def fs_view_def Let_def wire_simps)
qed simp_all

definition group_view :: "proc_group_entry \<Rightarrow> py_group" where
  "group_view g = (ascii (cstr (pg_name g)), unat (pg_inst_count g), unat (pg_cpu_pct_x10 g), unat (pg_rss_kb_sum g))"

interpretation group_wire: fixed_codec proc_group_bytes py_proc_group group_view 24 "\<lambda>g. terminated TF_PROC_NAME_SIZE (pg_name g)"
proof unfold_locales
  fix g :: proc_group_entry assume "terminated TF_PROC_NAME_SIZE (pg_name g)"
  then have "length (pg_name g) = 16" by (simp add: terminated_def)
  then show "length (proc_group_bytes g) = 24" "py_proc_group (proc_group_bytes g) = group_view g"
    by (simp_all add: py_proc_group_def proc_group_bytes_def group_view_def Let_def wire_simps)
qed simp_all

definition thread_view :: "thread_top_entry \<Rightarrow> py_thread" where
  "thread_view e = (ascii (cstr (te_name e)), unat (te_inst_count e), unat (te_cpu_pct_x10 e), unat (te_pid e), unat (te_tid e))"

interpretation thread_wire: fixed_codec thread_top_bytes py_thread_top thread_view 28 "\<lambda>e. terminated TF_PROC_NAME_SIZE (te_name e)"
proof unfold_locales
  fix e :: thread_top_entry assume "terminated TF_PROC_NAME_SIZE (te_name e)"
  then have "length (te_name e) = 16" by (simp add: terminated_def)
  then show "length (thread_top_bytes e) = 28" "py_thread_top (thread_top_bytes e) = thread_view e"
    by (simp_all add: py_thread_top_def thread_top_bytes_def thread_view_def Let_def wire_simps)
qed simp_all

text \<open>What the receiver shows of a group when \<open>emit\<close> of its threads were sent with \<open>flags\<close>.\<close>

definition threads_view :: "thread_group_entry \<Rightarrow> u8 \<Rightarrow> nat \<Rightarrow> py_threads" where
  "threads_view g flags emit =
     \<lparr>t_name = ascii (cstr (tg_name g)), t_total = unat (tg_total_threads g), t_include_tid = (flags AND 1 \<noteq> 0),
      t_truncated = (flags AND 2 \<noteq> 0), t_states = map unat (tg_state_counts g), t_top = map thread_view (take emit (tg_top g))\<rparr>"

lemma foldl_be16: "foldl buf_put_be_u16 c vs = c @ concat (map be16 vs)"
  by (induction vs arbitrary: c) (simp_all add: wire_simps)

lemma slice_Cons [wire_simps]: "0 < p \<Longrightarrow> slice (x # b) p n = slice b (p - 1) n"
  by (cases p) (simp_all add: slice_def)

lemma thread_group_decodes:
  assumes "thread_group_inv g" "emit \<le> TF_MAX_THREAD_TOP_N"
  shows "py_thread_group (thread_payload_bytes g flags emit) = threads_view g flags emit"
proof -
  let ?name = "map byte_of_char (tg_name g)" and ?tops = "take emit (tg_top g)"
  have name: "length ?name = 16" and tops: "list_all (\<lambda>e. terminated TF_PROC_NAME_SIZE (te_name e)) ?tops" "length ?tops = emit"
    using assms by (auto simp: thread_group_inv_def terminated_def list_all_iff dest: in_set_takeD)
  obtain c0 c1 c2 c3 c4 c5 c6 where c: "tg_state_counts g = [c0, c1, c2, c3, c4, c5, c6]"
    using assms(1) by (auto simp: thread_group_inv_def numeral_eq_Suc length_Suc_conv)
  define head where "head = ?name @ be16 (tg_total_threads g)"
  define counts where "counts = be16 c0 @ be16 c1 @ be16 c2 @ be16 c3 @ be16 c4 @ be16 c5 @ be16 c6"
  have len: "length head = 18" "length counts = 14" using name by (simp_all add: head_def counts_def)
  have body: "thread_payload_bytes g flags emit = head @ flags # counts @ of_nat emit # concat (map thread_top_bytes ?tops)"
    by (simp add: thread_payload_bytes_def Let_def foldl_be16 c head_def counts_def wire_simps)
  have emit: "unat (of_nat emit :: u8) = emit" using assms(2) by (simp add: unat_of_nat_u8)
  have "map (\<lambda>i. be_nat (slice (head @ flags # counts @ r) (19 + 2 * i) 2)) [0..<7] = map unat (tg_state_counts g)" for r
    by (simp add: c len wire_simps upt_rec [of _ 7] counts_def)
  moreover have "py_entries 28 py_thread_top emit (concat (map thread_top_bytes ?tops)) = map thread_view ?tops"
    using thread_wire.entries [OF tops(1), of "[]"] tops(2) by simp
  moreover have "py_name (slice (head @ r) 0 16) = ascii (cstr (tg_name g))" "be_nat (slice (head @ r) 16 2) = unat (tg_total_threads g)" for r
    using name by (simp_all add: head_def wire_simps)
  ultimately show ?thesis
    unfolding py_thread_group_def threads_view_def body by (simp add: len nth_append emit)
qed

section \<open>Frames\<close>

lemma parse_tlv_entries_encoded:
  "list_all valid_tlv ts \<Longrightarrow> parse_tlv_entries (encode_tlvs ts) r = foldl (\<lambda>r (t, v). py_tlv t v r) r ts"
proof (induction ts arbitrary: r)
  case Nil
  then show ?case by (simp add: parse_tlv_entries.simps)
next
  case (Cons tv ts)
  obtain t v where tv: "tv = (t, v)" by force
  have "unat (of_nat (length v) :: u8) = length v"
    using Cons.prems tv by (simp add: valid_tlv_def unat_of_nat_u8)
  then show ?case
    using Cons tv by (subst parse_tlv_entries.simps) (simp add: encode_tlv_def)
qed

lemma parse_frame_encoded:
  assumes "list_all valid_tlv tlvs"
  shows "parse_frame (encode_header ts seq @ encode_tlvs tlvs) =
    Some (foldl (\<lambda>r (t, v). py_tlv t v r) (py_empty (unat ts) (unat seq)) tlvs)"
proof -
  have h: "encode_header ts seq = be16 TF_MAGIC @ [TF_VERSION, 0] @ be32 ts @ be32 seq"
    by (simp add: encode_header_def wire_simps)
  have f: "be_nat (slice (encode_header ts seq @ r) 0 2) = unat TF_MAGIC" "(encode_header ts seq @ r) ! 2 = TF_VERSION"
      "be_nat (slice (encode_header ts seq @ r) 4 4) = unat ts" "be_nat (slice (encode_header ts seq @ r) 8 4) = unat seq" for r
    unfolding h by (simp_all add: wire_simps nth_append)
  have "\<not> length (encode_header ts seq @ r) < 12" "drop 12 (encode_header ts seq @ r) = r" for r
    by simp_all
  then show ?thesis
    by (simp only: parse_frame_def f if_False simp_thms parse_tlv_entries_encoded [OF assms])
qed

section \<open>The TLVs of the collectors\<close>

definition cpu_tlvs :: "cpu_col \<Rightarrow> tlv list" where
  "cpu_tlvs col = (case cpu_ctx_ptr col of None \<Rightarrow> [] | Some ctx \<Rightarrow> [(TF_TYPE_CPU, cpu_payload_bytes (cpu_last_payload ctx))])"

definition mem_tlvs :: "mem_col \<Rightarrow> tlv list" where
  "mem_tlvs col = (case col of None \<Rightarrow> [] | Some ctx \<Rightarrow> [(TF_TYPE_MEM, mem_payload_bytes ctx)])"

definition net_payload :: "net_ctx \<Rightarrow> u8 list" where
  "net_payload ctx = of_nat (net_count ctx) # concat (map net_entry_bytes (take (net_count ctx) (net_entries ctx)))"

definition net_tlvs :: "net_col \<Rightarrow> tlv list" where
  "net_tlvs col = (case col of None \<Rightarrow> [] | Some ctx \<Rightarrow> if net_count ctx = 0 then [] else [(TF_TYPE_NET, net_payload ctx)])"

text \<open>The length byte of disks and file systems wraps, and the payload is cut accordingly.\<close>

definition disk_tlvs :: "disk_col \<Rightarrow> tlv list" where
  "disk_tlvs col = (case col of None \<Rightarrow> [] | Some ctx \<Rightarrow>
     if disk_count ctx = 0 then [] else [(TF_TYPE_DISK, take (length (disk_payload ctx) mod 256) (disk_payload ctx))])"

definition fs_tlvs :: "fs_col \<Rightarrow> tlv list" where
  "fs_tlvs col = (case col of None \<Rightarrow> [] | Some ctx \<Rightarrow>
     if fs_count ctx = 0 then [] else [(TF_TYPE_FS, take (length (fs_payload ctx) mod 256) (fs_payload ctx))])"

text \<open>The thread groups and how many threads each of them has; \<open>room\<close> is the space left for the process and
  thread TLVs.\<close>

definition payload_groups :: "proc_ctx \<Rightarrow> thread_group_entry list" where
  "payload_groups ctx = take (unat (th_group_count (last_thread_payload ctx))) (th_groups (last_thread_payload ctx))"

definition thread_counts :: "proc_ctx \<Rightarrow> nat list" where
  "thread_counts ctx = map (\<lambda>g. unat (tg_top_count g)) (payload_groups ctx)"

definition proc_tlvs :: "nat \<Rightarrow> proc_col \<Rightarrow> tlv list" where
  "proc_tlvs room col = (case col of None \<Rightarrow> [] | Some ctx \<Rightarrow>
     if disabled ctx then []
     else (TF_TYPE_PROC, proc_payload_bytes (last_payload ctx)) #
       (if ctx_thread_mode ctx = TF_THREAD_MODE_OFF then []
        else map2 thread_tlv (payload_groups ctx) (thread_fill (room - (2 + length (proc_payload_bytes (last_payload ctx)))) (thread_counts ctx))))"

text \<open>What is sent before the processes.\<close>

definition system_tlvs :: "collectors \<Rightarrow> tlv list" where
  "system_tlvs cs = cpu_tlvs (c_cpu cs) @ mem_tlvs (c_mem cs) @ net_tlvs (c_net cs) @ disk_tlvs (c_disk cs) @ fs_tlvs (c_fs cs)"

lemma tlv_put_whole:
  assumes "wf_writer w" "wlen w + 257 \<le> cap w" "length v < 256" "n = of_nat (length v)"
  obtains w' where "tlv_put (Some w) t (Some v) n = Some (0, Some w')" "appends_tlvs w w' [(t, v)]"
  using tlv_put_payload_room [OF assms(1,2), of t v] assms(3,4) by auto

lemma cpu_push_tlvs:
  assumes "cpu_live col" "wf_writer w" "wlen w + 257 \<le> cap w"
  shows "\<exists>w'. cpu_push_api col (Some w) = Some (0, Some w', col) \<and> appends_tlvs w w' (cpu_tlvs col) \<and> length (encode_tlvs (cpu_tlvs col)) \<le> 12"
proof -
  obtain ctx where ctx: "cpu_ctx_ptr col = Some ctx" using assms(1) by (auto simp: cpu_live_def)
  let ?p = "cpu_payload_bytes (cpu_last_payload ctx)"
  obtain w' where "tlv_put (Some w) TF_TYPE_CPU (Some ?p) (of_nat (length ?p)) = Some (0, Some w')" "appends_tlvs w w' [(TF_TYPE_CPU, ?p)]"
    using tlv_put_whole [OF assms(2,3), of ?p] by auto
  then show ?thesis using ctx by (simp add: cpu_push_api_def cpu_push_def cpu_tlvs_def)
qed

lemma mem_push_tlvs:
  assumes "col \<noteq> None" "wf_writer w" "wlen w + 257 \<le> cap w"
  shows "\<exists>w'. mem_push_api col (Some w) = Some (0, Some w', col) \<and> appends_tlvs w w' (mem_tlvs col) \<and> length (encode_tlvs (mem_tlvs col)) \<le> 20"
proof -
  obtain ctx where ctx: "col = Some ctx" using assms(1) by blast
  let ?p = "mem_payload_bytes ctx"
  obtain w' where "tlv_put (Some w) TF_TYPE_MEM (Some ?p) (of_nat (length ?p)) = Some (0, Some w')" "appends_tlvs w w' [(TF_TYPE_MEM, ?p)]"
    using tlv_put_whole [OF assms(2,3), of ?p] by auto
  then show ?thesis using ctx by (simp add: mem_push_api_def mem_push_def mem_tlvs_def)
qed

lemma net_push_tlvs:
  assumes "net_inv col" "col \<noteq> None" "wf_writer w" "wlen w + 257 \<le> cap w"
  shows "\<exists>w'. net_push_api col (Some w) = Some (0, Some w', col) \<and> appends_tlvs w w' (net_tlvs col) \<and> length (encode_tlvs (net_tlvs col)) \<le> 99"
proof -
  obtain ctx where ctx: "col = Some ctx" "net_ctx_inv ctx" using assms(1,2) by (auto simp: net_inv_def)
  have len: "length (net_payload ctx) = 1 + 24 * net_count ctx" "net_count ctx \<le> 4"
    using ctx(2) by (simp_all add: net_payload_def net_ctx_inv_def length_concat_const len_simps)
  obtain w' where "tlv_put (Some w) TF_TYPE_NET (Some (net_payload ctx)) (of_nat (1 + 24 * net_count ctx)) = Some (0, Some w')"
      "appends_tlvs w w' [(TF_TYPE_NET, net_payload ctx)]"
    using tlv_put_whole [OF assms(3,4), of "net_payload ctx" "of_nat (1 + 24 * net_count ctx)"] len by auto
  then show ?thesis
    using ctx len appends_nothing [OF assms(3)] by (simp add: net_push_api_def net_push_defined net_tlvs_def flip: net_payload_def)
qed

lemma disk_push_tlvs:
  assumes "disk_inv col" "col \<noteq> None" "wf_writer w" "wlen w + 257 \<le> cap w"
  shows "\<exists>w'. disk_push_api col (Some w) = Some (0, Some w', col) \<and> appends_tlvs w w' (disk_tlvs col) \<and> length (encode_tlvs (disk_tlvs col)) \<le> 257"
proof -
  obtain ctx where ctx: "col = Some ctx" "disk_ctx_inv ctx" using assms(1,2) by (auto simp: disk_inv_def)
  have "length (disk_payload ctx) mod 256 \<le> 255" by simp
  then show ?thesis
    using ctx appends_nothing [OF assms(3)] tlv_put_payload_room [OF assms(3,4), of TF_TYPE_DISK "disk_payload ctx"]
    by (auto simp: disk_push_api_def disk_push_eq disk_tlvs_def)
qed

lemma fs_push_tlvs:
  assumes "fs_inv col" "col \<noteq> None" "wf_writer w" "wlen w + 257 \<le> cap w"
  shows "\<exists>w'. fs_push_api col (Some w) = Some (0, Some w', col) \<and> appends_tlvs w w' (fs_tlvs col) \<and> length (encode_tlvs (fs_tlvs col)) \<le> 257"
proof -
  obtain ctx where ctx: "col = Some ctx" "fs_ctx_inv ctx" using assms(1,2) by (auto simp: fs_inv_def)
  have "length (fs_payload ctx) mod 256 \<le> 255" by simp
  then show ?thesis
    using ctx appends_nothing [OF assms(3)] tlv_put_payload_room [OF assms(3,4), of TF_TYPE_FS "fs_payload ctx"]
    by (auto simp: fs_push_api_def fs_push_eq fs_tlvs_def)
qed

lemma payload_groups_inv:
  assumes "proc_ctx_inv ctx"
  shows "list_all thread_group_inv (payload_groups ctx)" "unat (th_group_count (last_thread_payload ctx)) \<le> length (th_groups (last_thread_payload ctx))"
  using assms by (auto simp: payload_groups_def proc_ctx_inv_def thread_payload_inv_def list_all_iff dest: in_set_takeD)

lemma proc_push_tlvs:
  assumes "proc_inv col" "col \<noteq> None" "wf_writer w" "wlen w + 257 \<le> cap w"
  shows "\<exists>w' b. proc_push_api col (Some w) = Some (0, Some w', map_option (\<lambda>ctx. ctx\<lparr>thread_frame_warned := b\<rparr>) col) \<and>
    appends_tlvs w w' (proc_tlvs (cap w - wlen w) col)"
proof -
  obtain ctx where ctx: "col = Some ctx" "proc_ctx_inv ctx" using assms(1,2) by (auto simp: proc_inv_def)
  have same: "ctx\<lparr>thread_frame_warned := thread_frame_warned ctx\<rparr> = ctx" by simp
  let ?p = "proc_payload_bytes (last_payload ctx)"
  have "proc_payload_inv (last_payload ctx)" using ctx(2) by (simp add: proc_ctx_inv_def)
  then have len: "length ?p < 256" using length_proc_payload by (simp add: proc_payload_inv_def)
  obtain w1 where put: "tlv_put (Some w) TF_TYPE_PROC (Some ?p) (of_nat (length ?p)) = Some (0, Some w1)" "appends_tlvs w w1 [(TF_TYPE_PROC, ?p)]"
    using tlv_put_whole [OF assms(3,4) len refl] by blast
  have w1: "wf_writer w1" "cap w1 - wlen w1 = cap w - wlen w - (2 + length ?p)"
    using appends_wlen [OF assms(3) put(2)] by simp_all
  note gs = payload_groups_inv [OF ctx(2)]
  obtain w2 b where t: "thread_push_loop (payload_groups ctx) ctx w1 = Some (0, ctx\<lparr>thread_frame_warned := b\<rparr>, w2)"
      "appends_tlvs w1 w2 (map2 thread_tlv (payload_groups ctx) (thread_fill (cap w1 - wlen w1) (thread_counts ctx)))"
    using thread_push_loop_whole [OF w1(1) gs(1), of ctx] unfolding thread_counts_def by blast
  have tp: "thread_push ctx w1 = Some (0, ctx\<lparr>thread_frame_warned := b\<rparr>, w2)"
    using t(1) gs(2) by (simp add: thread_push_def payload_groups_def)
  consider "disabled ctx" | "\<not> disabled ctx" "ctx_thread_mode ctx = 0" | "\<not> disabled ctx" "ctx_thread_mode ctx \<noteq> 0" by blast
  then show ?thesis
  proof cases
    case 1
    then show ?thesis
      using ctx(1) appends_nothing [OF assms(3)] same
      by (intro exI [of _ w] exI [of _ "thread_frame_warned ctx"]) (simp add: proc_push_api_def proc_push_def proc_tlvs_def)
  next
    case 2
    then show ?thesis
      using ctx(1) put same
      by (intro exI [of _ w1] exI [of _ "thread_frame_warned ctx"]) (simp add: proc_push_api_def proc_push_def proc_tlvs_def)
  next
    case 3
    have "appends_tlvs w w2 (proc_tlvs (cap w - wlen w) col)"
      using 3 ctx(1) appends_trans [OF put(2) t(2)] unfolding w1(2) by (simp add: proc_tlvs_def)
    then show ?thesis
      using 3 ctx(1) put(1) tp by (intro exI [of _ w2] exI [of _ b]) (simp add: proc_push_api_def proc_push_def)
  qed
qed

text \<open>A push changes nothing of the collectors but the flag that a warning was given.\<close>

definition warned :: "bool \<Rightarrow> collectors \<Rightarrow> collectors" where
  "warned b cs = cs\<lparr>c_proc := map_option (\<lambda>ctx. ctx\<lparr>thread_frame_warned := b\<rparr>) (c_proc cs)\<rparr>"

lemma push_all_tlvs:
  assumes "collectors_inv cs" "collectors_live cs" "wf_writer w" "cap w = TF_FRAME_BUF_SIZE" "wlen w \<le> 77"
  shows "\<exists>w' b. push_all cs (Some w) = Some (0, Some w', cs\<lparr>c_proc := map_option (\<lambda>ctx. ctx\<lparr>thread_frame_warned := b\<rparr>) (c_proc cs)\<rparr>) \<and>
    appends_tlvs w w' (system_tlvs cs @ proc_tlvs (cap w - (wlen w + length (encode_tlvs (system_tlvs cs)))) (c_proc cs))"
proof -
  have inv: "net_inv (c_net cs)" "disk_inv (c_disk cs)" "fs_inv (c_fs cs)" "proc_inv (c_proc cs)"
    using assms(1) by (simp_all add: collectors_inv_def)
  have live: "cpu_live (c_cpu cs)" "c_mem cs \<noteq> None" "c_net cs \<noteq> None" "c_disk cs \<noteq> None" "c_fs cs \<noteq> None" "c_proc cs \<noteq> None"
    using assms(2) by (simp_all add: collectors_live_def)
  obtain w0 where w0: "cpu_push_api (c_cpu cs) (Some w) = Some (0, Some w0, c_cpu cs)" "appends_tlvs w w0 (cpu_tlvs (c_cpu cs))"
      "length (encode_tlvs (cpu_tlvs (c_cpu cs))) \<le> 12"
    using cpu_push_tlvs [OF live(1) assms(3)] assms(4,5) by auto
  note a0 = appends_wlen [OF assms(3) w0(2)]
  obtain w1 where w1: "mem_push_api (c_mem cs) (Some w0) = Some (0, Some w1, c_mem cs)" "appends_tlvs w0 w1 (mem_tlvs (c_mem cs))"
      "length (encode_tlvs (mem_tlvs (c_mem cs))) \<le> 20"
    using mem_push_tlvs [OF live(2), of w0] assms(4,5) w0(3) a0 by auto
  note a1 = appends_wlen [OF conjunct2 [OF conjunct2 [OF a0]] w1(2)]
  obtain w2 where w2: "net_push_api (c_net cs) (Some w1) = Some (0, Some w2, c_net cs)" "appends_tlvs w1 w2 (net_tlvs (c_net cs))"
      "length (encode_tlvs (net_tlvs (c_net cs))) \<le> 99"
    using net_push_tlvs [OF inv(1) live(3), of w1] assms(4,5) w0(3) w1(3) a0 a1 by auto
  note a2 = appends_wlen [OF conjunct2 [OF conjunct2 [OF a1]] w2(2)]
  obtain w3 where w3: "disk_push_api (c_disk cs) (Some w2) = Some (0, Some w3, c_disk cs)" "appends_tlvs w2 w3 (disk_tlvs (c_disk cs))"
      "length (encode_tlvs (disk_tlvs (c_disk cs))) \<le> 257"
    using disk_push_tlvs [OF inv(2) live(4), of w2] assms(4,5) w0(3) w1(3) w2(3) a0 a1 a2 by auto
  note a3 = appends_wlen [OF conjunct2 [OF conjunct2 [OF a2]] w3(2)]
  obtain w4 where w4: "fs_push_api (c_fs cs) (Some w3) = Some (0, Some w4, c_fs cs)" "appends_tlvs w3 w4 (fs_tlvs (c_fs cs))"
      "length (encode_tlvs (fs_tlvs (c_fs cs))) \<le> 257"
    using fs_push_tlvs [OF inv(3) live(5), of w3] assms(4,5) w0(3) w1(3) w2(3) w3(3) a0 a1 a2 a3 by auto
  have sys: "appends_tlvs w w4 (system_tlvs cs)"
    unfolding system_tlvs_def using w0(2) w1(2) w2(2) w3(2) w4(2) by (intro appends_trans)
  note a4 = appends_wlen [OF assms(3) sys]
  have room: "wf_writer w4" "wlen w4 + 257 \<le> cap w4"
    using assms(4,5) w0(3) w1(3) w2(3) w3(3) w4(3) a4 by (auto simp: system_tlvs_def)
  obtain w5 b where w5: "proc_push_api (c_proc cs) (Some w4) = Some (0, Some w5, map_option (\<lambda>ctx. ctx\<lparr>thread_frame_warned := b\<rparr>) (c_proc cs))"
      "appends_tlvs w4 w5 (proc_tlvs (cap w4 - wlen w4) (c_proc cs))"
    using proc_push_tlvs [OF inv(4) live(6) room] by blast
  have "push_all cs (Some w) = Some (0, Some w5, cs\<lparr>c_proc := map_option (\<lambda>ctx. ctx\<lparr>thread_frame_warned := b\<rparr>) (c_proc cs)\<rparr>)"
    by (simp add: push_all_def w0(1) w1(1) w2(1) w3(1) w4(1) w5(1) Let_def)
  moreover have "appends_tlvs w w5 (system_tlvs cs @ proc_tlvs (cap w - (wlen w + length (encode_tlvs (system_tlvs cs)))) (c_proc cs))"
    using appends_trans [OF sys w5(2)] a4 by simp
  ultimately show ?thesis by blast
qed

section \<open>What the receiver shows\<close>

definition receive :: "py_frame \<Rightarrow> tlv list \<Rightarrow> py_frame" where
  "receive r tlvs = foldl (\<lambda>r (t, v). py_tlv t v r) r tlvs"

lemma receive_simps [simp]: "receive r [] = r" "receive r (tv # ts) = receive (py_tlv (fst tv) (snd tv) r) ts" "receive r (ts @ us) = receive (receive r ts) us"
  by (simp_all add: receive_def split_beta)

definition cpu_view :: "cpu_payload \<Rightarrow> nat list" where
  "cpu_view p = map unat [pl_user p, pl_system p, pl_idle p, pl_iowait p, pl_irq p]"

definition mem_view :: "mem_payload \<Rightarrow> nat \<times> nat \<times> nat \<times> nat" where
  "mem_view m = (unat (mem_total_kb m), unat (mem_free_kb m), unat (mem_available_kb m), unat (mem_total_kb m) - unat (mem_free_kb m))"

definition load_view :: "load_payload \<Rightarrow> nat \<times> nat \<times> nat" where
  "load_view l = (unat (load1_x100 l), unat (load5_x100 l), unat (load15_x100 l))"

definition thread_flags :: "thread_group_entry \<Rightarrow> nat \<Rightarrow> u8" where
  "thread_flags g emit = (if emit < unat (tg_top_count g) then tg_flags g OR TF_THREAD_FLAG_TRUNCATED else tg_flags g)"

lemma receive_label:
  "receive r (label_tlvs cfg) = (if cstr (host_label cfg) = [] then r else r\<lparr>r_label := Some (py_strip (ascii (cstr (host_label cfg))))\<rparr>)"
  by (simp add: label_tlvs_def py_tlv_def py_ascii_bytes Suc_le_eq)

lemma receive_cpu: "cpu_ctx_ptr col = Some ctx \<Longrightarrow> receive r (cpu_tlvs col) = r\<lparr>r_cpu := Some (cpu_view (cpu_last_payload ctx))\<rparr>"
  by (simp add: cpu_tlvs_def py_tlv_def cpu_view_def cpu_payload_bytes_def Let_def wire_simps)

lemma receive_mem: "receive r (mem_tlvs (Some ctx)) = r\<lparr>r_mem := Some (mem_view (last_mem ctx)), r_load := Some (load_view (last_load ctx))\<rparr>"
  by (simp add: mem_tlvs_def py_tlv_def mem_view_def load_view_def mem_payload_bytes_def Let_def wire_simps)

lemma receive_net:
  assumes "net_ctx_inv ctx"
  shows "receive r (net_tlvs (Some ctx)) =
    (if net_count ctx = 0 then r else r\<lparr>r_net := Some (map net_view (take (net_count ctx) (net_entries ctx)))\<rparr>)"
proof -
  let ?xs = "take (net_count ctx) (net_entries ctx)"
  have xs: "list_all (\<lambda>e. terminated TF_NET_NAME_SIZE (net_name e)) ?xs" "length ?xs = net_count ctx" "net_count ctx \<le> 4"
    using assms by (auto simp: net_ctx_inv_def list_all_iff dest: in_set_takeD)
  then show ?thesis
    using net_wire.entries [OF xs(1), of "[]"] by (simp add: net_tlvs_def py_tlv_def net_payload_def unat_of_nat_u8)
qed

lemma receive_disk:
  assumes "disk_ctx_inv ctx" "disk_count ctx \<le> 3"
  shows "receive r (disk_tlvs (Some ctx)) =
    (if disk_count ctx = 0 then r else r\<lparr>r_disk := Some (map disk_view (take (disk_count ctx) (disk_entries ctx)))\<rparr>)"
proof -
  let ?xs = "take (disk_count ctx) (disk_entries ctx)"
  have xs: "list_all disk_entry_inv ?xs" "length ?xs = disk_count ctx"
    using assms by (auto simp: disk_ctx_inv_def list_all_iff dest: in_set_takeD)
  have len: "length (disk_payload ctx) = 1 + 66 * disk_count ctx" "length (disk_payload ctx) mod 256 = length (disk_payload ctx)"
    using length_disk_payload [OF assms(1)] assms(2) by simp_all
  have n: "unat (of_nat (disk_count ctx) :: u8) = disk_count ctx" using assms(2) by (simp add: unat_of_nat_u8)
  have "entry_size (disk_payload ctx) = 66" if "disk_count ctx \<noteq> 0"
    using that len(1) n by (simp add: entry_size_def disk_payload_def)
  then show ?thesis
    using disk_wire.entries2 [OF xs(1), of 66 42 py_disk_short "[]"] xs(2) len n
    by (simp add: disk_tlvs_def py_tlv_def) (simp add: disk_payload_def)
qed

lemma receive_fs:
  assumes "fs_ctx_inv ctx" "fs_count ctx \<le> 9"
  shows "receive r (fs_tlvs (Some ctx)) =
    (if fs_count ctx = 0 then r else r\<lparr>r_fs := Some (map fs_view (take (fs_count ctx) (fs_entries ctx)))\<rparr>)"
proof -
  let ?xs = "take (fs_count ctx) (fs_entries ctx)"
  have xs: "list_all fs_entry_inv ?xs" "length ?xs = fs_count ctx"
    using assms by (auto simp: fs_ctx_inv_def list_all_iff dest: in_set_takeD)
  have len: "length (fs_payload ctx) = 1 + 26 * fs_count ctx" "length (fs_payload ctx) mod 256 = length (fs_payload ctx)"
    using length_fs_payload [OF assms(1)] assms(2) by simp_all
  have n: "unat (of_nat (fs_count ctx) :: u8) = fs_count ctx" using assms(2) by (simp add: unat_of_nat_u8)
  have "entry_size (fs_payload ctx) = 26" if "fs_count ctx \<noteq> 0"
    using that len(1) n by (simp add: entry_size_def fs_payload_def)
  then show ?thesis
    using fs_wire.entries2 [OF xs(1), of 26 22 py_fs_short "[]"] xs(2) len n
    by (simp add: fs_tlvs_def py_tlv_def) (simp add: fs_payload_def)
qed

lemma length_py_entries2:
  "esize < w \<Longrightarrow> 0 < v \<Longrightarrow> length (py_entries2 esize w dec v dec' n rest) = min n (length rest div v)"
  by (induction n arbitrary: rest) (auto simp: le_div_geq)

text \<open>From four disks or ten mounts on, the cut payload has entries of less than the long format.\<close>

lemma receive_disk_cut:
  assumes "disk_ctx_inv ctx" "4 \<le> disk_count ctx"
  shows "\<exists>ds. receive r (disk_tlvs (Some ctx)) = r\<lparr>r_disk := Some ds\<rparr> \<and> length ds < disk_count ctx"
proof -
  let ?n = "disk_count ctx" and ?body = "take (length (disk_payload ctx) mod 256) (disk_payload ctx)"
  have n: "?n \<le> 16" "unat (of_nat ?n :: u8) = ?n" using assms by (simp_all add: disk_ctx_inv_def unat_of_nat_u8)
  have len: "length ?body = (1 + 66 * ?n) mod 256" using length_disk_payload [OF assms(1)] by simp
  have cases: "?n = 4 \<or> ?n = 5 \<or> ?n = 6 \<or> ?n = 7 \<or> ?n = 8 \<or> ?n = 9 \<or> ?n = 10 \<or> ?n = 11 \<or> ?n = 12 \<or> ?n = 13 \<or> ?n = 14 \<or> ?n = 15 \<or> ?n = 16"
    using n(1) assms(2) by presburger
  then have pos: "1 \<le> length ?body" unfolding len by auto
  then have hd: "hd ?body = of_nat ?n" by (simp add: disk_payload_def Suc_le_eq hd_take)
  have "entry_size ?body < 66" "min ?n ((length ?body - 1) div 42) < ?n"
    unfolding entry_size_def hd n(2) len using cases by (auto simp: Let_def)
  moreover have "receive r (disk_tlvs (Some ctx)) =
      r\<lparr>r_disk := Some (py_entries2 (entry_size ?body) 66 py_disk_long 42 py_disk_short ?n (tl ?body))\<rparr>"
    using assms(2) pos hd n(2) by (simp add: disk_tlvs_def py_tlv_def)
  moreover have "length (tl ?body) = length ?body - 1" by simp
  ultimately show ?thesis
    using length_py_entries2 [of "entry_size ?body" 66 42 py_disk_long py_disk_short ?n "tl ?body"]
    by (intro exI [of _ "py_entries2 (entry_size ?body) 66 py_disk_long 42 py_disk_short ?n (tl ?body)"] conjI)
      (simp_all only: zero_less_numeral)
qed

lemma receive_fs_cut:
  assumes "fs_ctx_inv ctx" "10 \<le> fs_count ctx"
  shows "\<exists>ms. receive r (fs_tlvs (Some ctx)) = r\<lparr>r_fs := Some ms\<rparr> \<and> length ms < fs_count ctx"
proof -
  let ?n = "fs_count ctx" and ?body = "take (length (fs_payload ctx) mod 256) (fs_payload ctx)"
  have n: "?n \<le> 16" "unat (of_nat ?n :: u8) = ?n" using assms by (simp_all add: fs_ctx_inv_def unat_of_nat_u8)
  have len: "length ?body = (1 + 26 * ?n) mod 256" using length_fs_payload [OF assms(1)] by simp
  have cases: "?n = 10 \<or> ?n = 11 \<or> ?n = 12 \<or> ?n = 13 \<or> ?n = 14 \<or> ?n = 15 \<or> ?n = 16"
    using n(1) assms(2) by presburger
  then have pos: "1 \<le> length ?body" unfolding len by auto
  then have hd: "hd ?body = of_nat ?n" by (simp add: fs_payload_def Suc_le_eq hd_take)
  have "entry_size ?body < 26" "min ?n ((length ?body - 1) div 22) < ?n"
    unfolding entry_size_def hd n(2) len using cases by (auto simp: Let_def)
  moreover have "receive r (fs_tlvs (Some ctx)) =
      r\<lparr>r_fs := Some (py_entries2 (entry_size ?body) 26 py_fs_long 22 py_fs_short ?n (tl ?body))\<rparr>"
    using assms(2) pos hd n(2) by (simp add: fs_tlvs_def py_tlv_def)
  moreover have "length (tl ?body) = length ?body - 1" by simp
  ultimately show ?thesis
    using length_py_entries2 [of "entry_size ?body" 26 22 py_fs_long py_fs_short ?n "tl ?body"]
    by (intro exI [of _ "py_entries2 (entry_size ?body) 26 py_fs_long 22 py_fs_short ?n (tl ?body)"] conjI)
      (simp_all only: zero_less_numeral)
qed

lemma receive_threads:
  assumes "list_all2 (\<lambda>g k. k \<le> TF_MAX_THREAD_TOP_N) gs emits" "list_all thread_group_inv gs"
  shows "receive r (map2 thread_tlv gs emits) = r\<lparr>r_threads := r_threads r @ map2 (\<lambda>g k. threads_view g (thread_flags g k) k) gs emits\<rparr>"
  using assms
proof (induction arbitrary: r rule: list_all2_induct)
  case (Cons g gs k emits)
  have "length (thread_payload_bytes g flags k) \<ge> 34" for flags
    using length_thread_payload [of g k flags] Cons by simp
  then have "py_tlv (fst (thread_tlv g k)) (snd (thread_tlv g k)) r = r\<lparr>r_threads := r_threads r @ [threads_view g (thread_flags g k) k]\<rparr>"
    using Cons thread_group_decodes [of g k] by (simp add: thread_tlv_def thread_flags_def py_tlv_def)
  then show ?case using Cons by simp
qed simp

definition threads_shown :: "nat \<Rightarrow> proc_ctx \<Rightarrow> py_threads list" where
  "threads_shown room ctx = (if disabled ctx \<or> ctx_thread_mode ctx = TF_THREAD_MODE_OFF then []
     else map2 (\<lambda>g k. threads_view g (thread_flags g k) k) (payload_groups ctx) (thread_fill room (thread_counts ctx)))"

text \<open>With enough room every group is shown with all its threads.\<close>

definition all_threads :: "proc_ctx \<Rightarrow> py_threads list" where
  "all_threads ctx = map (\<lambda>g. threads_view g (tg_flags g) (unat (tg_top_count g))) (payload_groups ctx)"

lemma threads_shown_all:
  assumes "\<not> disabled ctx" "ctx_thread_mode ctx \<noteq> TF_THREAD_MODE_OFF"
    "36 * length (thread_counts ctx) + 28 * sum_list (thread_counts ctx) \<le> room"
  shows "threads_shown room ctx = all_threads ctx"
proof -
  have "map2 f gs (map h gs) = map (\<lambda>g. f g (h g)) gs" for f :: "thread_group_entry \<Rightarrow> nat \<Rightarrow> py_threads" and h gs
    by (induction gs) auto
  then show ?thesis
    using assms by (simp add: threads_shown_def thread_fill_all all_threads_def thread_counts_def thread_flags_def)
qed

definition groups_shown :: "proc_payload \<Rightarrow> py_group list" where
  "groups_shown p = map group_view (take (unat (pr_group_count p)) (pr_groups p))"

lemma map2_take: "map2 f (take (length ys) xs) ys = map2 f xs ys"
  by (simp add: zip_take_length)

lemma receive_proc:
  assumes "proc_ctx_inv ctx"
  shows "receive r (proc_tlvs room (Some ctx)) =
    (if disabled ctx then r else r\<lparr>r_proc := Some (groups_shown (last_payload ctx)),
      r_threads := r_threads r @ threads_shown (room - (2 + length (proc_payload_bytes (last_payload ctx)))) ctx\<rparr>)"
proof -
  let ?p = "last_payload ctx"
  let ?xs = "take (unat (pr_group_count ?p)) (pr_groups ?p)"
  have "proc_payload_inv ?p" using assms(1) by (simp add: proc_ctx_inv_def)
  then have xs: "list_all (\<lambda>g. terminated TF_PROC_NAME_SIZE (pg_name g)) ?xs" "length ?xs = unat (pr_group_count ?p)" "unat (pr_group_count ?p) \<le> 8"
    by (auto simp: proc_payload_inv_def list_all_iff dest: in_set_takeD)
  then have p: "py_tlv TF_TYPE_PROC (proc_payload_bytes ?p) r = r\<lparr>r_proc := Some (groups_shown ?p)\<rparr>" for r
    using group_wire.entries [OF xs(1), of "[]"] by (simp add: py_tlv_def proc_payload_bytes_def groups_shown_def min_absorb1)
  define emits where "emits = thread_fill (room - (2 + length (proc_payload_bytes ?p))) (thread_counts ctx)"
  let ?gs = "take (length emits) (payload_groups ctx)"
  have gs: "list_all thread_group_inv ?gs"
    using payload_groups_inv(1) [OF assms] by (auto simp: list_all_iff dest: in_set_takeD)
  have "list_all2 (\<lambda>g k. k \<le> unat (tg_top_count g)) ?gs emits"
    using thread_fill_le [of _ "thread_counts ctx"] unfolding emits_def thread_counts_def take_map list.rel_map by simp
  then have "list_all2 (\<lambda>g k. k \<le> 7) ?gs emits"
    by (rule list.rel_mono_strong) (use gs in \<open>force simp: list_all_iff thread_group_inv_def\<close>)
  from receive_threads [OF this gs] show ?thesis
    using p unfolding map2_take by (simp add: proc_tlvs_def threads_shown_def emits_def)
qed

text \<open>The bytes of the frame that are left for the threads: 1400 less the header, the label, the CPU and
  memory TLVs, and 3 bytes and the entries of each table.\<close>

definition thread_room :: "agent_config \<Rightarrow> collectors \<Rightarrow> nat" where
  "thread_room cfg cs =
     (let label = length (cstr (host_label cfg)); net = net_count (the (c_net cs)); disk = disk_count (the (c_disk cs));
          fs = fs_count (the (c_fs cs)); prc = unat (pr_group_count (last_payload (the (c_proc cs))))
      in 1400 - (12 + (if label = 0 then 0 else 2 + label) + 12 + 20 + (if net = 0 then 0 else 3 + 24 * net) +
         (if disk = 0 then 0 else 3 + 66 * disk) + (if fs = 0 then 0 else 3 + 26 * fs) + (3 + 24 * prc)))"

text \<open>The result of \<^verbatim>\<open>parse_frame\<close> for a frame of the agent, in terms of what the collectors hold.\<close>

definition frame_view :: "agent_config \<Rightarrow> u32 \<Rightarrow> u32 \<Rightarrow> collectors \<Rightarrow> py_frame" where
  "frame_view cfg ts seq cs =
     (let cpu = the (cpu_ctx_ptr (c_cpu cs)); mem = the (c_mem cs); net = the (c_net cs); disk = the (c_disk cs); fs = the (c_fs cs);
          prc = the (c_proc cs)
      in \<lparr>r_ts = unat ts, r_seq = unat seq,
          r_cpu = Some (cpu_view (cpu_last_payload cpu)),
          r_mem = Some (mem_view (last_mem mem)),
          r_load = Some (load_view (last_load mem)),
          r_label = (if cstr (host_label cfg) = [] then None else Some (py_strip (ascii (cstr (host_label cfg))))),
          r_net = (if net_count net = 0 then None else Some (map net_view (take (net_count net) (net_entries net)))),
          r_disk = (if disk_count disk = 0 then None else Some (map disk_view (take (disk_count disk) (disk_entries disk)))),
          r_fs = (if fs_count fs = 0 then None else Some (map fs_view (take (fs_count fs) (fs_entries fs)))),
          r_proc = (if disabled prc then None else Some (groups_shown (last_payload prc))),
          r_threads = threads_shown (thread_room cfg cs) prc\<rparr>)"

text \<open>The TLVs of a frame, and what the receiver makes of them.\<close>

definition sample_tlvs :: "agent_config \<Rightarrow> collectors \<Rightarrow> tlv list" where
  "sample_tlvs cfg cs = label_tlvs cfg @ system_tlvs cs @
     proc_tlvs (1400 - (12 + length (encode_tlvs (label_tlvs cfg)) + length (encode_tlvs (system_tlvs cs)))) (c_proc cs)"

lemma live_contexts:
  assumes "collectors_inv cs" "collectors_live cs"
  obtains cpu mem net disk fs prc where "cpu_ctx_ptr (c_cpu cs) = Some cpu" "c_mem cs = Some mem" "c_net cs = Some net" "net_ctx_inv net"
    "c_disk cs = Some disk" "disk_ctx_inv disk" "c_fs cs = Some fs" "fs_ctx_inv fs" "c_proc cs = Some prc" "proc_ctx_inv prc"
  using assms that
  by (auto simp: collectors_live_def collectors_inv_def cpu_live_def net_inv_def disk_inv_def fs_inv_def proc_inv_def split: option.splits)

lemma thread_room_left:
  assumes "collectors_inv cs" "collectors_live cs" "disk_count (the (c_disk cs)) \<le> 3" "fs_count (the (c_fs cs)) \<le> 9"
  shows "1400 - (12 + length (encode_tlvs (label_tlvs cfg)) + length (encode_tlvs (system_tlvs cs))) -
    (2 + length (proc_payload_bytes (last_payload (the (c_proc cs))))) = thread_room cfg cs"
proof -
  from assms(1,2) obtain cpu mem net disk fs prc where c: "cpu_ctx_ptr (c_cpu cs) = Some cpu" "c_mem cs = Some mem" "c_net cs = Some net"
      "net_ctx_inv net" "c_disk cs = Some disk" "disk_ctx_inv disk" "c_fs cs = Some fs" "fs_ctx_inv fs" "c_proc cs = Some prc" "proc_ctx_inv prc"
    by (rule live_contexts)
  have "length (net_payload net) = 1 + 24 * net_count net"
    using c(4) by (simp add: net_payload_def net_ctx_inv_def length_concat_const len_simps)
  moreover have "length (disk_payload disk) mod 256 = 1 + 66 * disk_count disk" "length (fs_payload fs) mod 256 = 1 + 26 * fs_count fs"
    using length_disk_payload [OF c(6)] length_fs_payload [OF c(8)] assms(3,4) c(5,7) by simp_all
  moreover have "length (proc_payload_bytes (last_payload prc)) = 1 + 24 * unat (pr_group_count (last_payload prc))"
    using c(10) length_proc_payload by (simp add: proc_ctx_inv_def)
  ultimately show ?thesis
    using length_disk_payload [OF c(6)] length_fs_payload [OF c(8)]
    by (simp add: add.assoc thread_room_def Let_def label_tlvs_def system_tlvs_def cpu_tlvs_def mem_tlvs_def net_tlvs_def disk_tlvs_def fs_tlvs_def c(1,2,3,5,7,9))
qed

lemma receive_sample:
  assumes "collectors_inv cs" "collectors_live cs" "disk_count (the (c_disk cs)) \<le> 3" "fs_count (the (c_fs cs)) \<le> 9"
  shows "receive (py_empty (unat ts) (unat seq)) (sample_tlvs cfg cs) = frame_view cfg ts seq cs"
proof -
  from assms(1,2) obtain cpu mem net disk fs prc where c: "cpu_ctx_ptr (c_cpu cs) = Some cpu" "c_mem cs = Some mem" "c_net cs = Some net"
      "net_ctx_inv net" "c_disk cs = Some disk" "disk_ctx_inv disk" "c_fs cs = Some fs" "fs_ctx_inv fs" "c_proc cs = Some prc" "proc_ctx_inv prc"
    by (rule live_contexts)
  have "disk_count disk \<le> 3" "fs_count fs \<le> 9" using assms(3,4) c by simp_all
  note step = receive_label receive_cpu [OF c(1)] receive_mem receive_net [OF c(4)] receive_disk [OF c(6) this(1)] receive_fs [OF c(8) this(2)]
    receive_proc [OF c(10)]
  note room = thread_room_left [OF assms, of cfg, unfolded c(9) option.sel]
  show ?thesis
    unfolding sample_tlvs_def system_tlvs_def [of cs] c(9) receive_simps(3) step room [unfolded system_tlvs_def [of cs]]
    by (simp add: c(2,3,5,7) step) (simp add: frame_view_def py_empty_def c threads_shown_def)
qed

lemma receive_keeps:
  "list_all (\<lambda>tv. fst tv \<noteq> TF_TYPE_DISK) ts \<Longrightarrow> r_disk (receive r ts) = r_disk r"
  "list_all (\<lambda>tv. fst tv \<noteq> TF_TYPE_FS) ts \<Longrightarrow> r_fs (receive r ts) = r_fs r"
  by (induction ts arbitrary: r) (auto simp: py_tlv_def Let_def)

lemma receive_keeps_seq: "r_seq (receive r tlvs) = r_seq r"
  by (induction tlvs arbitrary: r) (auto simp: py_tlv_def Let_def)

lemma receive_proc_keeps: "r_disk (receive r (proc_tlvs room col)) = r_disk r" "r_fs (receive r (proc_tlvs room col)) = r_fs r"
  by (intro receive_keeps; auto simp: proc_tlvs_def thread_tlv_def list_all_iff split: option.splits dest!: in_set_zipE)+

lemma receive_fs_keeps: "r_disk (receive r (fs_tlvs col)) = r_disk r"
  by (intro receive_keeps) (auto simp: fs_tlvs_def split: option.splits)

lemma receive_sample_cut:
  assumes "collectors_inv cs" "collectors_live cs"
  shows "4 \<le> disk_count (the (c_disk cs)) \<Longrightarrow> \<exists>ds. r_disk (receive r (sample_tlvs cfg cs)) = Some ds \<and> length ds < disk_count (the (c_disk cs))"
    and "10 \<le> fs_count (the (c_fs cs)) \<Longrightarrow> \<exists>ms. r_fs (receive r (sample_tlvs cfg cs)) = Some ms \<and> length ms < fs_count (the (c_fs cs))"
proof -
  from assms(1,2) obtain cpu mem net disk fs prc where c: "cpu_ctx_ptr (c_cpu cs) = Some cpu" "c_mem cs = Some mem" "c_net cs = Some net"
      "net_ctx_inv net" "c_disk cs = Some disk" "disk_ctx_inv disk" "c_fs cs = Some fs" "fs_ctx_inv fs" "c_proc cs = Some prc" "proc_ctx_inv prc"
    by (rule live_contexts)
  show "4 \<le> disk_count (the (c_disk cs)) \<Longrightarrow> \<exists>ds. r_disk (receive r (sample_tlvs cfg cs)) = Some ds \<and> length ds < disk_count (the (c_disk cs))"
    using receive_disk_cut [OF c(6), of "receive r (label_tlvs cfg @ cpu_tlvs (c_cpu cs) @ mem_tlvs (c_mem cs) @ net_tlvs (c_net cs))"] c(5)
    by (auto simp: sample_tlvs_def system_tlvs_def receive_proc_keeps receive_fs_keeps)
  show "10 \<le> fs_count (the (c_fs cs)) \<Longrightarrow> \<exists>ms. r_fs (receive r (sample_tlvs cfg cs)) = Some ms \<and> length ms < fs_count (the (c_fs cs))"
    using receive_fs_cut [OF c(8), of "receive r (label_tlvs cfg @ cpu_tlvs (c_cpu cs) @ mem_tlvs (c_mem cs) @ net_tlvs (c_net cs) @ disk_tlvs (c_disk cs))"] c(7)
    by (auto simp: sample_tlvs_def system_tlvs_def receive_proc_keeps)
qed

text \<open>The writer after the header and the label, and the frame after all collectors have pushed.\<close>

lemma labelled_writer:
  assumes "wf_config cfg" "length buf = TF_FRAME_BUF_SIZE"
  shows "\<exists>w w1. tlv_init (Some v) (Some buf) TF_FRAME_BUF_SIZE ts seq = Some (0, Some w) \<and> push_label cfg (Some w) = Some (Some w1) \<and>
    wf_writer w1 \<and> cap w1 = TF_FRAME_BUF_SIZE \<and> wlen w1 = 12 + length (encode_tlvs (label_tlvs cfg)) \<and> wlen w1 \<le> 77 \<and>
    frame w1 = encode_header ts seq @ encode_tlvs (label_tlvs cfg) \<and> list_all valid_tlv (label_tlvs cfg)"
proof -
  let ?w = "Tlv.extend \<lparr>buffer = buf, wlen = 0, cap = 1400\<rparr> (encode_header ts seq)"
  have init: "tlv_init (Some v) (Some buf) 1400 ts seq = Some (0, Some ?w)"
    using assms(2) by (cases v) (simp add: tlv_init_eq)
  have w: "wf_writer ?w" "cap ?w = 1400" "wlen ?w = 12" "frame ?w = encode_header ts seq"
    using assms(2) by (simp_all add: wf_writer_extend wf_writer_def frame_extend) (simp add: frame_def)
  obtain w1 where l: "push_label cfg (Some ?w) = Some (Some w1)" "appends_tlvs ?w w1 (label_tlvs cfg)"
    using push_label_ok [OF assms(1) w(1)] w(2,3) by auto
  have "length (cstr (host_label cfg)) < 64" using assms(1) cstr_terminated by (auto simp: wf_config_def)
  then have "length (encode_tlvs (label_tlvs cfg)) \<le> 65" by (simp add: label_tlvs_def)
  then have "wf_writer w1 \<and> cap w1 = 1400 \<and> wlen w1 = 12 + length (encode_tlvs (label_tlvs cfg)) \<and> wlen w1 \<le> 77"
    using appends_wlen [OF w(1) l(2)] w(2,3) by simp
  then show ?thesis
    using init l w(4) by (simp add: appends_tlvs_def)
qed

lemma push_all_parsed:
  assumes "collectors_inv cs" "collectors_live cs" "wf_writer w" "cap w = TF_FRAME_BUF_SIZE"
    "wlen w = 12 + length (encode_tlvs (label_tlvs cfg))" "wlen w \<le> 77"
    "frame w = encode_header ts seq @ encode_tlvs (label_tlvs cfg)" "list_all valid_tlv (label_tlvs cfg)"
  shows "\<exists>w' cs'. push_all cs (Some w) = Some (0, Some w', cs') \<and> collectors_inv cs' \<and> collectors_live cs' \<and>
    (\<exists>b. cs' = warned b cs) \<and>
    parse_frame (frame w') = Some (receive (py_empty (unat ts) (unat seq)) (sample_tlvs cfg cs'))"
proof -
  obtain w2 b where p: "push_all cs (Some w) = Some (0, Some w2, cs\<lparr>c_proc := map_option (\<lambda>ctx. ctx\<lparr>thread_frame_warned := b\<rparr>) (c_proc cs)\<rparr>)"
      "appends_tlvs w w2 (system_tlvs cs @ proc_tlvs (cap w - (wlen w + length (encode_tlvs (system_tlvs cs)))) (c_proc cs))"
    using push_all_tlvs [OF assms(1-4,6)] by blast
  define cs2 where "cs2 = cs\<lparr>c_proc := map_option (\<lambda>ctx. ctx\<lparr>thread_frame_warned := b\<rparr>) (c_proc cs)\<rparr>"
  have warn: "cs2 = warned b cs" by (simp add: cs2_def warned_def)
  have "proc_tlvs room (c_proc cs2) = proc_tlvs room (c_proc cs)" for room
    by (auto simp: cs2_def proc_tlvs_def payload_groups_def thread_counts_def split: option.split)
  then have same: "sample_tlvs cfg cs2 = sample_tlvs cfg cs"
    by (simp add: sample_tlvs_def) (simp add: cs2_def system_tlvs_def)
  obtain n w' cs' where "push_all cs (Some w) = Some (n, Some w', cs')" "collectors_inv cs'" "collectors_live cs'"
    using push_all_ok [OF assms(1,3)] assms(2) by blast
  then have cs2: "collectors_inv cs2" "collectors_live cs2" using p(1) by (simp_all add: cs2_def)
  have "frame w2 = encode_header ts seq @ encode_tlvs (sample_tlvs cfg cs2)" "list_all valid_tlv (sample_tlvs cfg cs2)"
    using p(2) assms(4,5,7,8) unfolding same by (simp_all add: appends_tlvs_def sample_tlvs_def)
  then have "parse_frame (frame w2) = Some (receive (py_empty (unat ts) (unat seq)) (sample_tlvs cfg cs2))"
    by (simp add: parse_frame_encoded receive_def)
  then show ?thesis using p(1) cs2 warn unfolding cs2_def by metis
qed

lemma sample_frame_parsed:
  assumes "collectors_inv cs" "collectors_live cs" "wf_config cfg" "machine_ok os" "loads_fit os" "length buf = TF_FRAME_BUF_SIZE"
  shows "\<exists>w cs' x cs1 b. sample_frame os ts cfg seq buf cs = Some (Inr (0, w, cs')) \<and> collectors_inv cs' \<and> collectors_live cs' \<and>
    collect_all os cfg (Some \<lparr>cpu_total_diff = 1\<rparr>) cs = Some (x, cs1) \<and> cs' = warned b cs1 \<and>
    parse_frame (frame w) = Some (receive (py_empty (unat ts) (unat seq)) (sample_tlvs cfg cs'))"
proof -
  obtain x cs1 where c: "collect_all os cfg (Some \<lparr>cpu_total_diff = 1\<rparr>) cs = Some (x, cs1)" "collectors_inv cs1" "collectors_live cs1"
    using collect_all_ok [OF assms(1,3,4,5)] assms(2) by blast
  obtain w w1 where w: "tlv_init (Some \<lparr>buffer = [], wlen = 0, cap = 0\<rparr>) (Some buf) 1400 ts seq = Some (0, Some w)"
      "push_label cfg (Some w) = Some (Some w1)" "wf_writer w1" "cap w1 = 1400" "wlen w1 = 12 + length (encode_tlvs (label_tlvs cfg))" "wlen w1 \<le> 77"
      "frame w1 = encode_header ts seq @ encode_tlvs (label_tlvs cfg)" "list_all valid_tlv (label_tlvs cfg)"
    using labelled_writer [OF assms(3,6)] by blast
  obtain w2 cs2 b where p: "push_all cs1 (Some w1) = Some (0, Some w2, cs2)" "collectors_inv cs2" "collectors_live cs2" "cs2 = warned b cs1"
      "parse_frame (frame w2) = Some (receive (py_empty (unat ts) (unat seq)) (sample_tlvs cfg cs2))"
    using push_all_parsed [OF c(2,3) w(3-8)] by blast
  then have "sample_frame os ts cfg seq buf cs = Some (Inr (0, w2, cs2))"
    using c(1) w(1,2) by (simp add: sample_frame_def)
  then show ?thesis using p c(1) by blast
qed

lemma push_all_keeps: "push_all cs wrt = Some (n, wrt', cs') \<Longrightarrow> c_disk cs' = c_disk cs \<and> c_fs cs' = c_fs cs"
  by (auto simp: push_all_def disk_push_api_def fs_push_api_def bind_eq_Some_conv Let_def split: option.splits)

lemma sample_frame_collected:
  assumes "sample_frame os ts cfg seq buf cs = Some (Inr (n, w, cs'))"
  shows "(\<exists>rc x y. disk_collect_api os cfg x (c_disk cs) = Some (rc, y, c_disk cs')) \<and>
    (\<exists>rc x y. fs_collect_api os cfg x (c_fs cs) = Some (rc, y, c_fs cs'))"
proof -
  obtain x cs1 wrt wrt' where c: "collect_all os cfg (Some \<lparr>cpu_total_diff = 1\<rparr>) cs = Some (x, cs1)" "push_all cs1 wrt = Some (n, wrt', cs')"
    using assms by (auto simp: sample_frame_def bind_eq_Some_conv split: if_splits)
  from c(1) show ?thesis
    using push_all_keeps [OF c(2)] by (auto simp: collect_all_def bind_eq_Some_conv Let_def) blast+
qed

end
