(* ===== verification/Agent.thy ===== *)
theory Agent
  imports Config Protocol
begin

text \<open>
  The main program of \<^verbatim>\<open>agent/src/main.c\<close> as a state machine: its static variables and the variables
  of \<^verbatim>\<open>main\<close>, the start, the reload on \<^verbatim>\<open>SIGHUP\<close>, one pass of the loop, the wait for the next
  sample, and the end. Signal handlers only set flags and can run between any two steps.

  What the operating system answers during a step is a parameter, the record \<open>world\<close>. The output is
  kept as a trace: the frames in the order they were sent or written, and the contents of the log
  file as other processes see it; what \<^verbatim>\<open>stdio\<close> has buffered is kept apart until \<^verbatim>\<open>fflush\<close> or \<^verbatim>\<open>fclose\<close>.
  Messages of \<^verbatim>\<open>TF_LOG\<close> other than the debug print of a sample are not modelled; writes to the log
  file succeed.
\<close>

section \<open>Signals and time\<close>

abbreviation (input) SIGHUP :: int where "SIGHUP \<equiv> 1"
abbreviation (input) SIGINT :: int where "SIGINT \<equiv> 2"
abbreviation (input) SIGTERM :: int where "SIGTERM \<equiv> 15"
abbreviation (input) EINTR :: int where "EINTR \<equiv> 4"
abbreviation (input) EINVAL :: int where "EINVAL \<equiv> 22"
abbreviation (input) AF_INET :: int where "AF_INET \<equiv> 2"
abbreviation (input) AF_INET6 :: int where "AF_INET6 \<equiv> 10"

definition timespec_compare :: "timespec \<Rightarrow> timespec \<Rightarrow> int" where
  "timespec_compare left right =
     (if tv_sec left < tv_sec right then - 1 else if tv_sec left > tv_sec right then 1
      else if tv_nsec left < tv_nsec right then - 1 else if tv_nsec left > tv_nsec right then 1 else 0)"

definition add_interval :: "timespec \<Rightarrow> u16 \<Rightarrow> timespec option" where
  "add_interval t interval = do { sec \<leftarrow> s64 (tv_sec t + int (unat interval)); Some (t\<lparr>tv_sec := sec\<rparr>) }"

text \<open>A time in nanoseconds.\<close>

definition nanos :: "timespec \<Rightarrow> int" where
  "nanos t = tv_sec t * 1000000000 + tv_nsec t"

text \<open>\<^verbatim>\<open>wait_for_next_sample\<close> up to its loop: the new deadline, and the error it returns when the clock
  cannot be read.\<close>

definition next_deadline :: "timespec option \<Rightarrow> int \<Rightarrow> u16 \<Rightarrow> timespec \<Rightarrow> (int \<times> timespec) option" where
  "next_deadline clock err interval deadline =
     do { deadline \<leftarrow> add_interval deadline interval;
          case clock of
            None \<Rightarrow> Some (if err \<noteq> 0 then err else EINVAL, deadline)
          | Some now \<Rightarrow>
              if timespec_compare deadline now \<le> 0
              then do { deadline \<leftarrow> add_interval now interval; Some (0, deadline) }
              else Some (0, deadline) }"

section \<open>The destination\<close>

record addrinfo =
  ai_family :: int
  ai_addrlen :: nat
  ai_addr :: "u8 list"

text \<open>\<^verbatim>\<open>resolve_addr\<close> where \<^verbatim>\<open>getaddrinfo\<close> is used; \<open>gai\<close> is its list of results (none: it failed). The
  result is the return code, the address structure with its length, and the family.\<close>

definition resolve_addr ::
  "(string \<Rightarrow> string \<Rightarrow> addrinfo list option) \<Rightarrow> string option \<Rightarrow> u16 \<Rightarrow> (int \<times> u8 list \<times> nat \<times> int) option" where
  "resolve_addr gai host port =
     (case host of
        None \<Rightarrow> Some (- 1, [], 0, 0)
      | Some h \<Rightarrow>
        (case gai h (show_u (unat port)) of
           None \<Rightarrow> Some (- 1, [], 0, 0)
         | Some results \<Rightarrow>
           (case find (\<lambda>r. (ai_family r = AF_INET \<or> ai_family r = AF_INET6) \<and> \<not> ai_addrlen r > 128) results of
              None \<Rightarrow> Some (- 1, [], 0, 0)
            | Some r \<Rightarrow> do { addr \<leftarrow> mem_copy (replicate 128 0) 0 (ai_addr r) (ai_addrlen r);
                             Some (0, addr, ai_addrlen r, ai_family r) })))"

text \<open>\<^verbatim>\<open>resolve_addr\<close> as static glibc builds have it, where \<^verbatim>\<open>getaddrinfo\<close> is not available: \<open>pton4\<close> and
  \<open>pton6\<close> are \<^verbatim>\<open>inet_pton\<close> for the two families (none: not a literal). The structures are
  \<^verbatim>\<open>sockaddr_in\<close> (16 bytes) and \<^verbatim>\<open>sockaddr_in6\<close> (28 bytes) of a little-endian Linux.\<close>

definition sockaddr_in :: "u16 \<Rightarrow> u8 list \<Rightarrow> u8 list" where
  "sockaddr_in port ip = [2, 0] @ buf_put_be_u16 [] port @ ip @ replicate 8 0"

definition sockaddr_in6 :: "u16 \<Rightarrow> u8 list \<Rightarrow> u8 list" where
  "sockaddr_in6 port ip = [10, 0] @ buf_put_be_u16 [] port @ replicate 4 0 @ ip @ replicate 4 0"

definition resolve_addr_static ::
  "(string \<Rightarrow> u8 list option) \<Rightarrow> (string \<Rightarrow> u8 list option) \<Rightarrow> string option \<Rightarrow> u16 \<Rightarrow> (int \<times> u8 list \<times> nat \<times> int) option" where
  "resolve_addr_static pton4 pton6 host port =
     (case host of
        None \<Rightarrow> Some (- 1, [], 0, 0)
      | Some h \<Rightarrow>
        (case pton4 h of
           Some ip \<Rightarrow> do { addr \<leftarrow> mem_copy (replicate 128 0) 0 (sockaddr_in port ip) 16; Some (0, addr, 16, AF_INET) }
         | None \<Rightarrow>
           (case pton6 h of
              Some ip \<Rightarrow> do { addr \<leftarrow> mem_copy (replicate 128 0) 0 (sockaddr_in6 port ip) 28; Some (0, addr, 28, AF_INET6) }
            | None \<Rightarrow> Some (- 1, [], 0, 0))))"

section \<open>The state\<close>

text \<open>Where the program is: at the top of the main loop, in the loop of \<^verbatim>\<open>wait_for_next_sample\<close>, or at
  its end with an exit code.\<close>

datatype pc = Top | Wait | Exited int

datatype emission = Udp "u8 list" | File string "u8 list"

record agent =
  location :: pc
  keep_running :: bool
  reload_config_flag :: bool
  debug_level :: bool
  sock :: int
  file_mode :: bool
  output_file :: "string option"
  log_file :: "string option"
  log_buffer :: "u8 list"
  dest_addr :: "u8 list"
  dest_addr_len :: nat
  cols :: collectors
  cfg :: agent_config
  argv :: "string list"
  frame_seq :: u32
  frame_buf :: "u8 list"
  next_sample :: timespec
  files :: "string \<Rightarrow> u8 list"
  outputs :: "emission list"
  stderr_text :: string

text \<open>What the operating system answers in a step. \<open>w_static\<close> says which of the two builds of
  \<^verbatim>\<open>resolve_addr\<close> runs: the one with \<^verbatim>\<open>inet_pton\<close> only (\<^verbatim>\<open>TF_STATIC_BUILD\<close> with glibc), or the one with
  \<^verbatim>\<open>getaddrinfo\<close>.\<close>

record world =
  w_os :: os
  w_access :: "string \<Rightarrow> bool"
  w_alloc :: "nat \<Rightarrow> bool"
  w_fopen :: bool
  w_static :: bool
  w_inet_pton4 :: "string \<Rightarrow> u8 list option"
  w_inet_pton6 :: "string \<Rightarrow> u8 list option"
  w_getaddrinfo :: "string \<Rightarrow> string \<Rightarrow> addrinfo list option"
  w_socket :: int
  w_time :: int
  w_clock :: "timespec option"
  w_errno :: int

definition handle_signal :: "int \<Rightarrow> agent \<Rightarrow> agent" where
  "handle_signal sig s = (if sig = SIGHUP then s\<lparr>reload_config_flag := True\<rparr> else s\<lparr>keep_running := False\<rparr>)"

text \<open>The header of a log file: \<^verbatim>\<open>TFOX\<close>, version 1 and three zeros.\<close>

definition log_header :: "u8 list" where
  "log_header = map byte_of_char ''TFOX'' @ [1, 0, 0, 0]"

definition apply_options :: "options \<Rightarrow> agent \<Rightarrow> agent" where
  "apply_options opts s = s\<lparr>argv := opt_argv opts, cfg := opt_cfg opts, file_mode := opt_file_mode opts,
     output_file := opt_output_file opts, debug_level := opt_debug opts\<rparr>"

definition resolve_host :: "world \<Rightarrow> string \<Rightarrow> u16 \<Rightarrow> (int \<times> u8 list \<times> nat \<times> int) option" where
  "resolve_host w host port =
     (if w_static w then resolve_addr_static (w_inet_pton4 w) (w_inet_pton6 w) (Some host) port
      else resolve_addr (w_getaddrinfo w) (Some host) port)"

text \<open>The last part of \<^verbatim>\<open>init_agent_state\<close>: the log file or the socket. The header of a new log file goes into
  the buffer of the stream.\<close>

definition open_output :: "world \<Rightarrow> agent \<Rightarrow> (int \<times> agent) option" where
  "open_output w s =
     (if file_mode s then
        do { path \<leftarrow> output_file s;
             if \<not> w_fopen w then Some (1, s\<lparr>log_file := None\<rparr>)
             else Some (0, s\<lparr>log_file := Some path, log_buffer := (if files s path = [] then log_header else [])\<rparr>) }
      else
        do { (rc, addr, len, family) \<leftarrow> resolve_host w (cstr (server_host (cfg s))) (server_port (cfg s));
             if rc \<noteq> 0 then Some (1, s)
             else let s = s\<lparr>dest_addr := addr, dest_addr_len := len, sock := w_socket w\<rparr>
             in if sock s < 0 then Some (1, s) else Some (0, s) })"

definition init_agent_state :: "world \<Rightarrow> agent \<Rightarrow> (int \<times> agent) option" where
  "init_agent_state w s =
     do { r \<leftarrow> config_init_from_sources (os_file (w_os w)) (w_access w) (argv s);
          case r of
            Inl code \<Rightarrow> Some (code, s)
          | Inr c \<Rightarrow>
              do { (fine, opts) \<leftarrow> option_loop (getopt 1 (tl (argv s)))
                     \<lparr>opt_argv = argv s, opt_cfg = c, opt_file_mode = file_mode s, opt_output_file = output_file s,
                      opt_debug = debug_level s\<rparr>;
                   let s = apply_options opts s;
                   if \<not> fine then Some (1, s)
                   else do {
                     let s = (if debug_level s then s\<lparr>stderr_text := stderr_text s @ print_effective_config (cfg s)\<rparr> else s);
                     (rc, cs) \<leftarrow> init_collectors (w_alloc w) (cfg s) (cols s);
                     let s = s\<lparr>cols := cs\<rparr>;
                     if rc \<noteq> 0 then Some (1, s) else open_output w s } } }"

text \<open>\<^verbatim>\<open>fflush\<close>: the buffered bytes reach the file.\<close>

definition flush_log :: "string \<Rightarrow> agent \<Rightarrow> agent" where
  "flush_log path s = s\<lparr>files := (files s)(path := files s path @ log_buffer s), log_buffer := []\<rparr>"

definition destroy_agent_state :: "agent \<Rightarrow> agent" where
  "destroy_agent_state s =
     (let s = (case (file_mode s, log_file s) of
                 (True, Some path) \<Rightarrow> (flush_log path s)\<lparr>log_file := None\<rparr>
               | _ \<Rightarrow> if sock s \<ge> 0 then s\<lparr>sock := - 1\<rparr> else s)
      in s\<lparr>cols := destroy_collectors (cols s)\<rparr>)"

section \<open>The steps of main\<close>

text \<open>The part of \<^verbatim>\<open>main\<close> before its loop, on the arguments.\<close>

definition agent_zero :: "(string \<Rightarrow> u8 list) \<Rightarrow> string list \<Rightarrow> agent" where
  "agent_zero fs args =
     \<lparr>location = Top, keep_running = True, reload_config_flag = False, debug_level = False, sock = - 1, file_mode = False,
      output_file = None, log_file = None, log_buffer = [], dest_addr = replicate 128 0, dest_addr_len = 0, cols = g_collectors,
      cfg = config_defaults, argv = args, frame_seq = 0, frame_buf = replicate TF_FRAME_BUF_SIZE 0,
      next_sample = \<lparr>tv_sec = 0, tv_nsec = 0\<rparr>, files = fs, outputs = [], stderr_text = []\<rparr>"

definition main_stop :: "agent \<Rightarrow> agent" where
  "main_stop s = (destroy_agent_state s)\<lparr>location := Exited 0\<rparr>"

definition main_start :: "world \<Rightarrow> agent \<Rightarrow> agent option" where
  "main_start w s =
     do { (rc, s) \<leftarrow> init_agent_state w s;
          if rc \<noteq> 0 then Some (s\<lparr>location := Exited 1\<rparr>)
          else (case w_clock w of
              None \<Rightarrow> Some ((destroy_agent_state s)\<lparr>location := Exited 1\<rparr>)
            | Some t \<Rightarrow> Some (s\<lparr>next_sample := t\<rparr>)) }"

definition main_reload :: "world \<Rightarrow> agent \<Rightarrow> agent option" where
  "main_reload w s =
     do { let s = s\<lparr>reload_config_flag := False\<rparr>;
          (rc, s) \<leftarrow> init_agent_state w (destroy_agent_state s);
          if rc \<noteq> 0 then Some (s\<lparr>location := Exited 1\<rparr>)
          else (case w_clock w of
              None \<Rightarrow> Some (main_stop s)
            | Some t \<Rightarrow> Some (s\<lparr>next_sample := t\<rparr>)) }"

text \<open>What happens to the frame: it is appended to the log file with its length in front and flushed, or
  given to \<^verbatim>\<open>sendto\<close>.\<close>

definition emit_frame :: "tlv_writer \<Rightarrow> agent \<Rightarrow> agent option" where
  "emit_frame wrt s =
     (let bytes = take (wlen wrt) (buffer wrt)
      in if file_mode s then
           do { path \<leftarrow> log_file s;
                let frame_len = (of_nat (wlen wrt) :: u16);
                let s = s\<lparr>log_buffer := log_buffer s @ buf_put_be_u16 [] frame_len\<rparr>;
                let s = s\<lparr>log_buffer := log_buffer s @ bytes\<rparr>;
                let s = flush_log path s;
                Some (s\<lparr>outputs := outputs s @ [File path bytes]\<rparr>) }
         else Some (s\<lparr>outputs := outputs s @ [Udp bytes]\<rparr>))"

definition main_sample :: "world \<Rightarrow> agent \<Rightarrow> agent option" where
  "main_sample w s =
     do { let timestamp = (of_int (w_time w) :: u32);
          let n = frame_seq s;
          let s = s\<lparr>frame_seq := frame_seq s + 1\<rparr>;
          r \<leftarrow> sample_frame (w_os w) timestamp (cfg s) n (frame_buf s) (cols s);
          case r of
            Inl cs \<Rightarrow> Some (main_stop (s\<lparr>cols := cs\<rparr>))
          | Inr (errors, wrt, cs) \<Rightarrow>
              do { let s = s\<lparr>cols := cs, frame_buf := buffer wrt\<rparr>;
                   let s = (if debug_level s then s\<lparr>stderr_text := stderr_text s @ print_all timestamp errors cs\<rparr> else s);
                   s \<leftarrow> emit_frame wrt s;
                   (rc, deadline) \<leftarrow> next_deadline (w_clock w) (w_errno w) (interval_sec (cfg s)) (next_sample s);
                   let s = s\<lparr>next_sample := deadline\<rparr>;
                   Some (if rc \<noteq> 0 then main_stop s else s\<lparr>location := Wait\<rparr>) } }"

text \<open>One test of the wait loop, with the result of \<^verbatim>\<open>clock_nanosleep\<close> when it is called.\<close>

definition main_wait :: "int \<Rightarrow> agent \<Rightarrow> agent" where
  "main_wait rc s =
     (if \<not> keep_running s \<or> reload_config_flag s then s\<lparr>location := Top\<rparr>
      else if rc = 0 then s\<lparr>location := Top\<rparr>
      else if rc \<noteq> EINTR then main_stop s else s)"

text \<open>The next step of the program.\<close>

definition main_step :: "world \<Rightarrow> int \<Rightarrow> agent \<Rightarrow> agent option" where
  "main_step w sleep_rc s =
     (case location s of
        Top \<Rightarrow> if \<not> keep_running s then Some (main_stop s)
               else if reload_config_flag s then main_reload w s else main_sample w s
      | Wait \<Rightarrow> Some (main_wait sleep_rc s)
      | Exited code \<Rightarrow> Some s)"

section \<open>Steps and reachable states\<close>

definition running :: "agent \<Rightarrow> bool" where
  "running s \<longleftrightarrow> (case location s of Exited _ \<Rightarrow> False | _ \<Rightarrow> True)"

text \<open>What is documented of the operating system: clocks that answer with times of their type, a monotonic
  clock that counts from boot, results of \<^verbatim>\<open>getaddrinfo\<close> as long as they say and addresses of
  \<^verbatim>\<open>inet_pton\<close> of 4 and 16 bytes, and a \<^verbatim>\<open>clock_nanosleep\<close> that returns 0 only when the clock has reached the
  deadline. Nothing is assumed of the contents of files.\<close>

definition world_ok :: "world \<Rightarrow> bool" where
  "world_ok w \<longleftrightarrow> machine_ok (w_os w) \<and> (case w_clock w of None \<Rightarrow> True | Some t \<Rightarrow> monotonic_ok t) \<and>
     (\<forall>h ip. w_inet_pton4 w h = Some ip \<longrightarrow> length ip = 4) \<and> (\<forall>h ip. w_inet_pton6 w h = Some ip \<longrightarrow> length ip = 16) \<and>
     (\<forall>h p rs. w_getaddrinfo w h p = Some rs \<longrightarrow> list_all (\<lambda>r. length (ai_addr r) = ai_addrlen r) rs)"

definition sleep_ok :: "int \<Rightarrow> agent \<Rightarrow> bool" where
  "sleep_ok rc s \<longleftrightarrow> (location s = Wait \<and> rc = 0 \<longrightarrow> (\<exists>now. monotonic_ok now \<and> nanos (next_sample s) \<le> nanos now))"

inductive agent_step :: "agent \<Rightarrow> agent \<Rightarrow> bool" where
  signal: "running s \<Longrightarrow> sig \<in> {SIGHUP, SIGINT, SIGTERM} \<Longrightarrow> agent_step s (handle_signal sig s)"
| run: "running s \<Longrightarrow> world_ok w \<Longrightarrow> sleep_ok rc s \<Longrightarrow> main_step w rc s = Some s' \<Longrightarrow> agent_step s s'"

inductive agent_reach :: "(string \<Rightarrow> u8 list) \<Rightarrow> string list \<Rightarrow> agent \<Rightarrow> bool" for fs args where
  start: "world_ok w \<Longrightarrow> main_start w (agent_zero fs args) = Some s \<Longrightarrow> agent_reach fs args s"
| step: "agent_reach fs args s \<Longrightarrow> agent_step s s' \<Longrightarrow> agent_reach fs args s'"

inductive_cases agent_stepE: "agent_step s s'"

section \<open>Invariant\<close>

definition emission_bytes :: "emission \<Rightarrow> u8 list" where
  "emission_bytes e = (case e of Udp b \<Rightarrow> b | File _ b \<Rightarrow> b)"

definition numbered_frame :: "nat \<Rightarrow> u8 list \<Rightarrow> bool" where
  "numbered_frame k b \<longleftrightarrow> length b \<le> TF_FRAME_BUF_SIZE \<and>
     (\<exists>ts tlvs. b = encode_header ts (of_nat k) @ encode_tlvs tlvs \<and> list_all valid_tlv tlvs)"

definition outputs_inv :: "agent \<Rightarrow> bool" where
  "outputs_inv s \<longleftrightarrow> frame_seq s = of_nat (length (outputs s)) \<and>
     (\<forall>k < length (outputs s). numbered_frame k (emission_bytes (outputs s ! k)))"

definition log_record :: "u8 list \<Rightarrow> u8 list" where
  "log_record b = buf_put_be_u16 [] (of_nat (length b)) @ b"

fun log_frames :: "string \<Rightarrow> emission list \<Rightarrow> u8 list list" where
  "log_frames p [] = []"
| "log_frames p (Udp b # es) = log_frames p es"
| "log_frames p (File q b # es) = (if q = p then b # log_frames p es else log_frames p es)"

text \<open>A file holds what it held before, or the header if that was nothing, and then the records of the
  frames written to it.\<close>

definition file_ok :: "u8 list \<Rightarrow> u8 list list \<Rightarrow> u8 list \<Rightarrow> bool" where
  "file_ok old frames new \<longleftrightarrow> (\<exists>base. (base = old \<or> old = [] \<and> base = log_header) \<and> new = base @ concat (map log_record frames) \<and>
     (base = [] \<longrightarrow> frames = []))"

definition files_inv :: "(string \<Rightarrow> u8 list) \<Rightarrow> agent \<Rightarrow> bool" where
  "files_inv fs s \<longleftrightarrow> (\<forall>p. file_ok (fs p) (log_frames p (outputs s)) (files s p)) \<and>
     (\<forall>p. log_file s = Some p \<longrightarrow> log_buffer s = (if files s p = [] then log_header else []))"

definition output_ok :: "agent \<Rightarrow> bool" where
  "output_ok s \<longleftrightarrow> (file_mode s \<longrightarrow> output_file s \<noteq> None)"

definition agent_base :: "agent \<Rightarrow> bool" where
  "agent_base s \<longleftrightarrow> collectors_inv (cols s) \<and> length (frame_buf s) = TF_FRAME_BUF_SIZE \<and> output_ok s \<and> outputs_inv s"

definition agent_ready :: "agent \<Rightarrow> bool" where
  "agent_ready s \<longleftrightarrow> config_ok (cfg s) \<and> collectors_live (cols s) \<and> (if file_mode s then log_file s \<noteq> None else 0 \<le> sock s)"

definition deadline_ok :: "agent \<Rightarrow> bool" where
  "deadline_ok s \<longleftrightarrow> 0 \<le> tv_sec (next_sample s) \<and> tv_sec (next_sample s) < 4000065536 \<and>
     0 \<le> tv_nsec (next_sample s) \<and> tv_nsec (next_sample s) < 1000000000 \<and>
     (location s = Top \<and> keep_running s \<and> \<not> reload_config_flag s \<longrightarrow> tv_sec (next_sample s) < 4000000000)"

definition agent_inv :: "(string \<Rightarrow> u8 list) \<Rightarrow> agent \<Rightarrow> bool" where
  "agent_inv fs s \<longleftrightarrow> agent_base s \<and> files_inv fs s \<and> (running s \<longrightarrow> agent_ready s \<and> deadline_ok s)"

subsection \<open>Initialisation\<close>

text \<open>What initialisation and destruction do not touch.\<close>

definition same_run :: "agent \<Rightarrow> agent \<Rightarrow> bool" where
  "same_run s s' \<longleftrightarrow> location s' = location s \<and> keep_running s' = keep_running s \<and> reload_config_flag s' = reload_config_flag s \<and>
     frame_seq s' = frame_seq s \<and> frame_buf s' = frame_buf s \<and> next_sample s' = next_sample s \<and> outputs s' = outputs s"

lemma option_arg_output:
  "option_arg c i off st = Some st' \<Longrightarrow> opt_file_mode st \<longrightarrow> opt_output_file st \<noteq> None \<Longrightarrow> opt_file_mode st' \<longrightarrow> opt_output_file st' \<noteq> None"
  by (auto simp: option_arg_def Let_def bind_eq_Some_conv split: if_splits)

lemma option_loop_output:
  "option_loop es st = Some (b, st') \<Longrightarrow> opt_file_mode st \<longrightarrow> opt_output_file st \<noteq> None \<Longrightarrow> opt_file_mode st' \<longrightarrow> opt_output_file st' \<noteq> None"
proof (induction es st rule: option_loop.induct)
  case (3 c i off es st)
  then obtain st1 where "option_arg c i off st = Some st1" "option_loop es st1 = Some (b, st')"
    by (auto simp: bind_eq_Some_conv)
  then show ?case using 3(1) option_arg_output [OF _ 3(3)] by blast
qed auto

lemma find_SomeD: "find P xs = Some x \<Longrightarrow> x \<in> set xs \<and> P x"
  by (induction xs) (auto split: if_splits)

lemma resolve_addr_found:
  assumes "world_ok w" "w_getaddrinfo w h (show_u (unat port)) = Some rs"
    "find (\<lambda>r. (ai_family r = AF_INET \<or> ai_family r = AF_INET6) \<and> \<not> ai_addrlen r > 128) rs = Some r"
  shows "resolve_addr (w_getaddrinfo w) (Some h) port = Some (0, ai_addr r @ replicate (128 - ai_addrlen r) 0, ai_addrlen r, ai_family r) \<and>
    length (ai_addr r) = ai_addrlen r \<and> ai_addrlen r \<le> 128 \<and> (ai_family r = AF_INET \<or> ai_family r = AF_INET6)"
proof -
  have "length (ai_addr r) = ai_addrlen r" "ai_addrlen r \<le> 128" "ai_family r = AF_INET \<or> ai_family r = AF_INET6"
    using find_SomeD [OF assms(3)] assms(1,2) by (auto simp: world_ok_def list_all_iff)
  then show ?thesis
    using assms(2,3) by (simp add: resolve_addr_def)
qed

lemma resolve_addr_ok:
  assumes "world_ok w"
  shows "\<exists>rc addr len family. resolve_addr (w_getaddrinfo w) host port = Some (rc, addr, len, family)"
proof (cases host)
  case (Some h)
  show ?thesis
  proof (cases "w_getaddrinfo w h (show_u (unat port))")
    case (Some rs)
    then show ?thesis
      using resolve_addr_found [OF assms Some] \<open>host = Some h\<close>
      by (cases "find (\<lambda>r. (ai_family r = AF_INET \<or> ai_family r = AF_INET6) \<and> \<not> ai_addrlen r > 128) rs")
        (auto simp: resolve_addr_def)
  qed (simp add: Some resolve_addr_def)
qed (simp add: resolve_addr_def)

text \<open>The static build and the dynamic one send to the same address when the host is a numeric literal:
  \<^verbatim>\<open>getaddrinfo\<close> answers a literal with the one address that \<^verbatim>\<open>inet_pton\<close> reads, and fails or resolves a name
  otherwise.\<close>

lemma resolve_addr_builds_agree:
  assumes "\<And>ip. pton4 h = Some ip \<Longrightarrow> length ip = 4 \<and>
      gai h (show_u (unat port)) = Some [\<lparr>ai_family = AF_INET, ai_addrlen = 16, ai_addr = sockaddr_in port ip\<rparr>]"
    and "\<And>ip. pton4 h = None \<Longrightarrow> pton6 h = Some ip \<Longrightarrow> length ip = 16 \<and>
      gai h (show_u (unat port)) = Some [\<lparr>ai_family = AF_INET6, ai_addrlen = 28, ai_addr = sockaddr_in6 port ip\<rparr>]"
    and "pton4 h \<noteq> None \<or> pton6 h \<noteq> None"
  shows "resolve_addr_static pton4 pton6 (Some h) port = resolve_addr gai (Some h) port \<and>
    (\<exists>addr len family. resolve_addr gai (Some h) port = Some (0, addr, len, family))"
proof (cases "pton4 h")
  case (Some ip)
  then show ?thesis
    using assms(1) [OF Some] by (simp add: resolve_addr_static_def resolve_addr_def sockaddr_in_def)
next
  case None
  then obtain ip where ip: "pton6 h = Some ip" using assms(3) by blast
  then show ?thesis
    using None assms(2) [OF None ip] by (simp add: resolve_addr_static_def resolve_addr_def sockaddr_in6_def)
qed

lemma resolve_host_ok:
  assumes "world_ok w"
  shows "\<exists>rc addr len family. resolve_host w host port = Some (rc, addr, len, family)"
proof (cases "w_static w")
  case True
  then show ?thesis
    using assms by (auto simp: resolve_host_def resolve_addr_static_def sockaddr_in_def sockaddr_in6_def world_ok_def split: option.split)
next
  case False
  then show ?thesis using resolve_addr_ok [OF assms] by (simp add: resolve_host_def)
qed

lemma log_header_nonempty [simp]: "log_header \<noteq> []"
  by (simp add: log_header_def)

lemma file_ok_header: "file_ok old frames [] \<Longrightarrow> file_ok old frames log_header"
  by (auto simp: file_ok_def)

lemma file_ok_append: "file_ok old frames new \<Longrightarrow> new \<noteq> [] \<Longrightarrow> file_ok old (frames @ [b]) (new @ log_record b)"
  unfolding file_ok_def by (elim exE, rule_tac x = base in exI) auto

lemma files_inv_open:
  "files_inv fs s \<Longrightarrow> files_inv fs (s\<lparr>log_file := Some path, log_buffer := (if files s path = [] then log_header else [])\<rparr>)"
  unfolding files_inv_def by simp

lemma files_inv_no_log: "files_inv fs s \<Longrightarrow> files_inv fs (s\<lparr>log_file := None\<rparr>)"
  unfolding files_inv_def by simp

lemma files_inv_buffer:
  assumes "files_inv fs s" "log_file s = Some p"
  shows "file_ok (fs p) (log_frames p (outputs s)) (files s p @ log_buffer s)" "files s p @ log_buffer s \<noteq> []"
proof -
  have "file_ok (fs p) (log_frames p (outputs s)) (files s p)" "log_buffer s = (if files s p = [] then log_header else [])"
    using assms unfolding files_inv_def by simp_all
  then show "file_ok (fs p) (log_frames p (outputs s)) (files s p @ log_buffer s)" "files s p @ log_buffer s \<noteq> []"
    using file_ok_header [of "fs p" "log_frames p (outputs s)"] by (simp_all split: if_splits)
qed

lemma files_inv_flush: "files_inv fs s \<Longrightarrow> log_file s = Some p \<Longrightarrow> files_inv fs ((flush_log p s)\<lparr>log_file := None\<rparr>)"
  using files_inv_buffer(1) [of fs s p] unfolding files_inv_def flush_log_def by (auto split: if_splits)

text \<open>The invariant of the files depends on four fields only.\<close>

lemma files_inv_cong:
  assumes "files s' = files s" "outputs s' = outputs s" "log_buffer s' = log_buffer s" "log_file s' = log_file s \<or> log_file s' = None"
  shows "files_inv fs s \<Longrightarrow> files_inv fs s'"
  using assms(4) unfolding files_inv_def assms(1-3) by (metis option.distinct(1))

lemma open_output_ok:
  assumes "world_ok w" "output_ok s" "config_ok (cfg s)" "collectors_live (cols s)"
  shows "\<exists>rc s'. open_output w s = Some (rc, s') \<and> same_run s s' \<and> cols s' = cols s \<and> file_mode s' = file_mode s \<and> output_file s' = output_file s \<and>
    (rc = 0 \<longrightarrow> agent_ready s') \<and> (\<forall>fs. files_inv fs s \<longrightarrow> files_inv fs s')"
proof (cases "file_mode s")
  case True
  then obtain path where path: "output_file s = Some path" using assms(2) by (auto simp: output_ok_def)
  let ?s = "s\<lparr>log_file := Some path, log_buffer := (if files s path = [] then log_header else [])\<rparr>"
  have "open_output w s = Some (if w_fopen w then (0, ?s) else (1, s\<lparr>log_file := None\<rparr>))"
    using True path by (simp add: open_output_def)
  then show ?thesis
    using True assms files_inv_open [of _ s path] files_inv_no_log [of _ s]
    by (simp add: same_run_def agent_ready_def)
next
  case False
  obtain rc addr len family where "resolve_host w (cstr (server_host (cfg s))) (server_port (cfg s)) = Some (rc, addr, len, family)"
    using resolve_host_ok [OF assms(1)] by metis
  then have "open_output w s = (if rc \<noteq> 0 then Some (1, s) else Some (if w_socket w < 0 then 1 else 0,
      s\<lparr>dest_addr := addr, dest_addr_len := len, sock := w_socket w\<rparr>))"
    using False by (simp add: open_output_def Let_def)
  then show ?thesis
    using False assms by (cases "rc = 0"; cases "w_socket w < 0") (simp_all add: same_run_def agent_ready_def files_inv_def)
qed

lemma init_agent_state_ok:
  assumes "world_ok w" "collectors_inv (cols s)" "output_ok s"
  shows "\<exists>rc s'. init_agent_state w s = Some (rc, s') \<and> same_run s s' \<and> collectors_inv (cols s') \<and> output_ok s' \<and>
    (rc = 0 \<longrightarrow> agent_ready s') \<and> (\<forall>fs. files_inv fs s \<longrightarrow> files_inv fs s')"
proof -
  obtain r where r: "config_init_from_sources (os_file (w_os w)) (w_access w) (argv s) = Some r" "\<forall>c. r = Inr c \<longrightarrow> config_ok c"
    using config_init_from_sources_ok by blast
  show ?thesis
  proof (cases r)
    case (Inl code)
    then have "code = 1" using r(1) config_init_exit by blast
    then show ?thesis using r(1) Inl assms by (simp add: init_agent_state_def same_run_def)
  next
    case (Inr c)
    let ?st = "\<lparr>opt_argv = argv s, opt_cfg = c, opt_file_mode = file_mode s, opt_output_file = output_file s, opt_debug = debug_level s\<rparr>"
    obtain b opts where o: "option_loop (getopt 1 (tl (argv s))) ?st = Some (b, opts)" "options_ok (length (argv s)) opts"
      using option_loop_argv r(2) Inr by blast
    let ?s = "apply_options opts s"
    have run: "same_run s ?s" "output_ok ?s" "cols ?s = cols s" "\<forall>fs. files_inv fs s \<longrightarrow> files_inv fs ?s"
      using option_loop_output [OF o(1)] assms(3) by (auto simp: same_run_def apply_options_def output_ok_def files_inv_def)
    let ?d = "if debug_level ?s then ?s\<lparr>stderr_text := stderr_text ?s @ print_effective_config (cfg ?s)\<rparr> else ?s"
    have s: "same_run s ?d" "cols ?d = cols s" "output_ok ?d" "\<forall>fs. files_inv fs s \<longrightarrow> files_inv fs (?d\<lparr>cols := x\<rparr>)" "config_ok (cfg ?d)" for x
      using option_loop_output [OF o(1)] assms(3) o(2)
      by (auto simp: same_run_def apply_options_def output_ok_def options_ok_def files_inv_def)
    obtain rc cs where i: "init_collectors (w_alloc w) (cfg ?d) (cols ?d) = Some (rc, cs)" "collectors_inv cs" "rc = 0 \<longrightarrow> collectors_live cs"
      using init_collectors_ok [OF assms(2), of "cfg ?d" "w_alloc w"] s(2,5) by (auto simp: config_ok_def split: if_splits)
    have init: "init_agent_state w s = (if \<not> b then Some (1, ?s) else if rc \<noteq> 0 then Some (1, ?d\<lparr>cols := cs\<rparr>) else open_output w (?d\<lparr>cols := cs\<rparr>))"
      using r(1) Inr o(1) i(1) by (simp add: init_agent_state_def Let_def)
    consider "\<not> b" | "b" "rc \<noteq> 0" | "b" "rc = 0" by blast
    then show ?thesis
    proof cases
      case 1
      then show ?thesis using init run assms(2) by simp
    next
      case 2
      then show ?thesis using init s i(2) by (simp add: same_run_def output_ok_def)
    next
      case 3
      have "output_ok (?d\<lparr>cols := cs\<rparr>)" "config_ok (cfg (?d\<lparr>cols := cs\<rparr>))" "collectors_live (cols (?d\<lparr>cols := cs\<rparr>))"
        using s i(3) 3 by (simp_all add: output_ok_def)
      from open_output_ok [OF assms(1) this] show ?thesis
        using 3 init s i(2) by (auto simp: same_run_def output_ok_def)
    qed
  qed
qed

lemma destroy_agent_state_keeps:
  "same_run s (destroy_agent_state s)" "cols (destroy_agent_state s) = destroy_collectors (cols s)" "argv (destroy_agent_state s) = argv s"
  "file_mode (destroy_agent_state s) = file_mode s" "output_file (destroy_agent_state s) = output_file s"
  "debug_level (destroy_agent_state s) = debug_level s"
  by (simp_all add: destroy_agent_state_def flush_log_def Let_def same_run_def split: option.split bool.split)

lemma destroy_agent_state_ok:
  assumes "agent_base s" "files_inv fs s"
  shows "agent_base (destroy_agent_state s)" "files_inv fs (destroy_agent_state s)" "same_run s (destroy_agent_state s)"
proof -
  let ?s = "destroy_agent_state s"
  show same: "same_run s ?s" by (rule destroy_agent_state_keeps)
  then show "agent_base ?s"
    using assms(1) destroy_collectors_ok destroy_agent_state_keeps [of s]
    by (auto simp: agent_base_def outputs_inv_def output_ok_def same_run_def)
  have open_log: "files_inv fs (((flush_log p s)\<lparr>log_file := None\<rparr>)\<lparr>cols := c\<rparr>)" if "log_file s = Some p" for p c
    using files_inv_flush [OF assms(2) that] by (simp add: files_inv_def)
  have closed: "files_inv fs (s\<lparr>sock := - 1, cols := c\<rparr>)" "files_inv fs (s\<lparr>cols := c\<rparr>)" for c
    using assms(2) by (simp_all add: files_inv_def)
  show "files_inv fs ?s"
    using open_log closed by (cases "file_mode s"; cases "log_file s") (simp_all add: destroy_agent_state_def Let_def)
qed

lemma agent_base_cong:
  "agent_base s \<Longrightarrow> cols s' = cols s \<Longrightarrow> frame_buf s' = frame_buf s \<Longrightarrow> file_mode s' = file_mode s \<Longrightarrow> output_file s' = output_file s \<Longrightarrow>
    frame_seq s' = frame_seq s \<Longrightarrow> outputs s' = outputs s \<Longrightarrow> agent_base s'"
  by (simp add: agent_base_def outputs_inv_def output_ok_def)

lemma main_stop_inv: "agent_base s \<Longrightarrow> files_inv fs s \<Longrightarrow> agent_inv fs (main_stop s) \<and> location (main_stop s) = Exited 0"
  using destroy_agent_state_ok [of s fs] agent_base_cong [of "destroy_agent_state s" "main_stop s"]
    files_inv_cong [of "main_stop s" "destroy_agent_state s" fs]
  by (simp add: main_stop_def agent_inv_def running_def)

text \<open>Start and reload end in a failed initialisation or at the top of the loop with the deadline now.\<close>

lemma init_then_clock:
  assumes "world_ok w" "agent_base s" "files_inv fs s" "location s = Top"
  shows "\<exists>rc s'. init_agent_state w s = Some (rc, s') \<and> agent_base s' \<and> files_inv fs s' \<and> same_run s s' \<and>
    agent_inv fs (s'\<lparr>location := Exited c\<rparr>) \<and> (rc = 0 \<longrightarrow> (\<forall>t. w_clock w = Some t \<longrightarrow> agent_inv fs (s'\<lparr>next_sample := t\<rparr>)))"
proof -
  have "collectors_inv (cols s)" "output_ok s" using assms(2) by (simp_all add: agent_base_def)
  then obtain rc s' where i: "init_agent_state w s = Some (rc, s')" "same_run s s'" "collectors_inv (cols s')" "output_ok s'"
      "rc = 0 \<longrightarrow> agent_ready s'" "\<forall>fs. files_inv fs s \<longrightarrow> files_inv fs s'"
    using init_agent_state_ok [OF assms(1)] by blast
  then have base: "agent_base s'" "files_inv fs s'"
    using assms(2,3) by (auto simp: agent_base_def same_run_def outputs_inv_def)
  have "agent_inv fs (s'\<lparr>location := Exited c\<rparr>)"
    using base by (simp add: agent_inv_def running_def agent_base_def files_inv_def outputs_inv_def output_ok_def)
  moreover have "agent_inv fs (s'\<lparr>next_sample := t\<rparr>)" if "rc = 0" "w_clock w = Some t" for t
    using that base i(5) assms(1)
    by (auto simp: agent_inv_def agent_base_def files_inv_def outputs_inv_def output_ok_def agent_ready_def deadline_ok_def
        world_ok_def monotonic_ok_def)
  ultimately show ?thesis using i(1,2) base by blast
qed

lemma agent_zero_ok: "agent_base (agent_zero fs args)" "files_inv fs (agent_zero fs args)"
  by (simp_all add: agent_zero_def agent_base_def g_collectors_inv output_ok_def outputs_inv_def files_inv_def file_ok_def)

lemma main_start_ok:
  assumes "world_ok w"
  shows "\<exists>s. main_start w (agent_zero fs args) = Some s \<and> agent_inv fs s"
proof -
  obtain rc s' where i: "init_agent_state w (agent_zero fs args) = Some (rc, s')" "agent_base s'" "files_inv fs s'"
      "agent_inv fs (s'\<lparr>location := Exited 1\<rparr>)" "rc = 0 \<longrightarrow> (\<forall>t. w_clock w = Some t \<longrightarrow> agent_inv fs (s'\<lparr>next_sample := t\<rparr>))"
    using init_then_clock [OF assms agent_zero_ok [of fs args], of 1] by (auto simp: agent_zero_def)
  have "agent_inv fs ((destroy_agent_state s')\<lparr>location := Exited 1\<rparr>)"
    using destroy_agent_state_ok [OF i(2,3)] by (simp add: agent_inv_def running_def agent_base_def files_inv_def outputs_inv_def output_ok_def)
  then show ?thesis
    using i by (simp add: main_start_def split: option.split)
qed

lemma main_reload_ok:
  assumes "world_ok w" "agent_inv fs s" "location s = Top"
  shows "\<exists>s'. main_reload w s = Some s' \<and> agent_inv fs s'"
proof -
  let ?s = "destroy_agent_state (s\<lparr>reload_config_flag := False\<rparr>)"
  have "agent_base (s\<lparr>reload_config_flag := False\<rparr>)" "files_inv fs (s\<lparr>reload_config_flag := False\<rparr>)"
    using assms(2) by (simp_all add: agent_inv_def agent_base_def files_inv_def outputs_inv_def output_ok_def)
  from destroy_agent_state_ok [OF this] have d: "agent_base ?s" "files_inv fs ?s" "location ?s = Top"
    using assms(3) by (simp_all add: same_run_def)
  obtain rc s' where i: "init_agent_state w ?s = Some (rc, s')" "agent_base s'" "files_inv fs s'"
      "agent_inv fs (s'\<lparr>location := Exited 1\<rparr>)" "rc = 0 \<longrightarrow> (\<forall>t. w_clock w = Some t \<longrightarrow> agent_inv fs (s'\<lparr>next_sample := t\<rparr>))"
    using init_then_clock [OF assms(1) d, of 1] by blast
  then show ?thesis
    using main_stop_inv [OF i(2,3)] by (simp add: main_reload_def split: option.split)
qed

subsection \<open>One pass\<close>

lemma add_interval_ok:
  assumes "0 \<le> tv_sec t" "tv_sec t < 4000000000"
  shows "add_interval t n = Some (t\<lparr>tv_sec := tv_sec t + int (unat n)\<rparr>)" "tv_sec t + int (unat n) < 4000065536"
proof -
  have n: "uint n < 65536" "0 \<le> uint n" using uint_lt2p [of n] by simp_all
  have "LONG_MIN \<le> tv_sec t + uint n" "tv_sec t + uint n \<le> LONG_MAX"
    using n assms by linarith+
  then show "add_interval t n = Some (t\<lparr>tv_sec := tv_sec t + int (unat n)\<rparr>)"
    by (simp add: add_interval_def s64_def)
  show "tv_sec t + int (unat n) < 4000065536" using n assms by simp
qed

lemma next_deadline_ok:
  assumes "0 \<le> tv_sec d" "tv_sec d < 4000000000" "0 \<le> tv_nsec d" "tv_nsec d < 1000000000"
    "case clock of None \<Rightarrow> True | Some t \<Rightarrow> monotonic_ok t"
  shows "\<exists>rc d'. next_deadline clock err n d = Some (rc, d') \<and> 0 \<le> tv_sec d' \<and> tv_sec d' < 4000065536 \<and>
    0 \<le> tv_nsec d' \<and> tv_nsec d' < 1000000000"
proof (cases clock)
  case None
  then show ?thesis
    using assms add_interval_ok [OF assms(1,2), of n] by (simp add: next_deadline_def)
next
  case (Some t)
  then have t: "0 \<le> tv_sec t" "tv_sec t < 4000000000" "0 \<le> tv_nsec t" "tv_nsec t < 1000000000"
    using assms(5) by (simp_all add: monotonic_ok_def)
  show ?thesis
    using assms(1-4) t Some add_interval_ok [OF assms(1,2), of n] add_interval_ok [OF t(1,2), of n]
    by (simp add: next_deadline_def)
qed

lemma log_frames_append: "log_frames p (es @ fs) = log_frames p es @ log_frames p fs"
  by (induction p es rule: log_frames.induct) auto

lemma outputs_inv_append:
  assumes "outputs_inv s" "numbered_frame (length (outputs s)) (emission_bytes e)"
    "frame_seq s' = frame_seq s + 1" "outputs s' = outputs s @ [e]"
  shows "outputs_inv s'"
  using assms by (auto simp: outputs_inv_def nth_append less_Suc_eq)

definition emission_of :: "agent \<Rightarrow> u8 list \<Rightarrow> emission" where
  "emission_of s b = (if file_mode s then File (the (log_file s)) b else Udp b)"

lemma emission_bytes_of [simp]: "emission_bytes (emission_of s b) = b"
  by (simp add: emission_bytes_def emission_of_def)

lemma emit_frame_ok:
  assumes "file_mode s \<longrightarrow> log_file s \<noteq> None" "wf_writer w" "files_inv fs s"
  shows "\<exists>g b. emit_frame w s = Some (s\<lparr>log_buffer := b, files := g, outputs := outputs s @ [emission_of s (frame w)]\<rparr>) \<and>
    files_inv fs (s\<lparr>log_buffer := b, files := g, outputs := outputs s @ [emission_of s (frame w)]\<rparr>)"
proof (cases "file_mode s")
  case False
  then show ?thesis
    using assms(3)
    by (intro exI [of _ "files s"] exI [of _ "log_buffer s"]) (simp add: emit_frame_def emission_of_def frame_def files_inv_def log_frames_append)
next
  case True
  then obtain p where p: "log_file s = Some p" using assms(1) by blast
  have rec: "buf_put_be_u16 [] (of_nat (wlen w)) @ frame w = log_record (frame w)"
    using assms(2) by (simp add: log_record_def length_frame)
  let ?g = "(files s)(p := (files s p @ log_buffer s) @ log_record (frame w))"
  have "emit_frame w s = Some (s\<lparr>log_buffer := [], files := ?g, outputs := outputs s @ [File p (frame w)]\<rparr>)"
    using True p rec by (simp add: emit_frame_def frame_def flush_log_def Let_def)
  moreover have "files_inv fs (s\<lparr>log_buffer := [], files := ?g, outputs := outputs s @ [File p (frame w)]\<rparr>)"
    using assms(3) p file_ok_append [OF files_inv_buffer [OF assms(3) p]] by (auto simp: files_inv_def log_frames_append)
  ultimately show ?thesis using True p by (intro exI [of _ ?g] exI [of _ "[]"]) (simp add: emission_of_def)
qed

lemma main_sample_ok:
  assumes "world_ok w" "loads_fit (w_os w)" "agent_inv fs s" "location s = Top" "keep_running s" "\<not> reload_config_flag s"
  shows "\<exists>s' b rc. main_sample w s = Some s' \<and> agent_inv fs s' \<and> outputs s' = outputs s @ [emission_of s b] \<and>
    next_deadline (w_clock w) (w_errno w) (interval_sec (cfg s)) (next_sample s) = Some (rc, next_sample s') \<and>
    (rc = 0 \<longrightarrow> location s' = Wait \<and> keep_running s' \<and> \<not> reload_config_flag s' \<and> cfg s' = cfg s)"
proof -
  have base: "agent_base s" "files_inv fs s" and ready: "agent_ready s" and dl: "deadline_ok s"
    using assms(3,4) by (simp_all add: agent_inv_def running_def)
  let ?ts = "of_int (w_time w) :: u32"
  have machine: "machine_ok (w_os w)" and clk: "case w_clock w of None \<Rightarrow> True | Some t \<Rightarrow> monotonic_ok t"
    using assms(1) by (simp_all add: world_ok_def)
  have wf: "wf_config (cfg s)" using ready by (simp add: agent_ready_def config_ok_def)
  have b: "collectors_inv (cols s)" "length (frame_buf s) = 1400" using base(1) by (simp_all add: agent_base_def)
  obtain n wrt cs tlvs where f: "sample_frame (w_os w) ?ts (cfg s) (frame_seq s) (frame_buf s) (cols s) = Some (Inr (n, wrt, cs))"
      "collectors_inv cs" "collectors_live cs" "wf_writer wrt" "cap wrt = 1400"
      "frame wrt = encode_header ?ts (frame_seq s) @ encode_tlvs tlvs" "list_all valid_tlv tlvs"
    using sample_frame_ok [OF b(1) wf machine assms(2) b(2)] ready unfolding agent_ready_def by metis
  define s1 where "s1 = s\<lparr>frame_seq := frame_seq s + 1, cols := cs, frame_buf := buffer wrt\<rparr>"
  define s2 where "s2 = (if debug_level s1 then s1\<lparr>stderr_text := stderr_text s1 @ print_all ?ts n cs\<rparr> else s1)"
  have s2: "files_inv fs s2" "file_mode s2 \<longrightarrow> log_file s2 \<noteq> None"
    using base(2) ready by (auto simp: s2_def s1_def files_inv_def agent_ready_def)
  define e where "e = emission_of s (frame wrt)"
  have "emission_of s2 (frame wrt) = e" by (simp add: e_def emission_of_def s2_def s1_def)
  then obtain g lb where e: "emit_frame wrt s2 = Some (s2\<lparr>log_buffer := lb, files := g, outputs := outputs s2 @ [e]\<rparr>)"
      "files_inv fs (s2\<lparr>log_buffer := lb, files := g, outputs := outputs s2 @ [e]\<rparr>)"
    using emit_frame_ok [OF s2(2) f(4) s2(1)] by auto
  define s3 where "s3 = s2\<lparr>log_buffer := lb, files := g, outputs := outputs s2 @ [e]\<rparr>"
  have same: "outputs s2 = outputs s" "frame_seq s2 = frame_seq s + 1" "cols s2 = cs" "frame_buf s2 = buffer wrt" "cfg s2 = cfg s"
      "file_mode s2 = file_mode s" "output_file s2 = output_file s" "log_file s2 = log_file s" "sock s2 = sock s" "next_sample s2 = next_sample s"
      "keep_running s2 = keep_running s" "reload_config_flag s2 = reload_config_flag s"
    by (simp_all add: s2_def s1_def)
  obtain rc d where d: "next_deadline (w_clock w) (w_errno w) (interval_sec (cfg s)) (next_sample s) = Some (rc, d)"
      "0 \<le> tv_sec d" "tv_sec d < 4000065536" "0 \<le> tv_nsec d" "tv_nsec d < 1000000000"
    using next_deadline_ok [of "next_sample s" "w_clock w" "w_errno w" "interval_sec (cfg s)"] dl clk assms(4-6)
    by (simp add: deadline_ok_def) blast
  then have d3: "next_deadline (w_clock w) (w_errno w) (interval_sec (cfg s3)) (next_sample s3) = Some (rc, d)"
    by (simp add: s3_def same)
  have run: "main_sample w s = Some (if rc \<noteq> 0 then main_stop (s3\<lparr>next_sample := d\<rparr>) else s3\<lparr>next_sample := d, location := Wait\<rparr>)"
    using f(1) e(1) d3 unfolding s3_def s2_def s1_def
    by (cases "debug_level s") (simp_all add: main_sample_def Let_def)
  have seq: "frame_seq s = of_nat (length (outputs s))" and old: "outputs_inv s"
    using base(1) by (simp_all add: agent_base_def outputs_inv_def)
  have "length (frame wrt) \<le> 1400" using f(4,5) by (simp add: length_frame) (simp add: wf_writer_def)
  then have "numbered_frame (length (outputs s)) (emission_bytes e)"
    using f(6,7) seq by (auto simp: numbered_frame_def e_def)
  then have "outputs_inv s3"
    using outputs_inv_append [OF old, of e s3] by (simp add: s3_def same)
  then have s3: "agent_base (s3\<lparr>next_sample := d\<rparr>)" "files_inv fs (s3\<lparr>next_sample := d\<rparr>)"
    using base(1) f(2,4,5) e(2) by (simp_all add: s3_def same agent_base_def outputs_inv_def output_ok_def files_inv_def wf_writer_def)
  moreover have "agent_inv fs (s3\<lparr>next_sample := d, location := Wait\<rparr>)"
    using s3 ready f(3) d(2-5) by (simp add: agent_inv_def agent_base_def outputs_inv_def output_ok_def files_inv_def agent_ready_def deadline_ok_def s3_def same)
  moreover have "outputs (main_stop (s3\<lparr>next_sample := d\<rparr>)) = outputs s @ [e]" "next_sample (main_stop (s3\<lparr>next_sample := d\<rparr>)) = d"
    using destroy_agent_state_ok(3) [OF s3] by (simp_all add: main_stop_def same_run_def s3_def same)
  ultimately show ?thesis using run d(1) main_stop_inv [of "s3\<lparr>next_sample := d\<rparr>" fs] assms(5,6)
    by (intro exI [of _ "if rc \<noteq> 0 then main_stop (s3\<lparr>next_sample := d\<rparr>) else s3\<lparr>next_sample := d, location := Wait\<rparr>"] exI [of _ "frame wrt"]
        exI [of _ rc]) (simp add: s3_def same e_def)
qed

text \<open>A load average that does not fit makes the pass undefined.\<close>

lemma main_sample_undefined:
  assumes "agent_inv fs s" "running s" "\<not> loads_fit (w_os w)"
  shows "main_sample w s = None"
  using assms sample_frame_undefined [of "cols s" "w_os w"] by (simp add: main_sample_def agent_inv_def agent_ready_def)

subsection \<open>All steps\<close>

lemma main_wait_inv:
  assumes "agent_inv fs s" "location s = Wait" "sleep_ok rc s"
  shows "agent_inv fs (main_wait rc s)"
proof -
  have base: "agent_base s" "files_inv fs s" and ready: "agent_ready s" and dl: "deadline_ok s"
    using assms(1,2) by (simp_all add: agent_inv_def running_def)
  have top: "agent_inv fs (s\<lparr>location := Top\<rparr>)" if "keep_running s \<Longrightarrow> \<not> reload_config_flag s \<Longrightarrow> tv_sec (next_sample s) < 4000000000"
    using that base ready dl
    by (auto simp: agent_inv_def agent_base_def outputs_inv_def output_ok_def files_inv_def agent_ready_def deadline_ok_def)
  have "tv_sec (next_sample s) < 4000000000" if zero: "rc = 0"
  proof -
    obtain now where now: "monotonic_ok now" "nanos (next_sample s) \<le> nanos now"
      using assms(2,3) zero by (auto simp: sleep_ok_def)
    have "0 \<le> tv_nsec (next_sample s)" using dl by (simp add: deadline_ok_def)
    then have "tv_sec (next_sample s) \<le> tv_sec now"
      using now by (simp add: monotonic_ok_def nanos_def)
    then show ?thesis using now(1) by (simp add: monotonic_ok_def)
  qed
  then show ?thesis
    using assms(1) top main_stop_inv [OF base] by (auto simp: main_wait_def)
qed

lemma handle_signal_inv: "agent_inv fs s \<Longrightarrow> agent_inv fs (handle_signal sig s)"
  by (auto simp: handle_signal_def agent_inv_def agent_base_def outputs_inv_def output_ok_def files_inv_def agent_ready_def
      deadline_ok_def running_def split: pc.splits)

lemma main_step_cases:
  assumes "agent_inv fs s" "running s" "world_ok w" "sleep_ok rc s"
  shows "if location s = Top \<and> keep_running s \<and> \<not> reload_config_flag s \<and> \<not> loads_fit (w_os w) then main_step w rc s = None
    else \<exists>s'. main_step w rc s = Some s' \<and> agent_inv fs s'"
proof (cases "location s")
  case Top
  have "agent_base s" "files_inv fs s" using assms(1) by (simp_all add: agent_inv_def)
  then show ?thesis
    using Top main_stop_inv [of s fs] main_reload_ok [OF assms(3,1) Top] main_sample_ok [OF assms(3) _ assms(1) Top]
      main_sample_undefined [OF assms(1,2)]
    by (auto simp: main_step_def)
next
  case Wait
  then show ?thesis using main_wait_inv [OF assms(1) Wait assms(4)] by (simp add: main_step_def)
next
  case (Exited code)
  then show ?thesis using assms(2) by (simp add: running_def)
qed

lemma agent_step_inv: "agent_step s s' \<Longrightarrow> agent_inv fs s \<Longrightarrow> agent_inv fs s'"
proof (erule agent_stepE)
  fix w rc assume "agent_inv fs s" "running s" "world_ok w" "sleep_ok rc s" "main_step w rc s = Some s'"
  then show "agent_inv fs s'"
    using main_step_cases [of fs s w rc] by (auto split: if_splits)
qed (use handle_signal_inv in auto)

lemma agent_reach_inv: "agent_reach fs args s \<Longrightarrow> agent_inv fs s"
proof (induction rule: agent_reach.induct)
  case (start w s)
  then show ?case using main_start_ok [of w fs args] by simp
next
  case (step s s')
  then show ?case using agent_step_inv by blast
qed

subsection \<open>An example\<close>

text \<open>A machine without any file but with a resolver.\<close>

definition world_example :: world where
  "world_example = \<lparr>w_os = os_of_files [], w_access = (\<lambda>_. False), w_alloc = (\<lambda>_. True), w_fopen = True,
     w_static = False, w_inet_pton4 = (\<lambda>_. None), w_inet_pton6 = (\<lambda>_. None),
     w_getaddrinfo = (\<lambda>_ _. Some [\<lparr>ai_family = AF_INET, ai_addrlen = 16, ai_addr = replicate 16 7\<rparr>]), w_socket = 3, w_time = 1000,
     w_clock = Some \<lparr>tv_sec = 50, tv_nsec = 0\<rparr>, w_errno = 0\<rparr>"

lemma world_example_ok: "world_ok world_example" and world_example_loads: "loads_fit (w_os world_example)"
  by (auto simp: world_ok_def world_example_def machine_ok_def loads_fit_def clock_ok_def times_ok_def time_ok_def monotonic_ok_def
      os_of_files_def)

abbreviation (input) args_example :: "string list" where "args_example \<equiv> [''agent'', ''-f'', ''log'']"

lemma example_start:
  "\<exists>s. agent_reach (\<lambda>_. []) args_example s \<and> location s = Top \<and> keep_running s \<and> \<not> reload_config_flag s \<and> outputs s = [] \<and>
    log_file s = Some ''log'' \<and> file_mode s \<and> cfg s = config_defaults \<and> next_sample s = \<lparr>tv_sec = 50, tv_nsec = 0\<rparr>"
proof -
  let ?s = "agent_zero (\<lambda>_. []) args_example"
  have "config_init_from_sources (os_file (w_os world_example)) (w_access world_example) args_example = Some (Inr config_defaults)"
    by (simp add: config_init_from_sources_def find_config_file_def config_search_paths_def world_example_def)
  moreover have "getopt 1 (tl args_example) = [Opt_arg CHR ''f'' 2 0]"
    by (simp add: takes_arg_def)
  moreover obtain cs where "init_collectors (\<lambda>_. True) config_defaults g_collectors = Some (0, cs)"
    using init_collectors_ok [OF g_collectors_inv, of config_defaults "\<lambda>_. True"] config_defaults_ok by (auto simp: config_ok_def)
  ultimately obtain s where s: "init_agent_state world_example ?s = Some (0, s)" "location s = Top" "keep_running s" "\<not> reload_config_flag s"
      "outputs s = []" "log_file s = Some ''log''" "file_mode s" "cfg s = config_defaults"
    by (simp add: init_agent_state_def agent_zero_def option_arg_def apply_options_def open_output_def world_example_def)
  then have "main_start world_example ?s = Some (s\<lparr>next_sample := \<lparr>tv_sec = 50, tv_nsec = 0\<rparr>\<rparr>)"
    by (simp add: main_start_def world_example_def)
  from agent_reach.start [OF world_example_ok this] show ?thesis
    using s(2-8) by (intro exI [of _ "s\<lparr>next_sample := \<lparr>tv_sec = 50, tv_nsec = 0\<rparr>\<rparr>"]) simp
qed

lemma example_sample:
  "\<exists>s e. agent_reach (\<lambda>_. []) args_example s \<and> outputs s = [File ''log'' e]"
proof -
  obtain s where s: "agent_reach (\<lambda>_. []) args_example s" "location s = Top" "keep_running s" "\<not> reload_config_flag s" "outputs s = []"
      "log_file s = Some ''log''" "file_mode s"
    using example_start by blast
  obtain s' b where s': "main_sample world_example s = Some s'" "outputs s' = outputs s @ [emission_of s b]"
    using main_sample_ok [OF world_example_ok world_example_loads agent_reach_inv [OF s(1)] s(2-4)] by blast
  then have "main_step world_example 0 s = Some s'" "running s" "sleep_ok 0 s"
    using s(2-4) by (simp_all add: main_step_def running_def sleep_ok_def)
  then have "agent_reach (\<lambda>_. []) args_example s'"
    using agent_reach.step [OF s(1)] agent_step.run world_example_ok by blast
  then show ?thesis using s' s(5-7) by (auto simp: emission_of_def)
qed

section \<open>Properties\<close>

text \<open>C3: exactly one thing makes the agent's behaviour undefined. Started on any arguments, whatever the
  kernel's files, the configuration and the signals are, its next step exists and leads to a state that
  is reachable again, except in a pass that reads a load average too large for the conversion in
  \<^verbatim>\<open>mem_collect\<close> (\<open>loads_fit\<close> fails: for the two decimals the kernel prints, 655.36 or more).\<close>

theorem agent_never_undefined:
  assumes "agent_reach fs args s" "running s" "world_ok w" "sleep_ok rc s"
  shows "(main_step w rc s = None \<longleftrightarrow> location s = Top \<and> keep_running s \<and> \<not> reload_config_flag s \<and> \<not> loads_fit (w_os w)) \<and>
    (\<forall>s'. main_step w rc s = Some s' \<longrightarrow> agent_reach fs args s')"
  using main_step_cases [OF agent_reach_inv [OF assms(1)] assms(2-4)] agent_reach.step [OF assms(1)] agent_step.run [OF assms(2-4)]
  by (auto split: if_splits)

theorem agent_never_undefined_witness:
  "\<exists>s s'. agent_reach (\<lambda>_. []) args_example s \<and> main_step world_example 0 s = Some s' \<and> agent_reach (\<lambda>_. []) args_example s' \<and>
    main_step (world_example\<lparr>w_os := os_of_files [(''/proc/meminfo'', []), (''/proc/loadavg'', ''700.00 1.00 1.00'')]\<rparr>) 0 s = None"
proof -
  let ?high = "world_example\<lparr>w_os := os_of_files [(''/proc/meminfo'', []), (''/proc/loadavg'', ''700.00 1.00 1.00'')]\<rparr>"
  obtain s where s: "agent_reach (\<lambda>_. []) args_example s" "location s = Top" "keep_running s" "\<not> reload_config_flag s"
    using example_start by blast
  then have run: "running s" "sleep_ok 0 s" by (simp_all add: running_def sleep_ok_def)
  have high: "world_ok ?high"
    using world_example_ok by (simp add: world_ok_def world_example_def machine_ok_def clock_ok_def times_ok_def time_ok_def os_of_files_def)
  have "fst (scanf loadavg_fmt ''700.00 1.00 1.00'') = [A_dec False 70000 (- 2), A_dec False 100 (- 2), A_dec False 100 (- 2)]"
    by (simp add: clib_eval loadavg_fmt_def scan_decimal_def scan_fraction_def scan_exponent_def)
  then have "\<not> loads_fit (w_os ?high)"
    using double_trunc_load_large [of 70000] by (simp add: loads_fit_def os_of_files_def mem_loads_def load_fits_def)
  with agent_never_undefined [OF s(1) run(1) high run(2)] s have "main_step ?high 0 s = None" by blast
  moreover obtain s' where "main_step world_example 0 s = Some s'" "agent_reach (\<lambda>_. []) args_example s'"
    using agent_never_undefined [OF s(1) run(1) world_example_ok run(2)] world_example_loads by fastforce
  ultimately show ?thesis using s(1) by blast
qed

text \<open>C6: while the agent runs its configuration is within bounds, every collector has its context, the
  frame buffer has its 1400 bytes, and there is an open log file or socket to write to.\<close>

theorem agent_running_invariant:
  assumes "agent_reach fs args s" "running s"
  shows "config_ok (cfg s) \<and> collectors_inv (cols s) \<and> collectors_live (cols s) \<and> length (frame_buf s) = TF_FRAME_BUF_SIZE \<and>
    (if file_mode s then log_file s \<noteq> None else 0 \<le> sock s)"
  using agent_reach_inv [OF assms(1)] assms(2) by (simp add: agent_inv_def agent_ready_def agent_base_def)

theorem agent_running_invariant_witness:
  "\<exists>s. agent_reach (\<lambda>_. []) args_example s \<and> config_ok (cfg s) \<and> collectors_live (cols s) \<and> log_file s \<noteq> None"
proof -
  obtain s where s: "agent_reach (\<lambda>_. []) args_example s" "location s = Top" "file_mode s"
    using example_start by blast
  then have "running s" by (simp add: running_def)
  from agent_running_invariant [OF s(1) this] show ?thesis using s by auto
qed

text \<open>C22: the frames are numbered 0, 1, 2, ... from the start of the process on, across reloads (modulo the
  32 bits of the field), each has at most 1400 bytes and consists of a header and whole TLVs.\<close>

theorem frames_numbered:
  assumes "agent_reach fs args s" "k < length (outputs s)"
  shows "length (emission_bytes (outputs s ! k)) \<le> TF_FRAME_BUF_SIZE \<and>
    (\<exists>ts tlvs. emission_bytes (outputs s ! k) = encode_header ts (of_nat k) @ encode_tlvs tlvs \<and> list_all valid_tlv tlvs)"
  using agent_reach_inv [OF assms(1)] assms(2) by (simp add: agent_inv_def agent_base_def outputs_inv_def numbered_frame_def)

theorem frames_numbered_witness:
  "\<exists>s ts tlvs. agent_reach (\<lambda>_. []) args_example s \<and> emission_bytes (outputs s ! 0) = encode_header ts 0 @ encode_tlvs tlvs"
proof -
  obtain s e where s: "agent_reach (\<lambda>_. []) args_example s" "outputs s = [File ''log'' e]"
    using example_sample by blast
  then obtain ts tlvs where "emission_bytes (outputs s ! 0) = encode_header ts 0 @ encode_tlvs tlvs"
    using frames_numbered [OF s(1), of 0] by auto
  then show ?thesis using s(1) by blast
qed

section \<open>The log file\<close>

text \<open>The reader of log files in \<^verbatim>\<open>agent/test_thread_capture.py\<close>: the records of the file, and the results of
  parsing them, of which the empty ones are dropped; a failed assertion is \<open>None\<close>.\<close>

function read_records :: "u8 list \<Rightarrow> u8 list list option" where
  "read_records raw =
     (if \<not> 2 \<le> length raw then Some []
      else let frame_len = 256 * unat (raw ! 0) + unat (raw ! 1);
               raw = drop 2 raw
      in if frame_len > length raw then None
         else map_option (\<lambda>fs. take frame_len raw # fs) (read_records (drop frame_len raw)))"
  by pat_completeness auto
termination
  by (relation "measure length") auto

declare read_records.simps [simp del]

definition read_frames :: "u8 list \<Rightarrow> py_frame list option" where
  "read_frames raw =
     (if length raw < 8 \<or> take 5 raw \<noteq> map byte_of_char ''TFOX'' @ [1] then None
      else map_option (List.map_filter parse_frame) (read_records (drop 8 raw)))"

lemma be_u16_value: "256 * unat (ucast (drop_bit 8 v) :: u8) + unat (ucast v :: u8) = unat v" for v :: u16
proof -
  have "unat v div 256 < 256" using unat_u16_lt [of v] by (simp add: less_mult_imp_div_less del: unat_u16_lt)
  then show ?thesis by (simp add: width_simps)
qed

lemma read_records_log:
  "list_all (\<lambda>b. length b \<le> TF_FRAME_BUF_SIZE) frames \<Longrightarrow> read_records (concat (map log_record frames)) = Some frames"
proof (induction frames)
  case Nil
  then show ?case by (simp add: read_records.simps)
next
  case (Cons b frames)
  let ?v = "of_nat (length b) :: u16"
  have "unat ?v = length b" using Cons.prems by (simp add: unat_of_nat_u16)
  then have n: "256 * unat (ucast (drop_bit 8 ?v) :: u8) + unat (ucast ?v :: u8) = length b"
    using be_u16_value [of ?v] by simp
  have raw: "concat (map log_record (b # frames)) = ucast (drop_bit 8 ?v) # ucast ?v # b @ concat (map log_record frames)"
    by (simp add: log_record_def buf_put_be_u16_def)
  show ?case
    unfolding raw using Cons n by (subst read_records.simps) (simp add: Let_def)
qed

lemma log_frames_bytes: "b \<in> set (log_frames p es) \<Longrightarrow> \<exists>e \<in> set es. b = emission_bytes e"
  by (induction p es rule: log_frames.induct) (auto simp: emission_bytes_def split: if_splits)

lemma emission_number:
  assumes "agent_inv fs s" "k < length (outputs s)"
  shows "\<exists>r. parse_frame (emission_bytes (outputs s ! k)) = Some r \<and> r_seq r = k mod 2 ^ 32"
proof -
  obtain ts tlvs where "emission_bytes (outputs s ! k) = encode_header ts (of_nat k) @ encode_tlvs tlvs" "list_all valid_tlv tlvs"
    using assms by (auto simp: agent_inv_def agent_base_def outputs_inv_def numbered_frame_def)
  then show ?thesis
    by (simp add: parse_frame_encoded receive_keeps_seq unat_of_nat flip: receive_def) (simp add: py_empty_def)
qed

lemma log_frames_inv:
  assumes "agent_inv fs s" "b \<in> set (log_frames p (outputs s))"
  shows "length b \<le> TF_FRAME_BUF_SIZE" "parse_frame b \<noteq> None"
proof -
  obtain k where k: "k < length (outputs s)" "b = emission_bytes (outputs s ! k)"
    using log_frames_bytes [OF assms(2)] by (auto simp: in_set_conv_nth)
  show "length b \<le> TF_FRAME_BUF_SIZE"
    using assms(1) k by (simp add: agent_inv_def agent_base_def outputs_inv_def numbered_frame_def)
  show "parse_frame b \<noteq> None"
    using emission_number [OF assms(1) k(1)] k(2) by auto
qed

text \<open>C5: a log file that did not exist before is readable at any moment: it is empty while no frame has been
  written to it (the header is still buffered), and otherwise the reader finds exactly the frames the
  agent wrote to it, in order, and can parse every one of them.\<close>

theorem log_file_readable:
  assumes "agent_reach fs args s" "fs p = []"
  shows "if files s p = [] then log_frames p (outputs s) = []
    else read_records (drop 8 (files s p)) = Some (log_frames p (outputs s)) \<and>
      (\<forall>b \<in> set (log_frames p (outputs s)). parse_frame b \<noteq> None) \<and>
      read_frames (files s p) = Some (map (\<lambda>b. the (parse_frame b)) (log_frames p (outputs s)))"
proof -
  let ?fs = "log_frames p (outputs s)"
  have inv: "agent_inv fs s" using agent_reach_inv [OF assms(1)] .
  then have ok: "file_ok [] ?fs (files s p)"
    using assms(2) by (auto simp: agent_inv_def files_inv_def dest: spec [of _ p])
  have "list_all (\<lambda>b. length b \<le> 1400) ?fs" and parsed: "\<forall>b \<in> set ?fs. parse_frame b \<noteq> None"
    using log_frames_inv [OF inv] by (auto simp: list_all_iff)
  then have rec: "read_records (concat (map log_record ?fs)) = Some ?fs"
    by (intro read_records_log)
  have "List.map_filter parse_frame bs = map (\<lambda>b. the (parse_frame b)) bs" if "\<forall>b \<in> set bs. parse_frame b \<noteq> None" for bs
    using that by (induction bs) (auto simp: map_filter_simps)
  note results = this [OF parsed]
  show ?thesis
  proof (cases "files s p = []")
    case True
    then show ?thesis using ok by (auto simp: file_ok_def log_record_def buf_put_be_u16_def)
  next
    case False
    then have "files s p = log_header @ concat (map log_record ?fs)"
      using ok by (auto simp: file_ok_def)
    with False rec parsed results show ?thesis
      by (simp add: read_frames_def log_header_def)
  qed
qed

theorem log_file_readable_witness:
  "\<exists>s r. agent_reach (\<lambda>_. []) args_example s \<and> read_frames (files s ''log'') = Some [r] \<and> r_seq r = 0"
proof -
  obtain s b where s: "agent_reach (\<lambda>_. []) args_example s" "outputs s = [File ''log'' b]"
    using example_sample by blast
  then have "read_frames (files s ''log'') = Some [the (parse_frame b)]"
    using log_file_readable [OF s(1), of "''log''"] by (auto split: if_splits)
  moreover have "r_seq (the (parse_frame b)) = 0"
    using emission_number [OF agent_reach_inv [OF s(1)], of 0] s(2) by (auto simp: emission_bytes_def)
  ultimately show ?thesis using s(1) by blast
qed

section \<open>Stopping, reloading, waiting\<close>

text \<open>A run of the program under a given schedule of signals and steps.\<close>

fun agent_exec :: "(int + world \<times> int) list \<Rightarrow> agent \<Rightarrow> agent option" where
  "agent_exec [] s = Some s"
| "agent_exec (Inl sig # es) s = agent_exec es (if running s then handle_signal sig s else s)"
| "agent_exec (Inr (w, rc) # es) s = do { s \<leftarrow> main_step w rc s; agent_exec es s }"

definition stopping :: "nat \<Rightarrow> agent \<Rightarrow> bool" where
  "stopping n s \<longleftrightarrow> (case location s of Wait \<Rightarrow> \<not> keep_running s \<and> 2 \<le> n | Top \<Rightarrow> \<not> keep_running s \<and> 1 \<le> n | Exited c \<Rightarrow> c = 0)"

lemma stopping_signal: "stopping n s \<Longrightarrow> stopping n (handle_signal sig s)"
  by (auto simp: stopping_def handle_signal_def split: pc.splits)

lemma stopping_step: "stopping (Suc n) s \<Longrightarrow> \<exists>s'. main_step w rc s = Some s' \<and> stopping n s'"
  by (auto simp: stopping_def main_step_def main_wait_def main_stop_def split: pc.splits)

lemma stopping_exec: "stopping (length (filter (\<lambda>e. \<not> isl e) es)) s \<Longrightarrow> \<exists>s'. agent_exec es s = Some s' \<and> location s' = Exited 0"
proof (induction es s rule: agent_exec.induct)
  case (1 s)
  then show ?case by (auto simp: stopping_def split: pc.splits)
next
  case (2 sig es s)
  then show ?case using stopping_signal by simp
next
  case (3 w rc es s)
  then obtain s' where "main_step w rc s = Some s'" "stopping (length (filter (\<lambda>e. \<not> isl e) es)) s'"
    using stopping_step [of _ s w rc] by auto
  then show ?case using 3 by simp
qed

text \<open>C20: after \<^verbatim>\<open>SIGINT\<close> or \<^verbatim>\<open>SIGTERM\<close> the agent ends with exit code 0 within two steps of the program,
  whatever the operating system does and whatever signals follow.\<close>

theorem stop_signal_ends:
  assumes "running s" "sig \<noteq> SIGHUP" "2 \<le> length (filter (\<lambda>e. \<not> isl e) es)"
  shows "\<exists>s'. agent_exec (Inl sig # es) s = Some s' \<and> location s' = Exited 0"
proof -
  have "stopping (length (filter (\<lambda>e. \<not> isl e) es)) (handle_signal sig s)"
    using assms by (auto simp: stopping_def handle_signal_def running_def split: pc.splits)
  then show ?thesis using stopping_exec assms(1) by simp
qed

theorem stop_signal_ends_witness:
  "\<exists>s'. agent_exec [Inl SIGTERM, Inr (world_example, 0), Inl SIGHUP, Inr (world_example, 4)] ((agent_zero (\<lambda>_. []) args_example)\<lparr>location := Wait\<rparr>) = Some s' \<and>
    location s' = Exited 0"
  using stop_signal_ends [of "(agent_zero (\<lambda>_. []) args_example)\<lparr>location := Wait\<rparr>" SIGTERM "[Inr (world_example, 0), Inl SIGHUP, Inr (world_example, 4)]"]
  by (simp add: running_def)

text \<open>C21: \<^verbatim>\<open>SIGHUP\<close> replaces the configuration by the one of the sources and starts all collectors afresh; the
  numbering of the frames goes on and the next sample is due at once.\<close>

theorem reload_applies_config:
  assumes "location s = Top" "keep_running s" "reload_config_flag s"
    and sources: "config_init_from_sources (os_file (w_os w)) (w_access w) (argv s) = Some (Inr c)"
    and loop: "option_loop (getopt 1 (tl (argv s))) \<lparr>opt_argv = argv s, opt_cfg = c, opt_file_mode = file_mode s,
      opt_output_file = output_file s, opt_debug = debug_level s\<rparr> = Some (True, opts)"
    and fresh: "init_collectors (w_alloc w) (opt_cfg opts) (destroy_collectors (cols s)) = Some (0, cs)"
    and out: "if opt_file_mode opts then opt_output_file opts \<noteq> None \<and> w_fopen w
      else 0 \<le> w_socket w \<and> (\<exists>a. resolve_host w (cstr (server_host (opt_cfg opts))) (server_port (opt_cfg opts)) = Some (0, a))"
    and clock: "w_clock w = Some t"
  shows "\<exists>s'. main_step w rc s = Some s' \<and> location s' = Top \<and> \<not> reload_config_flag s' \<and> cfg s' = opt_cfg opts \<and> cols s' = cs \<and>
    frame_seq s' = frame_seq s \<and> outputs s' = outputs s \<and> next_sample s' = t"
proof -
  let ?s = "destroy_agent_state (s\<lparr>reload_config_flag := False\<rparr>)"
  have s: "argv ?s = argv s" "file_mode ?s = file_mode s" "output_file ?s = output_file s" "debug_level ?s = debug_level s"
      "cols ?s = destroy_collectors (cols s)" "location ?s = Top" "frame_seq ?s = frame_seq s" "outputs ?s = outputs s" "\<not> reload_config_flag ?s"
    using assms(1) destroy_agent_state_keeps [of "s\<lparr>reload_config_flag := False\<rparr>"] by (simp_all add: same_run_def)
  have "\<exists>s'. init_agent_state w ?s = Some (0, s') \<and> location s' = Top \<and> \<not> reload_config_flag s' \<and> cfg s' = opt_cfg opts \<and> cols s' = cs \<and>
      frame_seq s' = frame_seq s \<and> outputs s' = outputs s"
    using sources loop fresh out s
    by (auto simp: init_agent_state_def apply_options_def open_output_def Let_def split: if_splits)
  then show ?thesis
    using assms(1-3) clock by (auto simp: main_step_def main_reload_def)
qed

theorem reload_applies_config_witness:
  "\<exists>s'. main_step world_example 0 ((agent_zero (\<lambda>_. []) args_example)\<lparr>reload_config_flag := True\<rparr>) = Some s' \<and>
    cfg s' = config_defaults \<and> next_sample s' = \<lparr>tv_sec = 50, tv_nsec = 0\<rparr>"
proof -
  let ?s = "(agent_zero (\<lambda>_. []) args_example)\<lparr>reload_config_flag := True\<rparr>"
  let ?opts = "\<lparr>opt_argv = args_example, opt_cfg = config_defaults, opt_file_mode = True, opt_output_file = Some ''log'', opt_debug = False\<rparr>"
  have cols: "cols ?s = g_collectors" by (simp add: agent_zero_def)
  obtain cs where cs: "init_collectors (w_alloc world_example) (opt_cfg ?opts) (destroy_collectors (cols ?s)) = Some (0, cs)"
    using init_collectors_ok [OF destroy_collectors_ok [OF g_collectors_inv], of config_defaults "\<lambda>_. True"] config_defaults_ok cols
    by (auto simp: config_ok_def world_example_def)
  have src: "config_init_from_sources (os_file (w_os world_example)) (w_access world_example) (argv ?s) = Some (Inr config_defaults)"
    by (simp add: config_init_from_sources_def find_config_file_def config_search_paths_def world_example_def agent_zero_def)
  have "getopt 1 (tl args_example) = [Opt_arg CHR ''f'' 2 0]"
    by (simp add: takes_arg_def)
  then have loop: "option_loop (getopt 1 (tl (argv ?s))) \<lparr>opt_argv = argv ?s, opt_cfg = config_defaults, opt_file_mode = file_mode ?s,
      opt_output_file = output_file ?s, opt_debug = debug_level ?s\<rparr> = Some (True, ?opts)"
    by (simp add: agent_zero_def option_arg_def)
  have "location ?s = Top" "keep_running ?s" "reload_config_flag ?s" by (simp_all add: agent_zero_def)
  from reload_applies_config [OF this src loop cs, of "\<lparr>tv_sec = 50, tv_nsec = 0\<rparr>" 0] show ?thesis
    by (auto simp: world_example_def)
qed

text \<open>C25: when the file given with \<^verbatim>\<open>-c\<close> cannot be read, the start and a reload both end the process with
  exit code 1, and nothing more is sent.\<close>

theorem missing_config_exits:
  assumes "explicit_path (tl (argv s)) = Some path" "os_file (w_os w) path = None"
  shows "main_start w s = Some (s\<lparr>location := Exited 1\<rparr>) \<and>
    (location s = Top \<and> keep_running s \<and> reload_config_flag s \<longrightarrow>
      (\<exists>s'. main_step w rc s = Some s' \<and> location s' = Exited 1 \<and> outputs s' = outputs s))"
proof -
  have init: "init_agent_state w u = Some (1, u)" if "argv u = argv s" for u
    using that assms by (simp add: init_agent_state_def config_init_from_sources_def load_config_file_def)
  let ?s = "destroy_agent_state (s\<lparr>reload_config_flag := False\<rparr>)"
  have "argv ?s = argv s" "outputs ?s = outputs s"
    using destroy_agent_state_keeps [of "s\<lparr>reload_config_flag := False\<rparr>"] by (simp_all add: same_run_def)
  then show ?thesis
    using init [of ?s] init [of s] by (auto simp: main_start_def main_step_def main_reload_def)
qed

theorem missing_config_exits_witness:
  "\<exists>s'. main_step world_example 0 ((agent_zero (\<lambda>_. []) [''agent'', ''-c'', ''x.conf''])\<lparr>reload_config_flag := True\<rparr>) = Some s' \<and>
    location s' = Exited 1"
  using missing_config_exits [of "(agent_zero (\<lambda>_. []) [''agent'', ''-c'', ''x.conf''])\<lparr>reload_config_flag := True\<rparr>" "''x.conf''" world_example 0]
  by (auto simp: agent_zero_def world_example_def os_of_files_def)

text \<open>The comparison of the code is that of the times in nanoseconds.\<close>

lemma timespec_compare_nanos:
  assumes "0 \<le> tv_nsec a" "tv_nsec a < 1000000000" "0 \<le> tv_nsec b" "tv_nsec b < 1000000000"
  shows "timespec_compare a b \<le> 0 \<longleftrightarrow> nanos a \<le> nanos b"
  using assms by (auto simp: timespec_compare_def nanos_def)

lemma next_deadline_nanos:
  assumes "0 \<le> tv_sec d" "tv_sec d < 4000000000" "0 \<le> tv_nsec d" "tv_nsec d < 1000000000" "monotonic_ok now"
  shows "\<exists>d'. next_deadline (Some now) err n d = Some (0, d') \<and>
    (let i = int (unat n) * 1000000000 in nanos d' = (if nanos now < nanos d + i then nanos d + i else nanos now + i)) \<and>
    (nanos now < nanos d + int (unat n) * 1000000000 \<longrightarrow> d' = d\<lparr>tv_sec := tv_sec d + int (unat n)\<rparr>)"
proof -
  have now: "0 \<le> tv_sec now" "tv_sec now < 4000000000" "0 \<le> tv_nsec now" "tv_nsec now < 1000000000"
    using assms(5) by (simp_all add: monotonic_ok_def)
  let ?e = "d\<lparr>tv_sec := tv_sec d + int (unat n)\<rparr>"
  have ns: "nanos (t\<lparr>tv_sec := tv_sec t + int (unat n)\<rparr>) = nanos t + int (unat n) * 1000000000" for t
    by (simp add: nanos_def algebra_simps)
  have cmp: "timespec_compare ?e now \<le> 0 \<longleftrightarrow> nanos ?e \<le> nanos now"
    using assms(3,4) now(3,4) by (intro timespec_compare_nanos) simp_all
  show ?thesis
    using add_interval_ok(1) [OF assms(1,2), of n] add_interval_ok(1) [OF now(1,2), of n] cmp ns [of d] ns [of now]
    by (cases "nanos ?e \<le> nanos now") (simp_all add: next_deadline_def Let_def)
qed

text \<open>Passes of the main loop: each samples and then sleeps until the clock has reached the deadline.\<close>

fun sample_passes :: "world list \<Rightarrow> agent \<Rightarrow> agent option" where
  "sample_passes [] s = Some s"
| "sample_passes (w # ws) s = do { s \<leftarrow> main_step w 0 s; s \<leftarrow> main_step w 0 s; sample_passes ws s }"

lemma sample_pass:
  assumes "agent_inv fs s" "location s = Top" "keep_running s" "\<not> reload_config_flag s" "world_ok w" "loads_fit (w_os w)" "w_clock w = Some now"
  defines "i \<equiv> int (unat (interval_sec (cfg s))) * 1000000000"
  shows "\<exists>s' e. main_step w rc s = Some s' \<and> agent_inv fs s' \<and> location s' = Wait \<and> keep_running s' \<and> \<not> reload_config_flag s' \<and> cfg s' = cfg s \<and>
    outputs s' = outputs s @ [e] \<and>
    nanos (next_sample s') = (if nanos now < nanos (next_sample s) + i then nanos (next_sample s) + i else nanos now + i) \<and>
    (nanos now < nanos (next_sample s) + i \<longrightarrow> tv_sec (next_sample s') = tv_sec (next_sample s) + int (unat (interval_sec (cfg s))))"
proof -
  have "deadline_ok s" using assms(1,2) by (simp add: agent_inv_def running_def)
  then have d: "0 \<le> tv_sec (next_sample s)" "tv_sec (next_sample s) < 4000000000" "0 \<le> tv_nsec (next_sample s)" "tv_nsec (next_sample s) < 1000000000"
    using assms(2-4) by (simp_all add: deadline_ok_def)
  have "monotonic_ok now" using assms(5,7) by (simp add: world_ok_def)
  note n = next_deadline_nanos [OF d this, of "w_errno w" "interval_sec (cfg s)"]
  obtain s' b rc' where "main_sample w s = Some s'" "agent_inv fs s'" "outputs s' = outputs s @ [emission_of s b]"
      "next_deadline (Some now) (w_errno w) (interval_sec (cfg s)) (next_sample s) = Some (rc', next_sample s')"
      "rc' = 0 \<longrightarrow> location s' = Wait \<and> keep_running s' \<and> \<not> reload_config_flag s' \<and> cfg s' = cfg s"
    using main_sample_ok [OF assms(5,6,1-4)] assms(7) by auto
  then show ?thesis
    using n assms(2-4) unfolding i_def Let_def by (auto simp: main_step_def)
qed

lemma sample_passes_grid:
  assumes "agent_inv fs s" "location s = Top" "keep_running s" "\<not> reload_config_flag s"
    "list_all (\<lambda>w. world_ok w \<and> loads_fit (w_os w)) ws"
    "\<forall>k < length ws. \<exists>now. w_clock (ws ! k) = Some now \<and> nanos now < nanos (next_sample s) + (int k + 1) * (int (unat (interval_sec (cfg s))) * 1000000000)"
    "tv_sec (next_sample s) + int (length ws) * int (unat (interval_sec (cfg s))) < 4000000000"
  shows "\<exists>s' es. sample_passes ws s = Some s' \<and> location s' = Top \<and> outputs s' = outputs s @ es \<and> length es = length ws \<and>
    nanos (next_sample s') = nanos (next_sample s) + int (length ws) * (int (unat (interval_sec (cfg s))) * 1000000000)"
  using assms
proof (induction ws arbitrary: s)
  case Nil
  then show ?case by simp
next
  case (Cons w ws)
  define n where "n = int (unat (interval_sec (cfg s)))"
  have n: "0 \<le> n" by (simp add: n_def)
  obtain now where now: "w_clock w = Some now" "nanos now < nanos (next_sample s) + n * 1000000000"
    using Cons.prems(6) by (auto simp: n_def dest: spec [of _ 0])
  obtain s1 e where s1: "main_step w 0 s = Some s1" "agent_inv fs s1" "location s1 = Wait" "keep_running s1" "\<not> reload_config_flag s1" "cfg s1 = cfg s"
      "outputs s1 = outputs s @ [e]" "nanos (next_sample s1) = nanos (next_sample s) + n * 1000000000" "tv_sec (next_sample s1) = tv_sec (next_sample s) + n"
    using sample_pass [OF Cons.prems(1-4) _ _ now(1), of 0] Cons.prems(5) now(2) unfolding n_def by auto
  let ?s = "s1\<lparr>location := Top\<rparr>"
  have wait: "main_step w 0 s1 = Some ?s"
    using s1(3-5) by (simp add: main_step_def main_wait_def)
  have len: "int (length ws) * n \<ge> 0" using n by simp
  then have early: "tv_sec (next_sample s1) < 4000000000" "tv_sec (next_sample ?s) + int (length ws) * n < 4000000000"
    using Cons.prems(7) s1(9) unfolding n_def [symmetric] by (simp_all add: algebra_simps)
  have sleep: "sleep_ok 0 s1"
    using s1(2,3) early(1) by (auto simp: sleep_ok_def monotonic_ok_def agent_inv_def running_def deadline_ok_def intro!: exI [of _ "next_sample s1"])
  have inv: "agent_inv fs ?s"
    using main_wait_inv [OF s1(2,3) sleep] s1(4,5) by (simp add: main_wait_def)
  have clocks: "\<forall>k < length ws. \<exists>now. w_clock (ws ! k) = Some now \<and> nanos now < nanos (next_sample ?s) + (int k + 1) * (n * 1000000000)"
  proof (intro allI impI)
    fix k assume "k < length ws"
    then obtain now where "w_clock (ws ! k) = Some now" "nanos now < nanos (next_sample s) + (int (Suc k) + 1) * (n * 1000000000)"
      using Cons.prems(6) unfolding n_def [symmetric] by (auto dest: spec [of _ "Suc k"])
    then show "\<exists>now. w_clock (ws ! k) = Some now \<and> nanos now < nanos (next_sample ?s) + (int k + 1) * (n * 1000000000)"
      using s1(8) by (simp add: algebra_simps)
  qed
  obtain s' es where "sample_passes ws ?s = Some s'" "location s' = Top" "outputs s' = outputs ?s @ es" "length es = length ws"
      "nanos (next_sample s') = nanos (next_sample ?s) + int (length ws) * (n * 1000000000)"
    using Cons.IH [OF inv] Cons.prems(5) s1(4-6) early(2) clocks unfolding n_def by auto
  then show ?case
    using s1 wait unfolding n_def [symmetric] by (auto simp: algebra_simps)
qed

text \<open>C23: the samples are taken on a grid. A pass that finishes before the next point of the grid waits for it,
  one interval (in nanoseconds) after the last; a pass that finishes too late restarts the grid one
  interval from now. So \<open>m\<close> passes in a row that each finish in time send \<open>m\<close> frames and leave the deadline
  exactly \<open>m\<close> intervals after the first.\<close>

theorem next_deadline_grid:
  assumes "agent_reach fs args s" "location s = Top" "keep_running s" "\<not> reload_config_flag s"
    "list_all (\<lambda>w. world_ok w \<and> loads_fit (w_os w)) ws" "i = int (unat (interval_sec (cfg s))) * 1000000000"
  shows "(\<forall>w \<in> set ws. \<forall>now. w_clock w = Some now \<longrightarrow> (\<exists>s'. main_step w rc s = Some s' \<and> location s' = Wait \<and>
      nanos (next_sample s') = (if nanos now < nanos (next_sample s) + i then nanos (next_sample s) + i else nanos now + i) \<and>
      nanos now < nanos (next_sample s'))) \<and>
    ((\<forall>k < length ws. \<exists>now. w_clock (ws ! k) = Some now \<and> nanos now < nanos (next_sample s) + (int k + 1) * i) \<and>
      tv_sec (next_sample s) + int (length ws) * int (unat (interval_sec (cfg s))) < 4000000000 \<longrightarrow>
      (\<exists>s' es. sample_passes ws s = Some s' \<and> location s' = Top \<and> outputs s' = outputs s @ es \<and> length es = length ws \<and>
        nanos (next_sample s') = nanos (next_sample s) + int (length ws) * i))"
proof -
  note inv = agent_reach_inv [OF assms(1)]
  have "config_ok (cfg s)" using inv assms(2) by (simp add: agent_inv_def agent_ready_def running_def)
  then have i: "0 < i" unfolding assms(6) by (simp add: config_ok_def word_neq_0_conv word_less_def)
  have "\<exists>s'. main_step w rc s = Some s' \<and> location s' = Wait \<and>
      nanos (next_sample s') = (if nanos now < nanos (next_sample s) + i then nanos (next_sample s) + i else nanos now + i) \<and>
      nanos now < nanos (next_sample s')" if "w \<in> set ws" "w_clock w = Some now" for w now
  proof -
    have "world_ok w" "loads_fit (w_os w)" using that(1) assms(5) by (auto simp: list_all_iff)
    from sample_pass [OF inv assms(2-4) this that(2), of rc] show ?thesis
      using i unfolding assms(6) [symmetric] by auto
  qed
  moreover note sample_passes_grid [OF inv assms(2-5)]
  ultimately show ?thesis unfolding assms(6) by blast
qed

theorem next_deadline_grid_witness:
  "\<exists>s s'. agent_reach (\<lambda>_. []) args_example s \<and> next_sample s = \<lparr>tv_sec = 50, tv_nsec = 0\<rparr> \<and>
    sample_passes [world_example, world_example\<lparr>w_clock := Some \<lparr>tv_sec = 55, tv_nsec = 3\<rparr>\<rparr>] s = Some s' \<and>
    length (outputs s') = 2 \<and> nanos (next_sample s') = 60 * 1000000000 \<and>
    (\<exists>s''. main_step (world_example\<lparr>w_clock := Some \<lparr>tv_sec = 55, tv_nsec = 3\<rparr>\<rparr>) 0 s = Some s'' \<and> nanos (next_sample s'') = 60000000003)"
proof -
  let ?w = "world_example\<lparr>w_clock := Some \<lparr>tv_sec = 55, tv_nsec = 3\<rparr>\<rparr>"
  obtain s where s: "agent_reach (\<lambda>_. []) args_example s" "location s = Top" "keep_running s" "\<not> reload_config_flag s" "outputs s = []"
      "cfg s = config_defaults" "next_sample s = \<lparr>tv_sec = 50, tv_nsec = 0\<rparr>"
    using example_start by blast
  have five: "interval_sec (cfg s) = 5" using s(6) by (simp add: config_defaults_def)
  have ws: "list_all (\<lambda>w. world_ok w \<and> loads_fit (w_os w)) [world_example, ?w]"
    using world_example_ok world_example_loads by (simp add: world_ok_def monotonic_ok_def)
  have start: "nanos (next_sample s) = 50000000000" using s(7) by (simp add: nanos_def)
  note grid = next_deadline_grid [OF s(1-4) ws refl, of 0, unfolded five start]
  have late: "\<exists>s''. main_step ?w 0 s = Some s'' \<and> nanos (next_sample s'') = 60000000003"
    using conjunct1 [OF grid] by (auto simp: nanos_def)
  have "\<forall>k < length [world_example, ?w]. \<exists>now. w_clock ([world_example, ?w] ! k) = Some now \<and> nanos now < 50000000000 + (int k + 1) * 5000000000"
    by (auto simp: less_Suc_eq world_example_def nanos_def)
  then have "\<exists>s' es. sample_passes [world_example, ?w] s = Some s' \<and> location s' = Top \<and> outputs s' = outputs s @ es \<and> length es = Suc (Suc 0) \<and>
      nanos (next_sample s') = 60000000000"
    using conjunct2 [OF grid] s(7) by (simp del: sample_passes.simps)
  with late s(1,5,7) show ?thesis by auto
qed

text \<open>C24: the frames go to the first result of \<^verbatim>\<open>getaddrinfo\<close> that is an IPv4 or IPv6 address and fits the
  address structure; its bytes are copied and the rest of the structure is zero.\<close>

theorem resolve_addr_first:
  assumes "world_ok w" "w_getaddrinfo w h (show_u (unat port)) = Some (pre @ r # post)"
    "list_all (\<lambda>r. ai_family r \<notin> {AF_INET, AF_INET6} \<or> ai_addrlen r > 128) pre"
    "ai_family r \<in> {AF_INET, AF_INET6}" "ai_addrlen r \<le> 128"
  shows "resolve_addr (w_getaddrinfo w) (Some h) port = Some (0, ai_addr r @ replicate (128 - ai_addrlen r) 0, ai_addrlen r, ai_family r)"
proof -
  have "find (\<lambda>r. (ai_family r = AF_INET \<or> ai_family r = AF_INET6) \<and> \<not> ai_addrlen r > 128) (pre @ r # post) = Some r"
    using assms(3-5) by (induction pre) auto
  then show ?thesis using resolve_addr_found [OF assms(1,2)] by blast
qed

theorem resolve_addr_first_witness:
  "resolve_addr (w_getaddrinfo world_example) (Some ''127.0.0.1'') 9000 = Some (0, replicate 16 7 @ replicate 112 0, 16, AF_INET)"
  using resolve_addr_first [OF world_example_ok, of "''127.0.0.1''" 9000 "[]" "\<lparr>ai_family = AF_INET, ai_addrlen = 16, ai_addr = replicate 16 7\<rparr>" "[]"]
  by (simp add: world_example_def)

end
