(* ===== verification/Spec2Isabelle.thy ===== *)
theory Spec2Isabelle
  imports Agent Protocol
begin

text \<open>
  A verification development for TraceFox: the agent (C, \<^verbatim>\<open>src/agent\<close>) and the frame parser of its receiver
  (Python, \<^verbatim>\<open>src/server/tracefox_protocol.py\<close>).

  \<^bold>\<open>The program.\<close> The agent runs on a Linux machine. Once per interval it asks six collectors (cpu, mem,
  net, disk, fs, proc) to read \<^verbatim>\<open>/proc\<close>, builds one frame of at most 1400 bytes (a header of 12 bytes and
  TLVs: type byte, length byte, value) in which every collector puts its last reading, and sends the frame with UDP
  or appends it to a log file. Signals stop it or make it reload its configuration. The receiver parses
  the frames and passes the numbers on to a database.

  \<^bold>\<open>Theories.\<close>
  \<^item> \<open>Prelude\<close>: types, the constants of \<^verbatim>\<open>tracefox.h\<close>, collections of simplification rules, lemmas on
    lists, options and words.
  \<^item> \<open>Clib\<close>: what the code uses of the C library: strings in arrays, \<^verbatim>\<open>strtoul\<close>, \<^verbatim>\<open>scanf\<close> formats as data,
    \<^verbatim>\<open>fgets\<close> lines, number printing.
  \<^item> \<open>Tlv\<close> (\<^verbatim>\<open>tlv.c\<close>): the frame writer and the big-endian cursors, the abstract frame (\<open>encode_header\<close>,
    \<open>encode_tlvs\<close>); a write either appends one whole TLV or leaves the writer as it was.
  \<^item> \<open>Collector\<close>: configuration, sample context, the machine as seen through its files (\<open>os\<close>), and the
    locale \<open>collector\<close>, the contract of \<^verbatim>\<open>struct tf_collector\<close>: every operation is defined (a collection on the
    machines the collector states), keeps the invariant, and a push appends whole TLVs. Each collector
    interprets it.
  \<^item> \<open>Cpu\<close>, \<open>Mem\<close> (with \<open>Double\<close>, the rounding of IEEE doubles), \<open>Net\<close>, \<open>Disk\<close>, \<open>Fs\<close>: the five
    system collectors, one theory per file; each states what its table holds for a given text of its
    \<^verbatim>\<open>/proc\<close> file.
  \<^item> \<open>Proc_Tables\<close>, \<open>Proc_Stat\<close>, \<open>Proc_Threads\<close>, \<open>Proc\<close> (\<^verbatim>\<open>proc.c\<close>): the hash tables of previous
    readings, the readers of \<^verbatim>\<open>stat\<close>, \<^verbatim>\<open>status\<close> and \<^verbatim>\<open>statm\<close>, the threads of a group, their ranking (the
    locale \<open>c_qsort\<close> is what the C standard says of \<^verbatim>\<open>qsort\<close>) and the packing of their TLVs, the tracker and
    the accounting of groups.
  \<^item> \<open>Config\<close> (\<^verbatim>\<open>main.c\<close>): defaults, configuration files, \<^verbatim>\<open>getopt\<close> and the options.
  \<^item> \<open>Sampling\<close> (\<^verbatim>\<open>main.c\<close>): the loops over the collectors and the frame of one pass.
  \<^item> \<open>Agent\<close> (\<^verbatim>\<open>main.c\<close>): the process as a state machine: \<open>main_start\<close>, \<open>main_step\<close> (a pass of the main
    loop, or a test of the wait loop), \<open>handle_signal\<close>, and the relation \<open>agent_step\<close> that interleaves them;
    the addresses of \<^verbatim>\<open>resolve_addr\<close> (both builds: with \<^verbatim>\<open>getaddrinfo\<close>, and the static one with
    \<^verbatim>\<open>inet_pton\<close>; they agree on numeric addresses), the deadlines, the log file with the buffer of its stream, and
    its reader in \<^verbatim>\<open>agent/test_thread_capture.py\<close>.
  \<^item> \<open>Protocol\<close>: \<^verbatim>\<open>parse_frame\<close> of the receiver, the locale \<open>fixed_codec\<close> between an encoder in C and its
    decoder in Python, with an interpretation per entry type, and what the receiver makes of the TLVs of
    each collector.
  \<^item> this theory: the agent and the receiver together.

  \<^bold>\<open>Correspondence.\<close> A struct is a record, a C integer a word of its width, a \<^verbatim>\<open>char\<close> array a list of fixed length,
  read with \<open>cstr\<close> up to its terminator, a pointer that may be NULL an \<open>option\<close>. Undefined behaviour of C (signed
  overflow, an access outside an array, a double that does not fit its integer type) is the value
  \<open>None\<close> of an operation; so a theorem that says \<open>= Some\<close> also says that nothing of the kind happens. Return codes are
  integers, as in the code. What the kernel answers is a parameter: \<open>os\<close> for the files, directories,
  clocks and \<^verbatim>\<open>statvfs\<close>, \<open>world\<close> for the calls of \<^verbatim>\<open>main.c\<close>. Hypotheses on them state documented behaviour only
  (\<open>machine_ok\<close>, \<open>world_ok\<close>, \<open>sleep_ok\<close>: times in the range of the next centuries, a sleep that ends not before
  its deadline, addresses as long as they say). One condition is none of these and is stated apart wherever a pass
  has to succeed: \<open>loads_fit\<close>, that the load averages can be converted to \<^verbatim>\<open>uint16_t\<close> (below 655.36); without
  it the pass is undefined, which is proved too. The types \<^verbatim>\<open>long\<close>, \<^verbatim>\<open>size_t\<close> and \<^verbatim>\<open>time_t\<close> have 64 bits, as in the
  x86-64 and AArch64 builds; in the 32-bit ARMv7 build \<^verbatim>\<open>strtol\<close> saturates at \<open>2^31 - 1\<close> already.

  \<^bold>\<open>What is shown.\<close> For every collector: the readings are what its files say, within their bounds. For the
  frame: no push fails, no TLV is ever cut in two, and the receiver reconstructs every reading of the system and of the process
  groups and as many of the thread groups as fit, as long as there are at most three disks and nine file systems
  (beyond that the length byte of a TLV wraps, which is proved as well). For the process: the next step of a
  reachable state is undefined exactly when a pass reads a load average that does not fit, every other pass emits exactly
  one frame, samples are on a grid of the interval, frames are numbered consecutively across reloads, log files stay readable, a termination signal
  ends the process within two steps, a reload applies the sources. For the configuration: bounds hold whatever the
  sources say, files are read back as they were written, and the places where the options differ from the file
  are stated.

  \<^bold>\<open>Bounds and recursion.\<close> No function needs fuel: loops over lines, directory entries, slots and options
  are structural recursions on lists; the readers of \<^verbatim>\<open>scanf\<close> and of TLVs have a termination proof by the
  length of the input. The main loop is a step relation, so it may run forever.

  \<^bold>\<open>Not modelled.\<close> The texts of \<^verbatim>\<open>TF_LOG\<close> messages other than the debug prints of the configuration and
  of a sample; the reordering of arguments by GNU \<^verbatim>\<open>getopt\<close>; failures of \<^verbatim>\<open>fwrite\<close>
  and \<^verbatim>\<open>sendto\<close> (the code ignores them). Where a collection calls \<^verbatim>\<open>qsort\<close> it is one of the orders the
  standard allows; the ranking is proved for all of them. Signals arrive between
  steps: the flags they set are read only there. Of the rest of the repository, the forwarder to the
  database, the Wireshark dissector, the Windows tools, dashboards, tests and build files are not modelled.
\<close>

section \<open>From the agent to the receiver\<close>

definition fresh_collectors :: collectors where
  "fresh_collectors = snd (the (init_collectors (\<lambda>_. True) config_defaults g_collectors))"

lemma fresh_collectors_ok: "collectors_inv fresh_collectors" "collectors_live fresh_collectors"
  using init_collectors_ok [OF g_collectors_inv, of config_defaults "\<lambda>_. True"] config_defaults_ok
  by (auto simp: fresh_collectors_def config_ok_def)

text \<open>C1: end to end. One pass of the main loop on a machine whose load averages fit their fields collects from
  all six collectors and builds a frame without a push error; with at most three disks and nine file
  systems the receiver's \<^verbatim>\<open>parse_frame\<close> reconstructs from its bytes exactly the time, the sequence number, the
  label and the readings just collected. Of the thread groups it shows as many, with as many threads
  each, as fit into the bytes that are left, in order, 36 bytes for a group and 28 for a thread, a shortened group
  marked as such; all of them when they fit.\<close>

theorem sample_frame_decoded:
  assumes "collectors_inv cs" "collectors_live cs" "wf_config conf" "machine_ok os" "loads_fit os" "length buf = TF_FRAME_BUF_SIZE"
  shows "\<exists>w cs' x cs1 b. sample_frame os ts conf seq buf cs = Some (Inr (0, w, cs')) \<and>
    collect_all os conf (Some \<lparr>cpu_total_diff = 1\<rparr>) cs = Some (x, cs1) \<and> cs' = warned b cs1 \<and>
    (disk_count (the (c_disk cs')) \<le> 3 \<and> fs_count (the (c_fs cs')) \<le> 9 \<longrightarrow>
      parse_frame (frame w) = Some (frame_view conf ts seq cs') \<and>
      (let prc = the (c_proc cs') in \<not> disabled prc \<and> ctx_thread_mode prc \<noteq> TF_THREAD_MODE_OFF \<and>
        36 * length (thread_counts prc) + 28 * sum_list (thread_counts prc) \<le> thread_room conf cs' \<longrightarrow>
        r_threads (frame_view conf ts seq cs') = all_threads prc))"
proof -
  obtain w cs' x cs1 b where s: "sample_frame os ts conf seq buf cs = Some (Inr (0, w, cs'))" "collectors_inv cs'" "collectors_live cs'"
      "collect_all os conf (Some \<lparr>cpu_total_diff = 1\<rparr>) cs = Some (x, cs1)" "cs' = warned b cs1"
      "parse_frame (frame w) = Some (receive (py_empty (unat ts) (unat seq)) (sample_tlvs conf cs'))"
    using sample_frame_parsed [OF assms] by blast
  have "r_threads (frame_view conf ts seq cs') = threads_shown (thread_room conf cs') (the (c_proc cs'))"
    by (simp add: frame_view_def Let_def)
  then show ?thesis
    using s receive_sample [OF s(2,3)] threads_shown_all by (intro exI [of _ w] exI [of _ cs'] exI [of _ x] exI [of _ cs1] exI [of _ b]) (simp add: Let_def)
qed

theorem sample_frame_decoded_witness:
  "\<exists>w cs'. sample_frame (os_of_files []) 1000 config_defaults 7 (replicate 1400 0) fresh_collectors = Some (Inr (0, w, cs')) \<and>
    parse_frame (frame w) = Some (frame_view config_defaults 1000 7 cs')"
proof -
  have os: "machine_ok (os_of_files [])" "loads_fit (os_of_files [])"
    using world_example_ok world_example_loads by (simp_all add: world_ok_def world_example_def)
  have conf: "wf_config config_defaults" using config_defaults_ok by (simp add: config_ok_def)
  obtain w cs' where s: "sample_frame (os_of_files []) 1000 config_defaults 7 (replicate 1400 0) fresh_collectors = Some (Inr (0, w, cs'))"
      "disk_count (the (c_disk cs')) \<le> 3 \<and> fs_count (the (c_fs cs')) \<le> 9 \<longrightarrow> parse_frame (frame w) = Some (frame_view config_defaults 1000 7 cs')"
    using sample_frame_decoded [OF fresh_collectors_ok conf os, of "replicate 1400 0" 1000 7] by fastforce
  have "disk_count (the (c_disk cs')) = 0 \<and> fs_count (the (c_fs cs')) = 0"
    using sample_frame_collected [OF s(1)] fresh_collectors_ok(2)
    by (auto simp: collectors_live_def disk_collect_api_def fs_collect_api_def disk_collect_def fs_collect_def os_of_files_def
        bind_eq_Some_conv dest!: sym [of "Some _"])
  then show ?thesis using s by auto
qed

text \<open>C33: with four disks or more, or ten file systems or more, the receiver shows fewer of them than the agent
  has collected, since the length byte of the TLV has wrapped.\<close>

theorem many_devices_lost:
  assumes "collectors_inv cs" "collectors_live cs" "wf_config conf" "length buf = TF_FRAME_BUF_SIZE"
    "tlv_init (Some v) (Some buf) TF_FRAME_BUF_SIZE ts seq = Some (0, Some w)" "push_label conf (Some w) = Some (Some w1)"
  shows "\<exists>w' cs' r. push_all cs (Some w1) = Some (0, Some w', cs') \<and> parse_frame (frame w') = Some r \<and>
    (4 \<le> disk_count (the (c_disk cs)) \<longrightarrow> (\<exists>ds. r_disk r = Some ds \<and> length ds < disk_count (the (c_disk cs)))) \<and>
    (10 \<le> fs_count (the (c_fs cs)) \<longrightarrow> (\<exists>ms. r_fs r = Some ms \<and> length ms < fs_count (the (c_fs cs))))"
proof -
  have w: "wf_writer w1" "cap w1 = 1400" "wlen w1 = 12 + length (encode_tlvs (label_tlvs conf))" "wlen w1 \<le> 77" "frame w1 = encode_header ts seq @ encode_tlvs (label_tlvs conf)"
      "list_all valid_tlv (label_tlvs conf)"
    using labelled_writer [OF assms(3,4), of v ts seq] assms(5,6) by auto
  obtain w' cs' b where p: "push_all cs (Some w1) = Some (0, Some w', cs')" "collectors_inv cs'" "collectors_live cs'" "cs' = warned b cs"
      "parse_frame (frame w') = Some (receive (py_empty (unat ts) (unat seq)) (sample_tlvs conf cs'))"
    using push_all_parsed [OF assms(1,2) w] by blast
  then show ?thesis
    using receive_sample_cut [OF p(2,3), of "py_empty (unat ts) (unat seq)" conf] by (auto simp: warned_def)
qed

theorem many_devices_lost_witness:
  "\<exists>w w1 w' cs' r ds. tlv_init (Some \<lparr>buffer = [], wlen = 0, cap = 0\<rparr>) (Some (replicate 1400 0)) TF_FRAME_BUF_SIZE 5 0 = Some (0, Some w) \<and>
    push_label config_defaults (Some w) = Some (Some w1) \<and>
    push_all (fresh_collectors\<lparr>c_disk := Some (zero_disk_ctx\<lparr>disk_count := 4\<rparr>)\<rparr>) (Some w1) = Some (0, Some w', cs') \<and>
    parse_frame (frame w') = Some r \<and> r_disk r = Some ds \<and> length ds < 4"
proof -
  let ?cs = "fresh_collectors\<lparr>c_disk := Some (zero_disk_ctx\<lparr>disk_count := 4\<rparr>)\<rparr>"
  have cs: "collectors_inv ?cs" "collectors_live ?cs"
    using fresh_collectors_ok disk_ctx_inv_zero by (simp_all add: collectors_inv_def collectors_live_def disk_inv_def disk_ctx_inv_def)
  have wf: "wf_config config_defaults" using config_defaults_ok by (simp add: config_ok_def)
  obtain w w1 where w: "tlv_init (Some \<lparr>buffer = [], wlen = 0, cap = 0\<rparr>) (Some (replicate 1400 0)) TF_FRAME_BUF_SIZE 5 0 = Some (0, Some w)"
      "push_label config_defaults (Some w) = Some (Some w1)"
    using labelled_writer [OF wf, of "replicate 1400 0"] by fastforce
  show ?thesis
    using many_devices_lost [OF cs wf _ w] w by auto
qed

section \<open>The agent as a stream of numbered frames\<close>

text \<open>What the agent promises its receiver: an endless stream of frames with consecutive numbers, that may
  stop at any moment and never goes on after that.\<close>

inductive stream_step :: "nat list \<times> bool \<Rightarrow> nat list \<times> bool \<Rightarrow> bool" where
  idle: "stream_step (ns, True) (ns, b)"
| sample: "stream_step (ns, True) (ns @ [length ns mod 2 ^ 32], b)"

definition stream_of :: "agent \<Rightarrow> nat list \<times> bool" where
  "stream_of s = (map (\<lambda>e. r_seq (the (parse_frame (emission_bytes e)))) (outputs s), running s)"

lemma main_stop_outputs: "outputs (main_stop s) = outputs s"
  using destroy_agent_state_keeps(1) [of s] by (simp add: main_stop_def same_run_def)

lemma main_reload_outputs:
  assumes "world_ok w" "agent_inv fs s" "main_reload w s = Some s'"
  shows "outputs s' = outputs s"
proof -
  let ?s = "destroy_agent_state (s\<lparr>reload_config_flag := False\<rparr>)"
  have base: "agent_base (s\<lparr>reload_config_flag := False\<rparr>)" "files_inv fs (s\<lparr>reload_config_flag := False\<rparr>)"
    using assms(2) by (simp_all add: agent_inv_def agent_base_def files_inv_def outputs_inv_def output_ok_def)
  then have "collectors_inv (cols ?s)" "output_ok ?s" and out: "outputs ?s = outputs s"
    using destroy_agent_state_ok [OF base] by (simp_all add: agent_base_def same_run_def)
  then obtain rc s1 where "init_agent_state w ?s = Some (rc, s1)" "same_run ?s s1"
    using init_agent_state_ok [OF assms(1)] by blast
  then show ?thesis
    using assms(3) out by (auto simp: main_reload_def same_run_def main_stop_outputs split: if_splits option.splits)
qed

lemma main_step_outputs:
  assumes "world_ok w" "agent_inv fs s" "main_step w rc s = Some s'" "running s"
  shows "outputs s' = outputs s \<or> (\<exists>e. outputs s' = outputs s @ [e])"
proof (cases "location s")
  case Top
  then show ?thesis
    using assms main_reload_outputs [OF assms(1,2)] main_sample_ok [OF assms(1) _ assms(2) Top] main_stop_outputs [of s]
      main_sample_undefined [OF assms(2,4)]
    by (fastforce simp: main_step_def split: if_splits)
qed (use assms in \<open>auto simp: main_step_def main_wait_def main_stop_outputs running_def\<close>)

text \<open>C2: the agent implements the stream: every step of it, signals, reloads and failures included, is a
  step of the stream of sequence numbers that the receiver parses from its frames.\<close>

theorem agent_refines_stream:
  assumes "agent_reach fs args s" "agent_step s s'"
  shows "stream_step (stream_of s) (stream_of s')"
proof -
  have inv: "agent_inv fs s" "agent_inv fs s'" using assms agent_reach_inv agent_reach.step by blast+
  have run: "running s" using assms(2) by (auto elim: agent_stepE)
  have "outputs s' = outputs s \<or> (\<exists>e. outputs s' = outputs s @ [e])"
    using assms(2) main_step_outputs [OF _ inv(1) _ run] by (auto elim!: agent_stepE simp: handle_signal_def)
  then show ?thesis
  proof (elim disjE exE)
    fix e assume e: "outputs s' = outputs s @ [e]"
    have "r_seq (the (parse_frame (emission_bytes e))) = length (outputs s) mod 2 ^ 32"
      using emission_number [OF inv(2), of "length (outputs s)"] e by auto
    then show ?thesis
      using e run stream_step.sample [of "fst (stream_of s)" "running s'"] by (simp add: stream_of_def)
  qed (use run stream_step.idle in \<open>simp add: stream_of_def\<close>)
qed

theorem agent_refines_stream_witness:
  "\<exists>s. agent_reach (\<lambda>_. []) args_example s \<and> stream_step (stream_of s) (stream_of (handle_signal SIGTERM s))"
proof -
  obtain s where s: "agent_reach (\<lambda>_. []) args_example s" "location s = Top"
    using example_start by blast
  then have "agent_step s (handle_signal SIGTERM s)" by (intro agent_step.signal) (simp_all add: running_def)
  from agent_refines_stream [OF s(1) this] show ?thesis using s(1) by blast
qed

text \<open>C4: the agent makes progress: when it is due and neither stopped nor told to reload, its next step sends
  or logs exactly one frame, to where the configuration says, and the receiver accepts it. (The load
  averages fit their fields.)\<close>

theorem pass_emits_frame:
  assumes "agent_reach fs args s" "location s = Top" "keep_running s" "\<not> reload_config_flag s" "world_ok w" "loads_fit (w_os w)"
  shows "\<exists>s' b r. main_step w rc s = Some s' \<and>
    outputs s' = outputs s @ [if file_mode s then File (the (log_file s)) b else Udp b] \<and>
    parse_frame b = Some r \<and> r_seq r = length (outputs s) mod 2 ^ 32"
proof -
  obtain s' b where s': "main_sample w s = Some s'" "agent_inv fs s'" "outputs s' = outputs s @ [emission_of s b]"
    using main_sample_ok [OF assms(5,6) agent_reach_inv [OF assms(1)] assms(2-4)] by blast
  have "emission_bytes (emission_of s b) = b" by (simp add: emission_of_def emission_bytes_def)
  then show ?thesis
    using s' assms(2-4) emission_number [OF s'(2), of "length (outputs s)"] by (auto simp: main_step_def emission_of_def)
qed

theorem pass_emits_frame_witness:
  "\<exists>s s' b r. agent_reach (\<lambda>_. []) args_example s \<and> main_step world_example 0 s = Some s' \<and> outputs s' = [File ''log'' b] \<and>
    parse_frame b = Some r \<and> r_seq r = 0"
proof -
  obtain s where s: "agent_reach (\<lambda>_. []) args_example s" "location s = Top" "keep_running s" "\<not> reload_config_flag s" "outputs s = []"
      "log_file s = Some ''log''" "file_mode s"
    using example_start by blast
  from pass_emits_frame [OF s(1-4) world_example_ok world_example_loads, of 0] show ?thesis using s by auto
qed

end
